(* ===== verification/Prelude.thy ===== *)
theory Prelude
  imports Main "HOL-Library.Word" "HOL-Library.Monad_Syntax"
begin

text \<open>
  Shared vocabulary of the development: how the behaviours of the Rust sources are written as
  HOL values, and the generic lemmas every component uses.

  \<^item> A computation that may panic (a failed \<open>assert!\<close>, \<open>unwrap\<close>, \<open>expect\<close>, an index out of
    bounds) has an \<open>option\<close> type; \<open>None\<close> is the panic. Such computations are composed with the
    \<open>do\<close> notation of the option monad.
  \<^item> A Rust \<open>Result\<close> is a sum: \<open>Inl\<close> is \<open>Err\<close>, \<open>Inr\<close> is \<open>Ok\<close>.
  \<^item> \<open>u32\<close> and \<open>u64\<close> are words; \<open>usize\<close> values (lengths and indices) are natural numbers.
  \<^item> The lists of the model are Rust's \<open>Vec\<close>; \<open>vec_get\<close> and \<open>vec_remove\<close> panic out of range,
    as indexing and \<open>Vec::remove\<close> do.
\<close>

section \<open>Panics, results and vectors\<close>

type_synonym u16 = "16 word"
type_synonym u32 = "32 word"
type_synonym u64 = "64 word"

named_theorems vec_simps \<open>facts about checked vector access and lazy checks\<close>

definition vec_get :: "'a list \<Rightarrow> nat \<Rightarrow> 'a option" where
  "vec_get xs i = (if i < length xs then Some (xs ! i) else None)"

definition without_nth :: "nat \<Rightarrow> 'a list \<Rightarrow> 'a list" where
  "without_nth i xs = take i xs @ drop (Suc i) xs"

definition vec_remove :: "'a list \<Rightarrow> nat \<Rightarrow> ('a \<times> 'a list) option" where
  "vec_remove xs i = (if i < length xs then Some (xs ! i, without_nth i xs) else None)"

definition expect :: "'e + 'a \<Rightarrow> 'a option" where
  "expect r = (case r of Inl _ \<Rightarrow> None | Inr x \<Rightarrow> Some x)"

text \<open>
  \<open>iter.map(f).all(|x| x == true)\<close>: Rust's iterators are lazy and \<open>all\<close> stops at the first
  \<open>false\<close>, so a later element whose evaluation would panic is not evaluated.
\<close>

fun all_lazy :: "('i \<Rightarrow> bool option) \<Rightarrow> 'i list \<Rightarrow> bool option" where
  "all_lazy f [] = Some True"
| "all_lazy f (i # is) =
     (case f i of None \<Rightarrow> None | Some b \<Rightarrow> if b then all_lazy f is else Some False)"

text \<open>\<open>a && b\<close> where either side may panic.\<close>

definition and_lazy :: "bool option \<Rightarrow> bool option \<Rightarrow> bool option" where
  "and_lazy a b = (case a of None \<Rightarrow> None | Some x \<Rightarrow> if x then b else Some False)"

text \<open>Mapping a function that may panic over a vector, left to right.\<close>

fun map_panic :: "('a \<Rightarrow> 'b option) \<Rightarrow> 'a list \<Rightarrow> 'b list option" where
  "map_panic f [] = Some []"
| "map_panic f (x # xs) =
     do { y \<leftarrow> f x; ys \<leftarrow> map_panic f xs; Some (y # ys) }"

section \<open>Lemmas\<close>

lemma vec_get_in [vec_simps, simp]: "i < length xs \<Longrightarrow> vec_get xs i = Some (xs ! i)"
  by (simp add: vec_get_def)

lemma vec_get_out [vec_simps, simp]: "length xs \<le> i \<Longrightarrow> vec_get xs i = None"
  by (simp add: vec_get_def)

lemma vec_get_Some_iff: "vec_get xs i = Some x \<longleftrightarrow> i < length xs \<and> xs ! i = x"
  by (auto simp: vec_get_def)

lemma vec_get_0 [vec_simps, simp]: "xs \<noteq> [] \<Longrightarrow> vec_get xs 0 = Some (hd xs)"
  by (cases xs) simp_all

lemma vec_get_head: "vec_get xs 0 = Some x \<longleftrightarrow> xs \<noteq> [] \<and> x = hd xs"
  by (cases xs) auto

lemma head_plus_tail:
  fixes xs :: "'a::comm_monoid_add list"
  shows "xs \<noteq> [] \<Longrightarrow> hd xs + sum_list (tl xs) = sum_list xs"
  by (cases xs) simp_all

lemma expect_simps [simp]: "expect (Inr x) = Some x" "expect (Inl e) = None"
  by (simp_all add: expect_def)

lemma and_lazy_simps [simp]:
  "and_lazy (Some True) b = b" "and_lazy (Some False) b = Some False" "and_lazy None b = None"
  by (simp_all add: and_lazy_def)

lemma and_lazy_total [simp]: "and_lazy (Some a) (Some b) = Some (a \<and> b)"
  by (simp add: and_lazy_def)

lemma all_lazy_total:
  assumes "\<And>i. i \<in> set is \<Longrightarrow> f i = Some (p i)"
  shows "all_lazy f is = Some (\<forall>i\<in>set is. p i)"
  using assms by (induction "is") auto

lemma all_lazy_True_iff: "all_lazy f is = Some True \<longleftrightarrow> (\<forall>i\<in>set is. f i = Some True)"
  by (induction "is") (auto split: option.splits)

lemma all_lazy_range:
  assumes "\<And>i. i < n \<Longrightarrow> f i = Some (p i)"
  shows "all_lazy f [0..<n] = Some (\<forall>i<n. p i)"
  using assms by (subst all_lazy_total [where p = p]) auto

lemma map_panic_total:
  assumes "\<And>x. x \<in> set xs \<Longrightarrow> f x = Some (g x)"
  shows "map_panic f xs = Some (map g xs)"
  using assms by (induction xs) auto

lemma map_panic_Some_length: "map_panic f xs = Some ys \<Longrightarrow> length ys = length xs"
  by (induction xs arbitrary: ys) (auto split: option.splits simp: bind_eq_Some_conv)

lemma map_panic_Some_nth:
  "map_panic f xs = Some ys \<Longrightarrow> i < length xs \<Longrightarrow> f (xs ! i) = Some (ys ! i)"
  by (induction xs arbitrary: ys i) (auto simp: bind_eq_Some_conv nth_Cons split: nat.splits)

lemma map_panic_vec_get:
  assumes "length xs = n"
  shows "map_panic (\<lambda>i. map_option g (vec_get xs i)) [0..<n] = Some (map g xs)"
proof -
  have "map_panic (\<lambda>i. map_option g (vec_get xs i)) [0..<n] = Some (map (\<lambda>i. g (xs ! i)) [0..<n])"
    using assms by (intro map_panic_total) simp
  also have "map (\<lambda>i. g (xs ! i)) [0..<n] = map g xs"
    using assms by (intro nth_equalityI) simp_all
  finally show ?thesis .
qed

lemma foldl_add_sum:
  fixes a :: "'a::comm_monoid_add"
  shows "foldl (\<lambda>acc x. acc + x) a xs = a + sum_list xs"
  by (induction xs arbitrary: a) (auto simp: add.assoc)

lemma foldl_minus_sum:
  fixes a :: "'a::ab_group_add"
  shows "foldl (\<lambda>acc x. acc - x) a xs = a - sum_list xs"
  by (induction xs arbitrary: a) (auto simp: algebra_simps)

lemma sum_list_pointwise:
  fixes as bs :: "'a::comm_monoid_add list"
  assumes "length as = length bs"
  shows "(\<Sum>i\<leftarrow>[0..<length as]. as ! i + bs ! i) = sum_list as + sum_list bs"
  using assms map_nth [of as] map_nth [of bs] by (simp add: sum_list_addf)

lemma sum_list_nth: "(\<Sum>k\<leftarrow>[0..<length xs]. f (xs ! k)) = (\<Sum>x\<leftarrow>xs. f x)"
proof -
  have "map (\<lambda>k. f (xs ! k)) [0..<length xs] = map f xs"
    by (rule nth_equalityI) simp_all
  then show ?thesis by simp
qed

lemma sum_list_swap:
  fixes f :: "'a \<Rightarrow> 'b \<Rightarrow> 'c::comm_monoid_add"
  shows "(\<Sum>x\<leftarrow>xs. \<Sum>y\<leftarrow>ys. f x y) = (\<Sum>y\<leftarrow>ys. \<Sum>x\<leftarrow>xs. f x y)"
  by (induction xs) (simp_all add: sum_list_addf)

lemma length_without_nth [simp]: "i < length xs \<Longrightarrow> length (without_nth i xs) = length xs - 1"
  by (simp add: without_nth_def)

lemma sum_list_without_nth:
  fixes xs :: "'a::ab_group_add list"
  assumes "i < length xs"
  shows "xs ! i + sum_list (without_nth i xs) = sum_list xs"
proof -
  have "xs = take i xs @ xs ! i # drop (Suc i) xs"
    using assms by (rule id_take_nth_drop)
  then have "sum_list xs = sum_list (take i xs) + (xs ! i + sum_list (drop (Suc i) xs))"
    by (metis sum_list.Cons sum_list_append)
  then show ?thesis by (simp add: without_nth_def algebra_simps)
qed

lemma map_without_nth: "map f (without_nth i xs) = without_nth i (map f xs)"
  by (simp add: without_nth_def take_map drop_map)

lemma nth_without_nth:
  assumes "i < length xs" and "j < length xs - 1"
  shows "without_nth i xs ! j = (if j < i then xs ! j else xs ! Suc j)"
  using assms by (auto simp: without_nth_def nth_append min_def)

lemma unat_plus_one: "w < v \<Longrightarrow> unat (w + 1) = Suc (unat w)" for v w :: "'a::len word"
proof -
  assume "w < v"
  then have "Suc (unat w) \<le> unat v" by (simp add: word_less_nat_alt)
  also have "unat v < 2 ^ LENGTH('a)" by (rule unsigned_less)
  finally show ?thesis by (simp add: unat_word_ariths)
qed

end
