(* ===== verification/Rust_Str.thy ===== *)
theory Rust_Str
  imports Prelude
begin

text \<open>
  The parts of Rust's standard library on strings and integers that the sources use. A Rust
  \<open>String\<close> is modelled by the list of its UTF-8 bytes (a HOL \<open>string\<close>, whose characters are
  bytes), so that \<open>as_bytes\<close> is the identity and \<open>len\<close> is \<open>length\<close>; \<open>Vec<u8>\<close> has the same
  type. Defined here: \<open>to_string\<close> and \<open>parse\<close> of unsigned integers, the validity test of
  \<open>String::from_utf8\<close>, and \<open>str::trim\<close> (Unicode white space).
\<close>

section \<open>Decimal integers\<close>

definition digit_char :: "nat \<Rightarrow> char" where
  "digit_char d = char_of (48 + d)"

fun nat_to_string :: "nat \<Rightarrow> string" where
  "nat_to_string n = (if n < 10 then [digit_char n] else nat_to_string (n div 10) @ [digit_char (n mod 10)])"

declare nat_to_string.simps [simp del]

definition u32_to_string :: "u32 \<Rightarrow> string" where
  "u32_to_string w = nat_to_string (unat w)"

definition digit_val :: "char \<Rightarrow> nat option" where
  "digit_val c = (let n = of_char c :: nat in if 48 \<le> n \<and> n \<le> 57 then Some (n - 48) else None)"

text \<open>The loop of \<open>from_str_radix(10)\<close>: every step checks the digit and the overflow.\<close>

fun parse_digits :: "nat \<Rightarrow> nat \<Rightarrow> string \<Rightarrow> nat option" where
  "parse_digits bound acc [] = Some acc"
| "parse_digits bound acc (c # cs) =
     (case digit_val c of None \<Rightarrow> None
      | Some d \<Rightarrow> (let a = acc * 10 + d in if a < bound then parse_digits bound a cs else None))"

text \<open>Unsigned \<open>parse\<close>: the empty string and a lone sign are errors, a leading \<open>+\<close> is accepted, a
  minus is not a digit.\<close>

definition parse_unsigned :: "nat \<Rightarrow> string \<Rightarrow> nat option" where
  "parse_unsigned bound s =
     (if s = [] \<or> s = ''+'' \<or> s = ''-'' then None
      else parse_digits bound 0 (if hd s = CHR ''+'' then tl s else s))"

definition parse_u32 :: "string \<Rightarrow> u32 option" where
  "parse_u32 s = map_option of_nat (parse_unsigned (2 ^ 32) s)"

definition parse_u16 :: "string \<Rightarrow> u16 option" where
  "parse_u16 s = map_option of_nat (parse_unsigned (2 ^ 16) s)"

lemma digit_val_char [simp]: "d < 10 \<Longrightarrow> digit_val (digit_char d) = Some d"
  by (simp add: digit_val_def digit_char_def of_char_of)

lemma digit_char_not_sign: "d < 10 \<Longrightarrow> digit_char d \<noteq> CHR ''+'' \<and> digit_char d \<noteq> CHR ''-''"
proof -
  assume "d < 10"
  then have "digit_val (digit_char d) = Some d" by simp
  then show ?thesis by (auto simp: digit_val_def split: if_splits)
qed

lemma nat_to_string_nonempty [simp]: "nat_to_string n \<noteq> []"
  by (subst nat_to_string.simps) simp

lemma hd_nat_to_string: "hd (nat_to_string n) \<noteq> CHR ''+'' \<and> hd (nat_to_string n) \<noteq> CHR ''-''"
proof (induction n rule: nat_to_string.induct)
  case (1 n)
  show ?case
  proof (cases "n < 10")
    case True
    then show ?thesis by (subst (1 2) nat_to_string.simps) (simp add: digit_char_not_sign)
  next
    case False
    then show ?thesis using 1 by (subst (1 2) nat_to_string.simps) (simp add: hd_append)
  qed
qed

lemma parse_digits_append:
  "parse_digits bound acc (xs @ ys) =
     (case parse_digits bound acc xs of None \<Rightarrow> None | Some a \<Rightarrow> parse_digits bound a ys)"
  by (induction xs arbitrary: acc) (auto simp: Let_def split: option.splits)

lemma parse_digits_to_string: "n < bound \<Longrightarrow> parse_digits bound 0 (nat_to_string n) = Some n"
proof (induction n rule: nat_to_string.induct)
  case (1 n)
  show ?case
  proof (cases "n < 10")
    case True
    then show ?thesis using 1 by (subst nat_to_string.simps) simp
  next
    case False
    moreover have "n div 10 < bound" using 1 by simp
    ultimately show ?thesis using 1 by (subst nat_to_string.simps) (simp add: parse_digits_append)
  qed
qed

lemma parse_unsigned_to_string: "n < bound \<Longrightarrow> parse_unsigned bound (nat_to_string n) = Some n"
  using hd_nat_to_string [of n] by (auto simp: parse_unsigned_def parse_digits_to_string)

lemma parse_u32_to_string [simp]: "parse_u32 (u32_to_string w) = Some w"
proof -
  have "unat w < 2 ^ 32" by (rule order_less_le_trans [OF unsigned_less]) simp
  then show ?thesis
    by (simp add: parse_u32_def u32_to_string_def parse_unsigned_to_string)
qed

lemma u32_to_string_inject [simp]: "u32_to_string a = u32_to_string b \<longleftrightarrow> a = b"
  by (metis option.inject parse_u32_to_string)

section \<open>UTF-8\<close>

definition in_range :: "nat \<Rightarrow> nat \<Rightarrow> char \<Rightarrow> bool" where
  "in_range lo hi c \<longleftrightarrow> lo \<le> (of_char c :: nat) \<and> (of_char c :: nat) \<le> hi"

abbreviation cont :: "char \<Rightarrow> bool" where
  "cont \<equiv> in_range 128 191"

text \<open>The number of bytes of the well-formed sequence at the head of a list, 0 if there is none.\<close>

fun utf8_width :: "string \<Rightarrow> nat" where
  "utf8_width [] = 0"
| "utf8_width (a # bs) =
     (if in_range 0 127 a then 1
      else if in_range 194 223 a then (case bs of b # _ \<Rightarrow> if cont b then 2 else 0 | _ \<Rightarrow> 0)
      else if in_range 224 239 a then
        (case bs of b # c # _ \<Rightarrow>
           if in_range (if in_range 224 224 a then 160 else 128)
                (if in_range 237 237 a then 159 else 191) b \<and> cont c then 3 else 0
         | _ \<Rightarrow> 0)
      else if in_range 240 244 a then
        (case bs of b # c # d # _ \<Rightarrow>
           if in_range (if in_range 240 240 a then 144 else 128)
                (if in_range 244 244 a then 143 else 191) b \<and> cont c \<and> cont d then 4 else 0
         | _ \<Rightarrow> 0)
      else 0)"

function utf8_valid :: "string \<Rightarrow> bool" where
  "utf8_valid s =
     (if s = [] then True else if utf8_width s = 0 then False
      else utf8_valid (drop (utf8_width s) s))"
  by pat_completeness auto
termination
  by (relation "measure length") (auto simp: length_greater_0_conv)

declare utf8_valid.simps [simp del]

text \<open>\<open>String::from_utf8(v).unwrap_or(String::new())\<close>.\<close>

definition from_utf8_or_empty :: "string \<Rightarrow> string" where
  "from_utf8_or_empty v = (if utf8_valid v then v else [])"

lemma utf8_valid_Nil [simp]: "utf8_valid []"
  by (subst utf8_valid.simps) simp

lemma utf8_valid_ascii: "\<forall>c\<in>set s. in_range 0 127 c \<Longrightarrow> utf8_valid s"
proof (induction s)
  case (Cons c s)
  then have "utf8_width (c # s) = 1" by simp
  then show ?case using Cons by (subst utf8_valid.simps) simp
qed simp

lemma from_utf8_valid [simp]: "utf8_valid (from_utf8_or_empty v)"
  by (simp add: from_utf8_or_empty_def)

section \<open>\<open>trim\<close>\<close>

text \<open>The UTF-8 encodings of the characters of property \<open>White_Space\<close>.\<close>

definition bytes :: "nat list \<Rightarrow> string" where
  "bytes ns = map char_of ns"

definition white_space :: "string list" where
  "white_space =
     map (\<lambda>n. bytes [n]) [9, 10, 11, 12, 13, 32] @
     map bytes [[194, 133], [194, 160], [225, 154, 128], [226, 128, 168], [226, 128, 169],
       [226, 128, 175], [226, 129, 159], [227, 128, 128]] @
     map (\<lambda>n. bytes [226, 128, n]) [128..<139]"

lemma white_space_nonempty: "w \<in> set white_space \<Longrightarrow> w \<noteq> []"
  by (auto simp: white_space_def bytes_def)

definition strip_prefix :: "string list \<Rightarrow> string \<Rightarrow> string option" where
  "strip_prefix ws s = map_option (\<lambda>w. drop (length w) s) (find (\<lambda>w. take (length w) s = w) ws)"

lemma find_SomeD: "find P xs = Some x \<Longrightarrow> x \<in> set xs \<and> P x"
  by (induction xs) (auto split: if_splits)

lemma strip_prefix_less:
  assumes "strip_prefix ws s = Some t" "\<forall>w\<in>set ws. w \<noteq> []"
  shows "length t < length s"
proof -
  obtain w where w: "find (\<lambda>w. take (length w) s = w) ws = Some w" "t = drop (length w) s"
    using assms(1) by (auto simp: strip_prefix_def)
  then have "w \<noteq> []" "take (length w) s = w" using assms(2) by (auto dest: find_SomeD)
  then show ?thesis using w(2) by (cases s) auto
qed

lemma strip_prefix_shorter: "strip_prefix white_space s = Some t \<Longrightarrow> length t < length s"
  by (erule strip_prefix_less) (simp add: white_space_nonempty)

function trim_start :: "string \<Rightarrow> string" where
  "trim_start s = (case strip_prefix white_space s of None \<Rightarrow> s | Some t \<Rightarrow> trim_start t)"
  by pat_completeness auto
termination
  by (relation "measure length") (auto dest: strip_prefix_shorter)

declare trim_start.simps [simp del]

lemma strip_suffix_shorter: "strip_prefix (map rev white_space) s = Some t \<Longrightarrow> length t < length s"
  by (erule strip_prefix_less) (simp add: white_space_nonempty)

function trim_rev :: "string \<Rightarrow> string" where
  "trim_rev s = (case strip_prefix (map rev white_space) s of None \<Rightarrow> s | Some t \<Rightarrow> trim_rev t)"
  by pat_completeness auto
termination
  by (relation "measure length") (auto dest: strip_suffix_shorter)

declare trim_rev.simps [simp del]

definition trim :: "string \<Rightarrow> string" where
  "trim s = rev (trim_rev (rev (trim_start s)))"

end
