(* ===== verification/Node.thy ===== *)
theory Node
  imports Rust_Str "HOL-Library.AList"
begin

text \<open>
  The node of \<open>src/vDexNode/api/src/eosnode.rs\<close> and the table of known nodes that
  \<open>src/vDexNode/api/src/main.rs\<close> keeps from the announcements it receives. The DHT, the HTTP
  client and the message-pack codec are parameters: what \<open>public_addresses\<close> returns at each
  call, the replies of the two address services, and the decoder of announcements. A
  \<open>HashMap\<close> is an association list with distinct keys, in its iteration order.
\<close>

section \<open>Node information\<close>

record eos_info =
  ei_id :: string
  ei_ips :: "string list"
  ei_key :: string
  ei_public_key :: string

text \<open>The command-line options (\<open>struct Opt\<close> of \<open>opt.rs\<close>).\<close>

record opt =
  opt_network :: u32
  opt_eoskey :: string
  opt_bootstrap :: string
  opt_certificate :: string
  opt_privkey :: string
  opt_password :: string
  opt_port :: u16
  opt_bitcoin_cli :: string
  opt_bitcoin_user :: string
  opt_bitcoin_password :: string
  opt_bitcoin_connect :: string
  opt_bitcoin_port :: string

text \<open>What \<open>run_config\<close> is given: the network, whether the node is a bootstrap node, the port.\<close>

record dht_config =
  dc_network :: u32
  dc_is_bootstrap :: bool
  dc_port :: u16

section \<open>The bootstrap address\<close>

text \<open>\<open>rsplitn(2, ":").collect()\<close>: the part after the last colon, then the part before it.\<close>

definition rsplit_colon :: "string \<Rightarrow> string list" where
  "rsplit_colon s =
     (if CHR '':'' \<in> set s
      then let r = rev s; port = rev (takeWhile (\<lambda>c. c \<noteq> CHR '':'') r)
           in [port, take (length s - length port - 1) s]
      else [s])"

definition bootstrap_target :: "string \<Rightarrow> string \<times> u16" where
  "bootstrap_target bootstrap =
     (let service = rsplit_colon bootstrap
      in if length service = 2
         then (service ! 1, case parse_u16 (service ! 0) of Some p \<Rightarrow> p | None \<Rightarrow> 4222)
         else (service ! 0, 4222))"

section \<open>Public addresses\<close>

text \<open>
  The polling loop of \<open>init_ips\<close>; \<open>query k\<close> is the result of the \<open>k\<close>-th call of
  \<open>public_addresses\<close> (the first one is before the loop). The outer \<open>None\<close> is a loop that does
  not return, the inner \<open>None\<close> is the panic after 3000 turns.
\<close>

partial_function (option) init_ips_loop ::
  "(nat \<Rightarrow> string list) \<Rightarrow> nat \<Rightarrow> string list \<Rightarrow> string list option option" where
  "init_ips_loop query idx public_addresses =
     (if public_addresses \<noteq> [] then Some (Some public_addresses)
      else if Suc idx = 3000 \<and> query (Suc idx) = [] then Some None
      else init_ips_loop query (Suc idx) (query (Suc idx)))"

definition init_ips :: "(nat \<Rightarrow> string list) \<Rightarrow> eos_info \<Rightarrow> eos_info option option" where
  "init_ips query info =
     map_option (map_option (\<lambda>ips. info\<lparr>ei_ips := ips\<rparr>)) (init_ips_loop query 0 (query 0))"

text \<open>What \<open>reqwest::get\<close> gives: an error, or a response whose body may fail to arrive.\<close>

datatype http_get = Get_Err | Get_Ok "string option"

definition public_ip :: "(string \<Rightarrow> bool) \<Rightarrow> http_get \<Rightarrow> string list option" where
  "public_ip accept res =
     (case res of Get_Err \<Rightarrow> Some []
      | Get_Ok None \<Rightarrow> None
      | Get_Ok (Some ip) \<Rightarrow> Some (if accept ip then [ip] else []))"

definition get_public_ips :: "http_get \<Rightarrow> http_get \<Rightarrow> eos_info \<Rightarrow> eos_info option" where
  "get_public_ips ipv4 ipv6 info =
     do {
       v4 \<leftarrow> public_ip (\<lambda>ip. ip \<noteq> []) ipv4;
       v6 \<leftarrow> public_ip (\<lambda>ip. ip \<noteq> [] \<and> CHR ''.'' \<notin> set ip) ipv6;
       let addresses = v4 @ v6;
       if addresses = [] then None else Some (info\<lparr>ei_ips := addresses\<rparr>)
     }"

text \<open>
  \<open>EosNode::new\<close>: the certificate and the key must load; the node joins through the bootstrap
  address if there is one, and learns its public addresses from the DHT or from the services.
  \<open>import_cert\<close> and \<open>import_key\<close> say whether the files load. The result is the configuration
  of the DHT, the address it bootstraps to, if any, and the node's information.
\<close>

definition eosnode_new ::
  "(string \<Rightarrow> bool) \<Rightarrow> (string \<Rightarrow> string \<Rightarrow> bool) \<Rightarrow> opt \<Rightarrow> string \<Rightarrow> string \<Rightarrow>
   (nat \<Rightarrow> string list) \<Rightarrow> http_get \<Rightarrow> http_get \<Rightarrow>
   (dht_config \<times> (string \<times> u16) option \<times> eos_info) option option" where
  "eosnode_new import_cert import_key opt node_id public_key query ipv4 ipv6 =
     (if \<not> import_cert (opt_certificate opt) then Some None
      else if \<not> import_key (opt_privkey opt) (opt_password opt) then Some None
      else let config = \<lparr>dc_network = opt_network opt, dc_is_bootstrap = (opt_bootstrap opt = []),
                 dc_port = opt_port opt\<rparr>;
               target = (if opt_bootstrap opt \<noteq> [] then Some (bootstrap_target (opt_bootstrap opt)) else None);
               info = \<lparr>ei_id = node_id, ei_ips = [], ei_key = opt_eoskey opt, ei_public_key = public_key\<rparr>
           in map_option (map_option (\<lambda>info. (config, target, info)))
                (if opt_bootstrap opt \<noteq> [] then init_ips query info
                 else Some (get_public_ips ipv4 ipv6 info)))"

section \<open>The table of known nodes\<close>

type_synonym node_table = "(string \<times> eos_info) list"

text \<open>The callback of \<open>main\<close> for a value found under the hash of \<open>eos\<close>: \<open>decode\<close> is the
  message-pack decoder; a value it rejects is ignored.\<close>

definition value_cb ::
  "(string \<Rightarrow> eos_info option) \<Rightarrow> string \<times> bool \<Rightarrow> node_table \<Rightarrow> node_table" where
  "value_cb decode v nodes =
     (case decode (fst v) of None \<Rightarrow> nodes
      | Some node \<Rightarrow>
          if snd v then AList.delete (ei_id node) nodes
          else AList.update (ei_id node) node nodes)"

definition observe ::
  "(string \<Rightarrow> eos_info option) \<Rightarrow> (string \<times> bool) list \<Rightarrow> node_table" where
  "observe decode vs = fold (value_cb decode) vs []"

section \<open>Lemmas\<close>

lemma rsplit_colon_append:
  assumes "CHR '':'' \<notin> set port"
  shows "rsplit_colon (host @ '':'' @ port) = [port, host]"
proof -
  have "takeWhile (\<lambda>c. c \<noteq> CHR '':'') (rev (host @ '':'' @ port)) = rev port"
    using assms by (simp add: takeWhile_append takeWhile_eq_all_conv)
  then show ?thesis by (simp add: rsplit_colon_def Let_def)
qed

lemma digit_char_no_colon: "d < 10 \<Longrightarrow> digit_char d \<noteq> CHR '':''"
proof -
  assume "d < 10"
  then have "digit_val (digit_char d) = Some d" by simp
  then show ?thesis by (auto simp: digit_val_def split: if_splits)
qed

lemma nat_to_string_no_colon: "CHR '':'' \<notin> set (nat_to_string n)"
proof (induction n rule: nat_to_string.induct)
  case (1 n)
  show ?case
  proof (cases "n < 10")
    case True
    then show ?thesis using digit_char_no_colon [of n] by (subst nat_to_string.simps) auto
  next
    case False
    then show ?thesis using 1 digit_char_no_colon [of "n mod 10"] by (subst nat_to_string.simps) auto
  qed
qed

text \<open>C37: The bootstrap option is read as intended: an address written \<open>host:port\<close> gives that host
  and that port, also when the host contains colons (an IPv6 address), and an option without a
  colon is a host with the default port 4222.\<close>

theorem bootstrap_target_correct:
  "bootstrap_target (host @ '':'' @ nat_to_string (unat p)) = (host, p) \<and>
   (CHR '':'' \<in> set h \<or> bootstrap_target h = (h, 4222))"
proof -
  have "unat p < 2 ^ 16" by (rule order_less_le_trans [OF unsigned_less]) simp
  then have "parse_u16 (nat_to_string (unat p)) = Some p"
    by (simp add: parse_u16_def parse_unsigned_to_string)
  then have "bootstrap_target (host @ '':'' @ nat_to_string (unat p)) = (host, p)"
    unfolding bootstrap_target_def rsplit_colon_append [OF nat_to_string_no_colon] by simp
  moreover have "CHR '':'' \<notin> set h \<Longrightarrow> bootstrap_target h = (h, 4222)"
    by (simp add: bootstrap_target_def rsplit_colon_def)
  ultimately show ?thesis by blast
qed

lemma init_ips_loop_steps:
  assumes "\<forall>j\<le>k. query (i + j) = []" "i + k < 3000"
  shows "init_ips_loop query i (query i) = init_ips_loop query (i + k) (query (i + k))"
  using assms
proof (induction k)
  case (Suc k)
  then have "init_ips_loop query i (query i) = init_ips_loop query (i + k) (query (i + k))"
    by simp
  also have "\<dots> = init_ips_loop query (i + Suc k) (query (i + Suc k))"
    using Suc.prems by (subst init_ips_loop.simps) simp
  finally show ?case .
qed simp

text \<open>C36: \<open>init_ips\<close> always returns or panics, it never polls forever: it stores the first non-empty
  answer among the first 3001 queries, and panics exactly when all 3001 are empty.\<close>

theorem init_ips_outcome:
  "init_ips query info =
     Some (case find (\<lambda>k. query k \<noteq> []) [0..<3001] of
             Some k \<Rightarrow> Some (info\<lparr>ei_ips := query k\<rparr>) | None \<Rightarrow> None)"
proof (cases "find (\<lambda>k. query k \<noteq> []) [0..<3001]")
  case None
  then have empty: "query k = []" if "k \<le> 3000" for k
    using that by (auto simp: find_None_iff)
  have "init_ips_loop query 0 (query 0) = init_ips_loop query 2999 (query 2999)"
    using init_ips_loop_steps [of 2999 query 0] empty by simp
  also have "\<dots> = Some None"
    using empty [of 3000] empty [of 2999] by (subst init_ips_loop.simps) simp
  finally show ?thesis using None by (simp add: init_ips_def)
next
  case (Some k)
  then have k: "k < 3001" "query k \<noteq> []"
    by (auto simp: find_Some_iff simp del: upt_Suc)
  from Some have first: "query j = []" if "j < k" for j
    using that by (auto simp: find_Some_iff simp del: upt_Suc)
  show ?thesis
  proof (cases k)
    case 0
    then have "init_ips_loop query 0 (query 0) = Some (Some (query 0))"
      using k by (subst init_ips_loop.simps) simp
    then show ?thesis using Some 0 by (simp add: init_ips_def)
  next
    case (Suc j)
    then have "init_ips_loop query 0 (query 0) = init_ips_loop query j (query j)"
      using init_ips_loop_steps [of j query 0] first k by simp
    also have "\<dots> = init_ips_loop query k (query k)"
      using Suc first [of j] k by (subst init_ips_loop.simps) simp
    also have "\<dots> = Some (Some (query k))"
      using k by (subst init_ips_loop.simps) simp
    finally show ?thesis using Some by (simp add: init_ips_def)
  qed
qed

text \<open>The last announcement of an identifier, if it is not an expiry.\<close>

fun last_announced :: "(string \<Rightarrow> eos_info option) \<Rightarrow> (string \<times> bool) list \<Rightarrow> string \<Rightarrow> eos_info option" where
  "last_announced decode [] i = None"
| "last_announced decode (v # vs) i =
     (case decode (fst v) of
        Some node \<Rightarrow> if ei_id node = i then (if snd v then None else Some node)
                   else last_announced decode vs i
      | None \<Rightarrow> last_announced decode vs i)"

lemma observe_snoc: "observe decode (vs @ [v]) = value_cb decode v (observe decode vs)"
  by (simp add: observe_def)

lemma map_of_value_cb:
  "map_of (value_cb decode v nodes) i =
     (case decode (fst v) of
        Some node \<Rightarrow> if ei_id node = i then (if snd v then None else Some node) else map_of nodes i
      | None \<Rightarrow> map_of nodes i)"
  by (auto simp: value_cb_def update_conv' delete_conv' split: option.splits)

lemma distinct_value_cb:
  "distinct (map fst nodes) \<Longrightarrow> distinct (map fst (value_cb decode v nodes))"
  by (auto simp: value_cb_def distinct_update distinct_delete split: option.splits)

lemma set_alist_update: "p \<in> set (AList.update k n xs) \<Longrightarrow> p = (k, n) \<or> p \<in> set xs"
  by (induction xs) (auto split: if_splits)

lemma own_key_value_cb:
  assumes "list_all (\<lambda>(k, n). ei_id n = k) nodes"
  shows "list_all (\<lambda>(k, n). ei_id n = k) (value_cb decode v nodes)"
  using assms
  by (fastforce simp: value_cb_def list_all_iff AList.delete_eq dest: set_alist_update
      split: option.splits)

lemma map_of_observe: "map_of (observe decode vs) i = last_announced decode (rev vs) i"
proof (induction vs rule: rev_induct)
  case Nil
  show ?case by (simp add: observe_def)
qed (simp add: observe_snoc map_of_value_cb split: option.splits)

lemma distinct_observe: "distinct (map fst (observe decode vs))"
proof (induction vs rule: rev_induct)
  case Nil
  show ?case by (simp add: observe_def)
qed (simp add: observe_snoc distinct_value_cb)

lemma own_key_observe: "list_all (\<lambda>(k, n). ei_id n = k) (observe decode vs)"
proof (induction vs rule: rev_induct)
  case Nil
  show ?case by (simp add: observe_def)
qed (simp add: observe_snoc own_key_value_cb)

text \<open>C34: The table of known nodes is exact: after any sequence of announcements and expiries an
  identifier is mapped to the information of the last event about it if that was an announcement,
  and is absent if it was an expiry or there was none; the keys are distinct and every node is
  stored under its own identifier.\<close>

theorem node_table_exact:
  "map_of (observe decode vs) i = last_announced decode (rev vs) i \<and>
   distinct (map fst (observe decode vs)) \<and>
   list_all (\<lambda>(k, n). ei_id n = k) (observe decode vs)"
  by (simp add: map_of_observe distinct_observe own_key_observe)

end
