(* ===== verification/Bitcoin.thy ===== *)
theory Bitcoin
  imports Rust_Str
begin

text \<open>
  The wrapper of \<open>src/vDexNode/api/src/bitcoin.rs\<close> around \<open>bitcoin-cli\<close>: every operation runs
  one command and turns what it printed into a map for the JSON reply. Running a process and
  parsing JSON are parameters.
\<close>

section \<open>Commands\<close>

record bitcoin =
  app :: string
  rpcuser :: string
  rpcpassword :: string
  rpcport :: string
  rpcconnect :: string

record multi_sig =
  ms_address :: string
  ms_redeem_script :: string

text \<open>What \<open>Command::output\<close> gives: the command cannot be started (with the text of the error), or
  it ends with a status (its success, its text) and its standard output.\<close>

datatype command_result =
    Not_Started string
  | Ended bool string string

type_synonym runner = "string \<Rightarrow> string list \<Rightarrow> command_result"
type_synonym reply = "string \<rightharpoonup> string"

definition trimmed_output :: "string \<Rightarrow> string" where
  "trimmed_output to_trim = trim (from_utf8_or_empty to_trim)"

definition exec_command :: "bitcoin \<Rightarrow> runner \<Rightarrow> string \<Rightarrow> string list \<Rightarrow> string + string" where
  "exec_command b run cmd args =
     (case run (app b)
        ([''-rpcconnect='' @ rpcconnect b, ''-regtest'', ''-rpcuser='' @ rpcuser b,
          ''-rpcpassword='' @ rpcpassword b, ''-rpcport='' @ rpcport b, cmd] @ args) of
        Not_Started e \<Rightarrow> Inl e
      | Ended success status stdout \<Rightarrow>
          if \<not> success then Inl status else Inr (trimmed_output stdout))"

section \<open>Operations\<close>

definition getaddr :: "bitcoin \<Rightarrow> runner \<Rightarrow> reply" where
  "getaddr b run =
     (case exec_command b run ''getnewaddress'' [] of
        Inr address \<Rightarrow>
          if address = [] then [''err'' \<mapsto> ''No address generated by bitcoind'']
          else [''address'' \<mapsto> address]
      | Inl e \<Rightarrow> [''err'' \<mapsto> e])"

definition dumpprivkey :: "bitcoin \<Rightarrow> runner \<Rightarrow> string \<Rightarrow> reply" where
  "dumpprivkey b run addr =
     (case exec_command b run ''dumpprivkey'' [addr] of
        Inr privkey \<Rightarrow>
          if privkey = [] then [''err'' \<mapsto> ''No privkey retrieven by bitcoind'']
          else [''privkey'' \<mapsto> privkey]
      | Inl e \<Rightarrow> [''err'' \<mapsto> e])"

definition balance :: "bitcoin \<Rightarrow> runner \<Rightarrow> reply" where
  "balance b run =
     (case exec_command b run ''getbalance'' [] of
        Inr balance \<Rightarrow>
          if balance = [] then [''err'' \<mapsto> ''No balance generated by bitcoind'']
          else [''balance'' \<mapsto> balance]
      | Inl e \<Rightarrow> [''err'' \<mapsto> e])"

text \<open>The loop that renders the keys as a JSON array, with its counter.\<close>

fun keys_loop :: "nat \<Rightarrow> nat \<Rightarrow> string \<Rightarrow> string list \<Rightarrow> string" where
  "keys_loop len idx keys_str [] = keys_str"
| "keys_loop len idx keys_str (key # keys) =
     (let idx = Suc idx; keys_str = keys_str @ ''\"'' @ key @ ''\"'';
          keys_str = (if idx \<noteq> len then keys_str @ '', '' else keys_str)
      in keys_loop len idx keys_str keys)"

definition keys_json :: "string list \<Rightarrow> string" where
  "keys_json keys = keys_loop (length keys) 0 ''['' keys @ '']''"

text \<open>The message with its apostrophe (byte 39).\<close>

definition cannot_parse :: string where
  "cannot_parse = ''Can'' @ char_of (39::nat) # ''t parse multisig result''"

text \<open>The reply of both multi-signature commands; \<open>parse\<close> is \<open>serde_json::from_str\<close>.\<close>

definition multisig_reply :: "(string \<Rightarrow> multi_sig option) \<Rightarrow> string + string \<Rightarrow> reply" where
  "multisig_reply parse res =
     (case res of
        Inr output \<Rightarrow>
          if output = [] then [''err'' \<mapsto> ''No multisig address generated by bitcoind'']
          else let ms = (case parse output of Some ms \<Rightarrow> ms
                         | None \<Rightarrow> \<lparr>ms_address = [], ms_redeem_script = []\<rparr>)
               in if ms_address ms \<noteq> []
                  then [''address'' \<mapsto> ms_address ms, ''redeemScript'' \<mapsto> ms_redeem_script ms]
                  else [''err'' \<mapsto> cannot_parse]
      | Inl e \<Rightarrow> [''err'' \<mapsto> e])"

definition createmultisig ::
  "(string \<Rightarrow> multi_sig option) \<Rightarrow> bitcoin \<Rightarrow> runner \<Rightarrow> u32 \<Rightarrow> string list \<Rightarrow> reply" where
  "createmultisig parse b run n keys =
     multisig_reply parse (exec_command b run ''createmultisig'' [u32_to_string n, keys_json keys])"

definition addmultisigaddress ::
  "(string \<Rightarrow> multi_sig option) \<Rightarrow> bitcoin \<Rightarrow> runner \<Rightarrow> u32 \<Rightarrow> string list \<Rightarrow> reply" where
  "addmultisigaddress parse b run n keys =
     multisig_reply parse (exec_command b run ''addmultisigaddress'' [u32_to_string n, keys_json keys])"

definition gettransaction :: "bitcoin \<Rightarrow> runner \<Rightarrow> string \<Rightarrow> reply" where
  "gettransaction b run txid =
     (case exec_command b run ''gettransaction'' [txid] of
        Inr details \<Rightarrow>
          if details = [] then [''err'' \<mapsto> ''No details retrieven by bitcoind'']
          else [''details'' \<mapsto> details]
      | Inl e \<Rightarrow> [''err'' \<mapsto> e])"

definition sendtoaddress :: "bitcoin \<Rightarrow> runner \<Rightarrow> string \<Rightarrow> string \<Rightarrow> reply" where
  "sendtoaddress b run bitcoinaddress amount =
     (case exec_command b run ''sendtoaddress'' [bitcoinaddress, amount] of
        Inr signed_tx \<Rightarrow>
          if signed_tx = [] then [''err'' \<mapsto> ''No signed transation retrieven by bitcoind'']
          else [''signed'' \<mapsto> signed_tx]
      | Inl e \<Rightarrow> [''err'' \<mapsto> e])"

definition signmessage :: "bitcoin \<Rightarrow> runner \<Rightarrow> string \<Rightarrow> string \<Rightarrow> reply" where
  "signmessage b run bitcoinaddress message =
     (case exec_command b run ''signmessage'' [bitcoinaddress, message] of
        Inr txid \<Rightarrow>
          if txid = [] then [''err'' \<mapsto> ''No transaction id transation retrieven by bitcoind'']
          else [''txid'' \<mapsto> txid]
      | Inl e \<Rightarrow> [''err'' \<mapsto> e])"

section \<open>The shared contract\<close>

definition rpc_args :: "bitcoin \<Rightarrow> string \<Rightarrow> string list \<Rightarrow> string list" where
  "rpc_args b cmd args =
     [''-rpcconnect='' @ rpcconnect b, ''-regtest'', ''-rpcuser='' @ rpcuser b,
      ''-rpcpassword='' @ rpcpassword b, ''-rpcport='' @ rpcport b, cmd] @ args"

lemma exec_command_Inr:
  "exec_command b run cmd args = Inr v \<longleftrightarrow>
     (\<exists>status stdout. run (app b) (rpc_args b cmd args) = Ended True status stdout \<and>
        v = trimmed_output stdout)"
  by (auto simp: exec_command_def rpc_args_def split: command_result.splits if_splits)

text \<open>A method that runs one command and answers with its output under one key.\<close>

locale rpc_method =
  fixes call :: "bitcoin \<Rightarrow> runner \<Rightarrow> reply"
    and cmd :: string
    and args :: "string list"
    and key :: string
  assumes key_not_err: "key \<noteq> ''err''"
    and call_failed: "exec_command b run cmd args = Inl e \<Longrightarrow> call b run = [''err'' \<mapsto> e]"
    and call_empty: "exec_command b run cmd args = Inr [] \<Longrightarrow> dom (call b run) = {''err''}"
    and call_ok: "exec_command b run cmd args = Inr v \<Longrightarrow> v \<noteq> [] \<Longrightarrow> call b run = [key \<mapsto> v]"
begin

lemma one_answer: "dom (call b run) = {key} \<or> dom (call b run) = {''err''}"
proof (cases "exec_command b run cmd args")
  case (Inl e)
  then show ?thesis by (simp add: call_failed)
next
  case (Inr v)
  then show ?thesis using call_empty [of b run] call_ok [of b run v] by (cases "v = []") auto
qed

lemma answer_iff:
  "call b run key = Some v \<longleftrightarrow> exec_command b run cmd args = Inr v \<and> v \<noteq> []"
proof (cases "exec_command b run cmd args")
  case (Inl e)
  then show ?thesis using key_not_err by (simp add: call_failed)
next
  case (Inr w)
  then show ?thesis
    using call_empty [of b run] call_ok [of b run w] key_not_err by (cases "w = []") (auto simp: dom_def)
qed

lemma contract:
  "(call b run key = Some v \<longleftrightarrow>
      (\<exists>status stdout. run (app b) (rpc_args b cmd args) = Ended True status stdout \<and>
         v = trimmed_output stdout \<and> v \<noteq> [])) \<and>
   (dom (call b run) = {key} \<or> dom (call b run) = {''err''})"
  using one_answer by (auto simp: answer_iff exec_command_Inr)

end

interpretation getaddr: rpc_method getaddr "''getnewaddress''" "[]" "''address''"
  by unfold_locales (simp_all add: getaddr_def)

interpretation dumpprivkey: rpc_method "\<lambda>b run. dumpprivkey b run addr"
  "''dumpprivkey''" "[addr]" "''privkey''" for addr
  by unfold_locales (simp_all add: dumpprivkey_def)

interpretation balance: rpc_method balance "''getbalance''" "[]" "''balance''"
  by unfold_locales (simp_all add: balance_def)

interpretation gettransaction: rpc_method "\<lambda>b run. gettransaction b run txid"
  "''gettransaction''" "[txid]" "''details''" for txid
  by unfold_locales (simp_all add: gettransaction_def)

interpretation sendtoaddress: rpc_method "\<lambda>b run. sendtoaddress b run to amount"
  "''sendtoaddress''" "[to, amount]" "''signed''" for to amount
  by unfold_locales (simp_all add: sendtoaddress_def)

interpretation signmessage: rpc_method "\<lambda>b run. signmessage b run bitcoinaddress message"
  "''signmessage''" "[bitcoinaddress, message]" "''txid''" for bitcoinaddress message
  by unfold_locales (simp_all add: signmessage_def)

text \<open>The two multi-signature commands share their reply, which has two keys.\<close>

lemma multisig_reply_answer:
  "multisig_reply parse res ''address'' = Some a \<and> multisig_reply parse res ''redeemScript'' = Some script \<longleftrightarrow>
     (\<exists>out. res = Inr out \<and> out \<noteq> [] \<and> a \<noteq> [] \<and>
        parse out = Some \<lparr>ms_address = a, ms_redeem_script = script\<rparr>)"
proof (cases res)
  case (Inr out)
  show ?thesis
  proof (cases "parse out")
    case (Some ms)
    then show ?thesis using Inr by (cases ms) (auto simp: multisig_reply_def Let_def split: if_splits)
  qed (use Inr in \<open>auto simp: multisig_reply_def Let_def\<close>)
qed (simp add: multisig_reply_def)

lemma multisig_reply_keys:
  "dom (multisig_reply parse res) = {''address'', ''redeemScript''} \<or> dom (multisig_reply parse res) = {''err''}"
proof (cases res)
  case (Inr out)
  then show ?thesis by (cases "parse out") (auto simp: multisig_reply_def Let_def)
qed (simp add: multisig_reply_def)

lemma multisig_contract:
  "((multisig_reply parse (exec_command b run cmd args) ''address'' = Some a \<and>
       multisig_reply parse (exec_command b run cmd args) ''redeemScript'' = Some script) \<longleftrightarrow>
      (\<exists>status stdout. run (app b) (rpc_args b cmd args) = Ended True status stdout \<and>
         trimmed_output stdout \<noteq> [] \<and> a \<noteq> [] \<and>
         parse (trimmed_output stdout) = Some \<lparr>ms_address = a, ms_redeem_script = script\<rparr>)) \<and>
   (dom (multisig_reply parse (exec_command b run cmd args)) = {''address'', ''redeemScript''} \<or>
    dom (multisig_reply parse (exec_command b run cmd args)) = {''err''})"
  unfolding multisig_reply_answer exec_command_Inr
  using multisig_reply_keys [of parse "exec_command b run cmd args"] by (auto intro: exI)

text \<open>C38: Each of the eight wallet operations runs exactly its one command, with the caller's strings as
  separate arguments. Six of them answer with exactly one key: the trimmed, non-empty output of the
  command under the key of the operation when the command ended with success, and \<open>err\<close> in every
  other case. The two multi-signature operations answer with the two fields of the JSON object that
  the command wrote when it ended with success and the address is not empty, and otherwise with
  exactly one \<open>err\<close>.\<close>

theorem bitcoin_reply_contract:
  "list_all (\<lambda>(cmd, args, key, reply).
      (reply key = Some v \<longleftrightarrow>
        (\<exists>status stdout. run (app b) (rpc_args b cmd args) = Ended True status stdout \<and>
           v = trimmed_output stdout \<and> v \<noteq> [])) \<and>
      (dom reply = {key} \<or> dom reply = {''err''}))
    [(''getnewaddress'', [], ''address'', getaddr b run),
     (''dumpprivkey'', [addr], ''privkey'', dumpprivkey b run addr),
     (''getbalance'', [], ''balance'', balance b run),
     (''gettransaction'', [txid], ''details'', gettransaction b run txid),
     (''sendtoaddress'', [addr, amount], ''signed'', sendtoaddress b run addr amount),
     (''signmessage'', [addr, message], ''txid'', signmessage b run addr message)] \<and>
   list_all (\<lambda>(cmd, reply).
      ((reply ''address'' = Some a \<and> reply ''redeemScript'' = Some script) \<longleftrightarrow>
        (\<exists>status stdout. run (app b) (rpc_args b cmd [u32_to_string m, keys_json keys]) = Ended True status stdout \<and>
           trimmed_output stdout \<noteq> [] \<and> a \<noteq> [] \<and>
           parse (trimmed_output stdout) = Some \<lparr>ms_address = a, ms_redeem_script = script\<rparr>)) \<and>
      (dom reply = {''address'', ''redeemScript''} \<or> dom reply = {''err''}))
    [(''createmultisig'', createmultisig parse b run m keys),
     (''addmultisigaddress'', addmultisigaddress parse b run m keys)]"
  using getaddr.contract [of b run v] dumpprivkey.contract [of b run addr v]
    balance.contract [of b run v] gettransaction.contract [of b run txid v]
    sendtoaddress.contract [of b run addr amount v] signmessage.contract [of b run addr message v]
    multisig_contract [of parse b run _ "[u32_to_string m, keys_json keys]" a script]
  by (simp only: list.pred_inject prod.case simp_thms createmultisig_def addmultisigaddress_def)

section \<open>The key array\<close>

text \<open>What follows the first key.\<close>

definition keys_tail :: "string list \<Rightarrow> string" where
  "keys_tail keys = concat (map (\<lambda>k. '', \"'' @ k @ ''\"'') keys) @ '']''"

lemma keys_loop_eq:
  "len = idx + length keys \<Longrightarrow> keys_loop len idx acc keys @ '']'' =
     acc @ (case keys of [] \<Rightarrow> '']'' | k # ks \<Rightarrow> ''\"'' @ k @ ''\"'' @ keys_tail ks)"
  by (induction keys arbitrary: idx acc) (auto simp: keys_tail_def Let_def split: list.splits)

lemma keys_json_eq:
  "keys_json [] = ''[]''"
  "keys_json (k # ks) = ''[\"'' @ k @ ''\"'' @ keys_tail ks"
  using keys_loop_eq [of 0 0 "[]" "''[''"] keys_loop_eq [of "Suc (length ks)" 0 "k # ks" "''[''"]
  by (simp_all add: keys_json_def del: keys_loop.simps)

lemma append_stop_inject:
  "a \<notin> set xs \<Longrightarrow> a \<notin> set ys \<Longrightarrow> xs @ a # us = ys @ a # vs \<longleftrightarrow> xs = ys \<and> us = vs"
proof (induction xs arbitrary: ys)
  case Nil
  then show ?case by (cases ys) auto
next
  case (Cons x xs)
  then show ?case by (cases ys) auto
qed

lemma keys_tail_inject:
  assumes "list_all (\<lambda>k. CHR 0x22 \<notin> set k) ks" "list_all (\<lambda>k. CHR 0x22 \<notin> set k) ks'"
  shows "keys_tail ks = keys_tail ks' \<longleftrightarrow> ks = ks'"
  using assms
proof (induction ks arbitrary: ks')
  case Nil
  then show ?case by (cases ks') (auto simp: keys_tail_def)
next
  case (Cons k ks)
  then show ?case by (cases ks') (auto simp: keys_tail_def append_stop_inject)
qed

text \<open>The rendering of a key list as the JSON argument of the multi-signature commands loses
  nothing as long as no key contains a double quote: different lists give different arguments.\<close>

theorem keys_json_inject:
  assumes "list_all (\<lambda>k. CHR 0x22 \<notin> set k) ks" "list_all (\<lambda>k. CHR 0x22 \<notin> set k) ks'"
  shows "keys_json ks = keys_json ks' \<longleftrightarrow> ks = ks'"
  using assms
  by (cases ks; cases ks') (auto simp: keys_json_eq append_stop_inject keys_tail_inject)

theorem keys_json_inject_witness:
  "keys_json [''a'', ''b''] \<noteq> keys_json [''a'', ''c'']"
  using keys_json_inject [of "[''a'', ''b'']" "[''a'', ''c'']"] by simp

lemma keys_tail_append: "keys_tail (ks @ ks') = concat (map (\<lambda>k. '', \"'' @ k @ ''\"'') ks) @ keys_tail ks'"
  by (simp add: keys_tail_def)

text \<open>C39: Keys are not escaped: one key that contains \<open>", "\<close> makes the same command as the two keys
  around it, so a request with \<open>m\<close> keys can create an address over more than \<open>m\<close> keys.\<close>

theorem multisig_key_injection:
  "createmultisig parse b run n (ks @ [k @ ''\", \"'' @ k'] @ ks') =
     createmultisig parse b run n (ks @ [k, k'] @ ks') \<and>
   addmultisigaddress parse b run n (ks @ [k @ ''\", \"'' @ k'] @ ks') =
     addmultisigaddress parse b run n (ks @ [k, k'] @ ks')"
proof -
  have "keys_json (ks @ [k @ ''\", \"'' @ k'] @ ks') = keys_json (ks @ [k, k'] @ ks')"
    by (cases ks) (simp_all add: keys_json_eq keys_tail_append, simp_all add: keys_tail_def)
  then show ?thesis by (simp add: createmultisig_def addmultisigaddress_def)
qed

end
