(* ===== verification/Handler.thy ===== *)
theory Handler
  imports Node Bitcoin
begin

text \<open>
  The handler of \<open>src/vDexNode/api/src/handler.rs\<close> that the HTTP endpoints share behind a mutex.
  Its state also holds what the other mutexes protect (the node, the node table, the list of
  chat events) and, for every mutex, whether a panic has poisoned it: after that each
  \<open>lock().unwrap()\<close> panics. An operation maps the state to a result (\<open>None\<close> is a panic) and
  the next state. The DHT is a parameter (\<open>dht_lib\<close>).
\<close>

section \<open>State\<close>

datatype chat_event = Join u64 string nat | Leave u64 string

text \<open>The last argument of \<open>Join\<close> names the shared message buffer of the reader.\<close>

record 'd api_state =
  dht :: 'd
  node_info :: eos_info
  nodes :: node_table
  chat_events :: "chat_event list"
  chat_readers_idx :: u64
  next_buffer :: nat
  api_bitcoin :: bitcoin
  handler_poisoned :: bool
  eosnode_poisoned :: bool
  nodes_poisoned :: bool
  events_poisoned :: bool

text \<open>
  The operations of \<open>opendht\<close>: \<open>d_get\<close> is the list of the values for which the \<open>get\<close>
  callback is called, in that order, before the \<open>done\<close> callback; the hashes are
  \<open>InfoHash::from_bytes\<close>, \<open>InfoHash::get\<close> and \<open>InfoHash::from_hex\<close>. A value is a byte
  string.
\<close>

record ('d, 'h) dht_lib =
  put_signed :: "'d \<Rightarrow> 'h \<Rightarrow> string \<Rightarrow> bool \<Rightarrow> 'd"
  put_encrypted :: "'d \<Rightarrow> 'h \<Rightarrow> 'h \<Rightarrow> string \<Rightarrow> bool \<Rightarrow> 'd"
  d_get :: "'d \<Rightarrow> 'h \<Rightarrow> string list"
  hash_from_bytes :: "string \<Rightarrow> 'h"
  hash_get :: "string \<Rightarrow> 'h"
  hash_from_hex :: "string \<Rightarrow> 'h"

text \<open>The wallet that \<open>main\<close> builds from the options.\<close>

definition main_bitcoin :: "opt \<Rightarrow> bitcoin" where
  "main_bitcoin opt = \<lparr>app = opt_bitcoin_cli opt, rpcuser = opt_bitcoin_user opt,
     rpcpassword = opt_bitcoin_password opt, rpcport = opt_bitcoin_port opt,
     rpcconnect = opt_bitcoin_connect opt\<rparr>"

text \<open>\<open>EosNode::announce\<close>: a permanent, signed put of the node's information under the hash of
  \<open>eos\<close>; \<open>encode\<close> is the message-pack serialisation, which the code unwraps.\<close>

definition announce ::
  "('d, 'h) dht_lib \<Rightarrow> (eos_info \<Rightarrow> string option) \<Rightarrow> eos_info \<Rightarrow> 'd \<Rightarrow> 'd option" where
  "announce L encode info d =
     (case encode info of None \<Rightarrow> None
      | Some buf \<Rightarrow> Some (put_signed L d (hash_get L ''eos'') buf True))"

section \<open>Sequencing and locks\<close>

type_synonym ('s, 'a) act = "'s \<Rightarrow> 'a option \<times> 's"

definition done_with :: "'a \<Rightarrow> ('s, 'a) act" where
  "done_with a s = (Some a, s)"

definition panic :: "('s, 'a) act" where
  "panic s = (None, s)"

definition and_then :: "('s, 'a) act \<Rightarrow> ('a \<Rightarrow> ('s, 'b) act) \<Rightarrow> ('s, 'b) act" where
  "and_then m k s = (case m s of (None, s') \<Rightarrow> (None, s') | (Some a, s') \<Rightarrow> k a s')"

definition unwrap :: "'a option \<Rightarrow> ('s, 'a) act" where
  "unwrap x = (case x of None \<Rightarrow> panic | Some a \<Rightarrow> done_with a)"

text \<open>\<open>handler.lock().unwrap()\<close> held over the body of an endpoint: a panic inside poisons it.\<close>

definition with_handler :: "('d api_state, 'a) act \<Rightarrow> ('d api_state, 'a) act" where
  "with_handler body s =
     (if handler_poisoned s then (None, s)
      else case body s of
        (None, s') \<Rightarrow> (None, s'\<lparr>handler_poisoned := True\<rparr>)
      | (Some a, s') \<Rightarrow> (Some a, s'))"

definition with_eosnode :: "('d api_state, 'a) act \<Rightarrow> ('d api_state, 'a) act" where
  "with_eosnode body s =
     (if eosnode_poisoned s then (None, s)
      else case body s of
        (None, s') \<Rightarrow> (None, s'\<lparr>eosnode_poisoned := True\<rparr>)
      | (Some a, s') \<Rightarrow> (Some a, s'))"

definition with_nodes :: "('d api_state, 'a) act \<Rightarrow> ('d api_state, 'a) act" where
  "with_nodes body s =
     (if nodes_poisoned s then (None, s)
      else case body s of
        (None, s') \<Rightarrow> (None, s'\<lparr>nodes_poisoned := True\<rparr>)
      | (Some a, s') \<Rightarrow> (Some a, s'))"

definition with_events :: "('d api_state, 'a) act \<Rightarrow> ('d api_state, 'a) act" where
  "with_events body s =
     (if events_poisoned s then (None, s)
      else case body s of
        (None, s') \<Rightarrow> (None, s'\<lparr>events_poisoned := True\<rparr>)
      | (Some a, s') \<Rightarrow> (Some a, s'))"

section \<open>\<open>impl Handler\<close>\<close>

text \<open>The loops over the node table run with the locks of the node and of the table held.\<close>

definition get_connected_nodes :: "('d api_state, (string \<rightharpoonup> string)) act" where
  "get_connected_nodes =
     with_eosnode (with_nodes (\<lambda>s.
       (Some (foldl (\<lambda>result (id, node). result(id \<mapsto> ei_key node)) Map.empty (nodes s)), s)))"

fun connected_ips_loop :: "node_table \<Rightarrow> (string \<rightharpoonup> string) \<Rightarrow> (string \<rightharpoonup> string) option" where
  "connected_ips_loop [] result = Some result"
| "connected_ips_loop ((_, node) # ns) result =
     (case vec_get (ei_ips node) 0 of None \<Rightarrow> None
      | Some ip \<Rightarrow> connected_ips_loop ns (result(ip \<mapsto> ei_key node)))"

definition get_connected_ips :: "('d api_state, (string \<rightharpoonup> string)) act" where
  "get_connected_ips =
     with_eosnode (with_nodes (\<lambda>s. (connected_ips_loop (nodes s) Map.empty, s)))"

text \<open>\<open>get_nodes_location\<close>: \<open>locate\<close> is \<open>SocketAddr::from_str\<close> followed by the text of the address,
  \<open>None\<close> when the string is no socket address; \<open>fetch\<close> as in \<open>get_country\<close> below. An address that
  fails at any point is skipped.\<close>

definition node_location ::
  "(string \<Rightarrow> string option) \<Rightarrow> (string \<Rightarrow> (string \<rightharpoonup> string) option) \<Rightarrow> eos_info \<Rightarrow>
   string \<Rightarrow> (string \<rightharpoonup> string list) \<Rightarrow> (string \<rightharpoonup> string list)" where
  "node_location locate fetch node ip locations =
     (case locate ip of None \<Rightarrow> locations
      | Some addr \<Rightarrow>
         (case fetch (''https://ipinfo.io/'' @ addr @ ''/json'') of None \<Rightarrow> locations
          | Some resp \<Rightarrow>
             (if resp ''loc'' = None \<or> resp ''city'' = None then locations
              else locations(ei_id node \<mapsto> [the (resp ''city''), the (resp ''loc'')]))))"

definition get_nodes_location ::
  "(string \<Rightarrow> string option) \<Rightarrow> (string \<Rightarrow> (string \<rightharpoonup> string) option) \<Rightarrow>
   ('d api_state, (string \<rightharpoonup> string list)) act" where
  "get_nodes_location locate fetch =
     with_eosnode (with_nodes (\<lambda>s.
       (Some (fold (\<lambda>(_, node). fold (node_location locate fetch node) (ei_ips node)) (nodes s)
          Map.empty), s)))"

text \<open>\<open>get_country\<close>: \<open>fetch\<close> is \<open>reqwest::get\<close>, \<open>None\<close> when the request fails, and otherwise
  the decoded JSON object, the empty map when it does not decode.\<close>

definition get_country ::
  "(string \<Rightarrow> (string \<rightharpoonup> string) option) \<Rightarrow> string \<Rightarrow> string option" where
  "get_country fetch ip =
     (case fetch (''https://ipinfo.io/'' @ ip @ ''/json'') of
        None \<Rightarrow> None
      | Some resp \<Rightarrow> (if resp ''country'' = None then None else resp ''country''))"

definition handler_insert ::
  "('d, 'h) dht_lib \<Rightarrow> string \<Rightarrow> string \<Rightarrow> ('d api_state, unit) act" where
  "handler_insert L key v =
     with_eosnode (\<lambda>s. (Some (), s\<lparr>dht := put_signed L (dht s) (hash_from_bytes L key) v True\<rparr>))"

text \<open>The callback overwrites the result at every value, so the last one is returned.\<close>

definition handler_get ::
  "('d, 'h) dht_lib \<Rightarrow> string \<Rightarrow> ('d api_state, string option) act" where
  "handler_get L key =
     with_eosnode (\<lambda>s. (Some (foldl (\<lambda>result v. Some (from_utf8_or_empty v)) None
        (d_get L (dht s) (hash_from_bytes L key))), s))"

definition handler_info :: "('d api_state, eos_info) act" where
  "handler_info = with_eosnode (\<lambda>s. (Some (node_info s), s))"

record chat_reader =
  cr_id :: u64
  cr_room :: string
  cr_chat :: nat
  cr_stopped :: bool

text \<open>\<open>ChatReader::new\<close> announces the reader to the chat loop.\<close>

definition chat_reader_new :: "u64 \<Rightarrow> string \<Rightarrow> nat \<Rightarrow> ('d api_state, chat_reader) act" where
  "chat_reader_new i room chat =
     with_events (\<lambda>s. (Some \<lparr>cr_id = i, cr_room = room, cr_chat = chat, cr_stopped = False\<rparr>,
       s\<lparr>chat_events := chat_events s @ [Join i room chat]\<rparr>))"

text \<open>\<open>join\<close>: a fresh identifier (a wrapping \<open>u64\<close> counter) and a fresh message buffer.\<close>

definition handler_join :: "string \<Rightarrow> ('d api_state, chat_reader) act" where
  "handler_join room s =
     (let s' = s\<lparr>chat_readers_idx := chat_readers_idx s + 1, next_buffer := Suc (next_buffer s)\<rparr>
      in chat_reader_new (chat_readers_idx s') room (next_buffer s) s')"

text \<open>\<open>drop\<close> of a reader.\<close>

definition chat_reader_drop :: "chat_reader \<Rightarrow> ('d api_state, chat_reader) act" where
  "chat_reader_drop r =
     with_events (\<lambda>s. (Some (r\<lparr>cr_stopped := True\<rparr>),
       s\<lparr>chat_events := chat_events s @ [Leave (cr_id r) (cr_room r)]\<rparr>))"

definition handler_send ::
  "('d, 'h) dht_lib \<Rightarrow> string \<Rightarrow> string \<Rightarrow> ('d api_state, unit) act" where
  "handler_send L room msg =
     with_eosnode (\<lambda>s. (Some (), s\<lparr>dht := put_signed L (dht s) (hash_get L room) msg False\<rparr>))"

definition handler_send_to_user ::
  "('d, 'h) dht_lib \<Rightarrow> string \<Rightarrow> string \<Rightarrow> string \<Rightarrow> ('d api_state, unit) act" where
  "handler_send_to_user L room to msg =
     with_eosnode (\<lambda>s. (Some (),
       s\<lparr>dht := put_encrypted L (dht s) (hash_get L room) (hash_from_hex L to) msg False\<rparr>))"

section \<open>Lemmas\<close>

named_theorems act_simps \<open>unfolding of actions and locks\<close>

lemma act_simps_basic [act_simps]:
  "done_with a s = (Some a, s)" "panic s = (None, s)"
  "unwrap None = panic" "unwrap (Some a) = done_with a"
  by (simp_all add: done_with_def panic_def unwrap_def fun_eq_iff)

lemma and_then_Some [act_simps]: "m s = (Some a, s') \<Longrightarrow> and_then m k s = k a s'"
  and and_then_None [act_simps]: "m s = (None, s') \<Longrightarrow> and_then m k s = (None, s')"
  by (simp_all add: and_then_def)

lemma with_handler_ok [act_simps]:
  "\<not> handler_poisoned s \<Longrightarrow> body s = (Some a, s') \<Longrightarrow> with_handler body s = (Some a, s')"
  by (simp add: with_handler_def)

lemma with_handler_panics [act_simps]:
  "\<not> handler_poisoned s \<Longrightarrow> body s = (None, s') \<Longrightarrow>
   with_handler body s = (None, s'\<lparr>handler_poisoned := True\<rparr>)"
  by (simp add: with_handler_def)

lemma with_handler_poisoned [act_simps]: "handler_poisoned s \<Longrightarrow> with_handler body s = (None, s)"
  by (simp add: with_handler_def)

lemma foldl_last:
  "foldl (\<lambda>r v. Some (f v)) r0 vs = (if vs = [] then r0 else Some (f (last vs)))"
  by (induction vs arbitrary: r0) auto

lemma handler_insert_eq [act_simps]:
  "\<not> eosnode_poisoned s \<Longrightarrow> handler_insert L key v s =
    (Some (), s\<lparr>dht := put_signed L (dht s) (hash_from_bytes L key) v True\<rparr>)"
  by (simp add: handler_insert_def with_eosnode_def)

lemma handler_get_eq [act_simps]:
  "\<not> eosnode_poisoned s \<Longrightarrow> handler_get L key s =
    (Some (let vs = d_get L (dht s) (hash_from_bytes L key)
           in if vs = [] then None else Some (from_utf8_or_empty (last vs))), s)"
  by (simp add: handler_get_def with_eosnode_def foldl_last Let_def)

lemma handler_info_eq [act_simps]:
  "\<not> eosnode_poisoned s \<Longrightarrow> handler_info s = (Some (node_info s), s)"
  by (simp add: handler_info_def with_eosnode_def)

lemma handler_eosnode_poisoned [act_simps]:
  "eosnode_poisoned s \<Longrightarrow> handler_insert L key v s = (None, s)"
  "eosnode_poisoned s \<Longrightarrow> handler_get L key s = (None, s)"
  "eosnode_poisoned s \<Longrightarrow> handler_info s = (None, s)"
  "eosnode_poisoned s \<Longrightarrow> handler_send L room msg s = (None, s)"
  "eosnode_poisoned s \<Longrightarrow> handler_send_to_user L room to msg s = (None, s)"
  "eosnode_poisoned s \<Longrightarrow> get_connected_nodes s = (None, s)"
  "eosnode_poisoned s \<Longrightarrow> get_connected_ips s = (None, s)"
  by (simp_all add: handler_insert_def handler_get_def handler_info_def handler_send_def
      handler_send_to_user_def get_connected_nodes_def get_connected_ips_def with_eosnode_def)

lemma fold_connected:
  assumes "distinct (map fst ns)"
  shows "foldl (\<lambda>result (id, node). result(id \<mapsto> ei_key node)) m ns =
    m ++ (map_option ei_key \<circ> map_of ns)"
  using assms
proof (induction ns arbitrary: m)
  case (Cons n ns)
  then have "map_of ns (fst n) = None" by (auto simp: map_of_eq_None_iff)
  then show ?case
    using Cons by (cases n) (auto simp: fun_eq_iff map_add_def split: option.splits)
qed (simp add: fun_eq_iff map_add_def)

lemma connected_ips_loop_panics:
  "connected_ips_loop ns m = None \<longleftrightarrow> (\<exists>(i, n)\<in>set ns. ei_ips n = [])"
proof (induction ns arbitrary: m)
  case (Cons n ns)
  then show ?case by (cases n; cases "ei_ips (snd n)") auto
qed simp

end
