(* ===== verification/Server.thy ===== *)
theory Server
  imports Handler
begin

text \<open>
  The HTTP endpoints of \<open>src/vDexNode/api/src/server.rs\<close> (the key/value board and the sign-up
  counters of the threshold protocols, the node queries, the chat rooms) as operations on the
  state of \<open>Handler\<close>, and the start-up of the server. The codecs (message-pack, JSON), the
  contents of the configuration file and the fresh UUIDs are parameters.
\<close>

section \<open>Data\<close>

record tuple_key =
  key_first :: string
  key_second :: string
  key_third :: string
  key_fourth :: string

record party_signup =
  ps_number :: u32
  ps_uuid :: string

record index =
  ix_key :: tuple_key

record entry =
  en_key :: tuple_key
  en_value :: string

record params =
  pa_parties :: string
  pa_threshold :: string

text \<open>\<open>rmp\<close> and \<open>serde_json\<close>: serialisation may fail in principle (the code unwraps it).\<close>

record codecs =
  msgpack_key :: "tuple_key \<Rightarrow> string option"
  json_signup :: "party_signup \<Rightarrow> string option"
  parse_signup :: "string \<Rightarrow> party_signup option"
  parse_params :: "string \<Rightarrow> params option"

section \<open>The key/value board\<close>

text \<open>The bytes under which a key is stored: its message-pack form, salted with the node id.\<close>

definition salted_key ::
  "codecs \<Rightarrow> tuple_key \<Rightarrow> ('d api_state, string) act" where
  "salted_key J key =
     and_then (unwrap (msgpack_key J key)) (\<lambda>buf.
     and_then handler_info (\<lambda>info.
     done_with (buf @ ei_id info)))"

definition set_endpoint ::
  "('d, 'h) dht_lib \<Rightarrow> codecs \<Rightarrow> entry \<Rightarrow> ('d api_state, unit + unit) act" where
  "set_endpoint L J request =
     with_handler
       (and_then (salted_key J (en_key request)) (\<lambda>buf.
        and_then (handler_insert L buf (en_value request)) (\<lambda>_.
        done_with (Inr ()))))"

definition get_endpoint ::
  "('d, 'h) dht_lib \<Rightarrow> codecs \<Rightarrow> index \<Rightarrow> ('d api_state, unit + entry) act" where
  "get_endpoint L J request =
     with_handler
       (and_then (salted_key J (ix_key request)) (\<lambda>buf.
        and_then (handler_get L buf) (\<lambda>r.
        done_with (case r of Some v \<Rightarrow> Inr \<lparr>en_key = ix_key request, en_value = v\<rparr>
                            | None \<Rightarrow> Inl ()))))"

section \<open>The sign-up counters\<close>

definition keygen_key :: tuple_key where
  "keygen_key = \<lparr>key_first = ''signup'', key_second = ''keygen'', key_third = [], key_fourth = []\<rparr>"

definition sign_key :: tuple_key where
  "sign_key = \<lparr>key_first = ''signup'', key_second = ''sign'', key_third = [], key_fourth = []\<rparr>"

text \<open>The next entry of a counter: below the limit the number grows in the same session, otherwise
  a session with a fresh UUID starts at 1.\<close>

definition next_signup :: "u32 \<Rightarrow> string \<Rightarrow> party_signup \<Rightarrow> party_signup" where
  "next_signup limit uuid prev =
     (if ps_number prev < limit then \<lparr>ps_number = ps_number prev + 1, ps_uuid = ps_uuid prev\<rparr>
      else \<lparr>ps_number = 1, ps_uuid = uuid\<rparr>)"

definition signup_body ::
  "('d, 'h) dht_lib \<Rightarrow> codecs \<Rightarrow> tuple_key \<Rightarrow> u32 \<Rightarrow> string \<Rightarrow>
   ('d api_state, unit + party_signup) act" where
  "signup_body L J key limit uuid =
     with_handler
       (and_then (salted_key J key) (\<lambda>buf.
        and_then (handler_get L buf) (\<lambda>r.
        and_then (unwrap r) (\<lambda>value.
        and_then (unwrap (parse_signup J value)) (\<lambda>prev.
        let party_signup = next_signup limit uuid prev in
        and_then (unwrap (json_signup J party_signup)) (\<lambda>text.
        and_then (handler_insert L buf text) (\<lambda>_.
        done_with (Inr party_signup))))))))"

text \<open>The configuration is read and parsed before the lock is taken. The limit of a signing session
  is \<open>threshold + 1\<close> in \<open>u32\<close>, which wraps in a release build.\<close>

definition signup_keygen ::
  "('d, 'h) dht_lib \<Rightarrow> codecs \<Rightarrow> string option \<Rightarrow> string \<Rightarrow>
   ('d api_state, unit + party_signup) act" where
  "signup_keygen L J conf uuid =
     and_then (unwrap conf) (\<lambda>data.
     and_then (unwrap (parse_params J data)) (\<lambda>params.
     and_then (unwrap (parse_u32 (pa_parties params))) (\<lambda>parties.
     signup_body L J keygen_key parties uuid)))"

definition signup_sign ::
  "('d, 'h) dht_lib \<Rightarrow> codecs \<Rightarrow> string option \<Rightarrow> string \<Rightarrow>
   ('d api_state, unit + party_signup) act" where
  "signup_sign L J conf uuid =
     and_then (unwrap conf) (\<lambda>data.
     and_then (unwrap (parse_params J data)) (\<lambda>params.
     and_then (unwrap (parse_u32 (pa_threshold params))) (\<lambda>threshold.
     signup_body L J sign_key (threshold + 1) uuid)))"

section \<open>Node queries and chat\<close>

definition connected_nodes :: "('d api_state, (string \<rightharpoonup> string)) act" where
  "connected_nodes =
     with_handler (and_then get_connected_nodes (\<lambda>m. done_with (m(''Result'' \<mapsto> ''Success''))))"

definition connected_ips :: "('d api_state, (string \<rightharpoonup> string)) act" where
  "connected_ips =
     with_handler (and_then get_connected_ips (\<lambda>m. done_with (m(''Result'' \<mapsto> ''Success''))))"

definition nodes_location ::
  "(string \<Rightarrow> string option) \<Rightarrow> (string \<Rightarrow> (string \<rightharpoonup> string) option) \<Rightarrow>
   ('d api_state, (string \<rightharpoonup> string list)) act" where
  "nodes_location locate fetch = with_handler (get_nodes_location locate fetch)"

definition node_infos :: "('d api_state, eos_info) act" where
  "node_infos = with_handler handler_info"

text \<open>\<open>url_decode().unwrap_or(String::new())\<close>: the decoder is Rocket's, a parameter.\<close>

definition url_decoded :: "(string \<Rightarrow> string option) \<Rightarrow> string \<Rightarrow> string" where
  "url_decoded decode raw = (case decode raw of Some s \<Rightarrow> s | None \<Rightarrow> [])"

definition country ::
  "(string \<Rightarrow> string option) \<Rightarrow> (string \<Rightarrow> (string \<rightharpoonup> string) option) \<Rightarrow> string \<Rightarrow>
   ('d api_state, (string \<rightharpoonup> string)) act" where
  "country decode fetch ip =
     with_handler (done_with
       (case get_country fetch (url_decoded decode ip) of
          Some c \<Rightarrow> [''Country'' \<mapsto> c]
        | None \<Rightarrow> [''Err'' \<mapsto> ''No country found'']))"

definition stream_endpoint ::
  "(string \<Rightarrow> string option) \<Rightarrow> string \<Rightarrow> ('d api_state, unit + chat_reader) act" where
  "stream_endpoint decode raw =
     with_handler (let room = url_decoded decode raw in
       if room = [] then done_with (Inl ())
       else and_then (handler_join room) (\<lambda>r. done_with (Inr r)))"

definition put_msg ::
  "('d, 'h) dht_lib \<Rightarrow> (string \<Rightarrow> string option) \<Rightarrow> string \<Rightarrow> string \<Rightarrow> ('d api_state, bool) act" where
  "put_msg L decode raw message =
     with_handler (let room = url_decoded decode raw in
       if room = [] then done_with False
       else and_then (handler_send L room message) (\<lambda>_. done_with True))"

definition put_encrypted_msg ::
  "('d, 'h) dht_lib \<Rightarrow> (string \<Rightarrow> string option) \<Rightarrow> string \<Rightarrow> string \<Rightarrow> string \<Rightarrow>
   ('d api_state, bool) act" where
  "put_encrypted_msg L decode raw_room raw_user message =
     with_handler (let room = url_decoded decode raw_room; user = url_decoded decode raw_user in
       if room = [] \<or> user = [] then done_with False
       else and_then (handler_send_to_user L room user message) (\<lambda>_. done_with True))"

section \<open>Wallet endpoints\<close>

text \<open>\<open>handler.lock().unwrap().bitcoin.clone()\<close>: the lock is released before the command runs.\<close>

definition with_bitcoin :: "(bitcoin \<Rightarrow> reply) \<Rightarrow> ('d api_state, reply) act" where
  "with_bitcoin call s = (if handler_poisoned s then (None, s) else (Some (call (api_bitcoin s)), s))"

definition ep_getnewaddress :: "runner \<Rightarrow> ('d api_state, reply) act" where
  "ep_getnewaddress run = with_bitcoin (\<lambda>b. getaddr b run)"

definition ep_dumpprivkey ::
  "(string \<Rightarrow> string option) \<Rightarrow> runner \<Rightarrow> string \<Rightarrow> ('d api_state, reply) act" where
  "ep_dumpprivkey decode run address =
     with_bitcoin (\<lambda>b. dumpprivkey b run (url_decoded decode address))"

definition ep_getbalance :: "runner \<Rightarrow> ('d api_state, reply) act" where
  "ep_getbalance run = with_bitcoin (\<lambda>b. balance b run)"

record sign_request =
  sr_n :: u32
  sr_keys :: "string list"

definition ep_addmultisigaddress ::
  "(string \<Rightarrow> multi_sig option) \<Rightarrow> runner \<Rightarrow> sign_request \<Rightarrow> ('d api_state, reply) act" where
  "ep_addmultisigaddress parse run req =
     with_bitcoin (\<lambda>b. addmultisigaddress parse b run (sr_n req) (sr_keys req))"

definition ep_createmultisig ::
  "(string \<Rightarrow> multi_sig option) \<Rightarrow> runner \<Rightarrow> sign_request \<Rightarrow> ('d api_state, reply) act" where
  "ep_createmultisig parse run req =
     with_bitcoin (\<lambda>b. createmultisig parse b run (sr_n req) (sr_keys req))"

definition ep_gettransaction :: "runner \<Rightarrow> string \<Rightarrow> ('d api_state, reply) act" where
  "ep_gettransaction run txid = with_bitcoin (\<lambda>b. gettransaction b run txid)"

definition ep_sendtoaddress :: "runner \<Rightarrow> string \<Rightarrow> string \<Rightarrow> ('d api_state, reply) act" where
  "ep_sendtoaddress run bitcoinaddress amount =
     with_bitcoin (\<lambda>b. sendtoaddress b run bitcoinaddress amount)"

definition ep_signmessage :: "runner \<Rightarrow> string \<Rightarrow> string \<Rightarrow> ('d api_state, reply) act" where
  "ep_signmessage run bitcoinaddress message =
     with_bitcoin (\<lambda>b. signmessage b run bitcoinaddress message)"

section \<open>Start-up and requests\<close>

text \<open>What \<open>Server::run\<close> does before it launches Rocket: both counters start at 0. The two
  insertions salt with one copy of the node id.\<close>

definition server_init ::
  "('d, 'h) dht_lib \<Rightarrow> codecs \<Rightarrow> string \<Rightarrow> string \<Rightarrow> ('d api_state, unit) act" where
  "server_init L J uuid_keygen uuid_sign =
     with_handler
       (and_then (unwrap (msgpack_key J keygen_key)) (\<lambda>buf.
        and_then handler_info (\<lambda>info.
        and_then (unwrap (json_signup J \<lparr>ps_number = 0, ps_uuid = uuid_keygen\<rparr>)) (\<lambda>v.
        and_then (handler_insert L (buf @ ei_id info) v) (\<lambda>_.
        and_then (unwrap (msgpack_key J sign_key)) (\<lambda>buf.
        and_then (unwrap (json_signup J \<lparr>ps_number = 0, ps_uuid = uuid_sign\<rparr>)) (\<lambda>v.
        handler_insert L (buf @ ei_id info) v)))))))"

text \<open>The CORS configuration, for the library that checks it.\<close>

record 'm cors_options =
  co_all_origins :: bool
  co_allowed_methods :: "'m list"
  co_all_headers :: bool
  co_allow_credentials :: bool

definition cors_config :: "(string \<Rightarrow> 'm option) \<Rightarrow> ('m cors_options \<Rightarrow> 'c option) \<Rightarrow> 'c option" where
  "cors_config from_str to_cors =
     do {
       allowed_methods \<leftarrow> those (map from_str
         [''Get'', ''Post'', ''Delete'', ''Head'', ''Options'', ''Put'', ''Patch'']);
       to_cors \<lparr>co_all_origins = True, co_allowed_methods = allowed_methods, co_all_headers = True,
         co_allow_credentials = True\<rparr> }"

text \<open>\<open>Server::run\<close> up to the launch of Rocket, which serves the routes of \<open>dispatch\<close> until it returns.\<close>

definition server_run ::
  "(string \<Rightarrow> 'm option) \<Rightarrow> ('m cors_options \<Rightarrow> 'c option) \<Rightarrow> ('d, 'h) dht_lib \<Rightarrow> codecs \<Rightarrow> string \<Rightarrow> string \<Rightarrow>
   ('d api_state, unit) act" where
  "server_run from_str to_cors L J uuid_keygen uuid_sign =
     and_then (unwrap (cors_config from_str to_cors)) (\<lambda>cors. server_init L J uuid_keygen uuid_sign)"

lemma server_run_init:
  "server_run from_str to_cors L J uk us s = (Some (), s') \<Longrightarrow> server_init L J uk us s = (Some (), s')"
  by (cases "cors_config from_str to_cors") (auto simp: server_run_def and_then_def unwrap_def panic_def done_with_def split: prod.splits)

text \<open>The outside world of the server: Rocket's URL decoder, the JSON parser of multi-signature
  replies, socket addresses, \<open>ipinfo.io\<close>, and the commands.\<close>

record env =
  env_decode :: "string \<Rightarrow> string option"
  env_multisig :: "string \<Rightarrow> multi_sig option"
  env_locate :: "string \<Rightarrow> string option"
  env_fetch :: "string \<Rightarrow> (string \<rightharpoonup> string) option"
  env_run :: runner

text \<open>One constructor per mounted route. A sign-up carries the contents of the configuration file
  and the UUID that would be drawn.\<close>

datatype request =
    Req_Set entry
  | Req_Get index
  | Req_SignupKeygen "string option" string
  | Req_SignupSign "string option" string
  | Req_ConnectedNodes
  | Req_ConnectedIPs
  | Req_NodesLocation
  | Req_Country string
  | Req_NodeInfos
  | Req_Stream string
  | Req_PutMsg string string
  | Req_PutEncrypted string string string
  | Req_GetNewAddress
  | Req_DumpPrivKey string
  | Req_GetBalance
  | Req_AddMultisig sign_request
  | Req_CreateMultisig sign_request
  | Req_GetTransaction string
  | Req_SendTo string string
  | Req_SignMessage string string

definition discard :: "('s, 'a) act \<Rightarrow> ('s, unit) act" where
  "discard m = and_then m (\<lambda>_. done_with ())"

definition dispatch ::
  "('d, 'h) dht_lib \<Rightarrow> codecs \<Rightarrow> env \<Rightarrow> request \<Rightarrow> ('d api_state, unit) act" where
  "dispatch L J E req =
     (case req of
        Req_Set e \<Rightarrow> discard (set_endpoint L J e)
      | Req_Get i \<Rightarrow> discard (get_endpoint L J i)
      | Req_SignupKeygen conf uuid \<Rightarrow> discard (signup_keygen L J conf uuid)
      | Req_SignupSign conf uuid \<Rightarrow> discard (signup_sign L J conf uuid)
      | Req_ConnectedNodes \<Rightarrow> discard connected_nodes
      | Req_ConnectedIPs \<Rightarrow> discard connected_ips
      | Req_NodesLocation \<Rightarrow> discard (nodes_location (env_locate E) (env_fetch E))
      | Req_Country ip \<Rightarrow> discard (country (env_decode E) (env_fetch E) ip)
      | Req_NodeInfos \<Rightarrow> discard node_infos
      | Req_Stream raw \<Rightarrow> discard (stream_endpoint (env_decode E) raw)
      | Req_PutMsg raw m \<Rightarrow> discard (put_msg L (env_decode E) raw m)
      | Req_PutEncrypted r u m \<Rightarrow> discard (put_encrypted_msg L (env_decode E) r u m)
      | Req_GetNewAddress \<Rightarrow> discard (ep_getnewaddress (env_run E))
      | Req_DumpPrivKey a \<Rightarrow> discard (ep_dumpprivkey (env_decode E) (env_run E) a)
      | Req_GetBalance \<Rightarrow> discard (ep_getbalance (env_run E))
      | Req_AddMultisig r \<Rightarrow> discard (ep_addmultisigaddress (env_multisig E) (env_run E) r)
      | Req_CreateMultisig r \<Rightarrow> discard (ep_createmultisig (env_multisig E) (env_run E) r)
      | Req_GetTransaction t \<Rightarrow> discard (ep_gettransaction (env_run E) t)
      | Req_SendTo a n \<Rightarrow> discard (ep_sendtoaddress (env_run E) a n)
      | Req_SignMessage a m \<Rightarrow> discard (ep_signmessage (env_run E) a m))"

text \<open>A panicking request kills its worker thread only: the next request runs on the state it left.
  The first component of the result says which requests were answered.\<close>

fun serve ::
  "('d, 'h) dht_lib \<Rightarrow> codecs \<Rightarrow> env \<Rightarrow> request list \<Rightarrow> 'd api_state \<Rightarrow>
   bool list \<times> 'd api_state" where
  "serve L J E [] s = ([], s)"
| "serve L J E (q # qs) s =
     (let (r, s') = dispatch L J E q s; (rs, s'') = serve L J E qs s'
      in ((r \<noteq> None) # rs, s''))"

end
