(* ===== verification/Signup.thy ===== *)
theory Signup
  imports Server_Correct
begin

text \<open>
  The two sign-up counters of \<open>src/vDexNode/api/src/server.rs\<close>. They share one interface,
  the locale \<open>signup_counter\<close>, which is interpreted on \<open>signup_keygen\<close> and on
  \<open>signup_sign\<close>; the numbers and identifiers a whole sequence of sign-ups receives are proved
  once, inside the locale.
\<close>

section \<open>The counters\<close>

text \<open>The limits that the endpoints compute from the configuration file.\<close>

definition conf_params :: "codecs \<Rightarrow> string option \<Rightarrow> params option" where
  "conf_params J conf = (case conf of None \<Rightarrow> None | Some data \<Rightarrow> parse_params J data)"

definition keygen_limit :: "codecs \<Rightarrow> string option \<Rightarrow> u32 option" where
  "keygen_limit J conf =
     (case conf_params J conf of None \<Rightarrow> None | Some p \<Rightarrow> parse_u32 (pa_parties p))"

definition sign_limit :: "codecs \<Rightarrow> string option \<Rightarrow> u32 option" where
  "sign_limit J conf =
     (case conf_params J conf of None \<Rightarrow> None
      | Some p \<Rightarrow> map_option (\<lambda>t. t + 1) (parse_u32 (pa_threshold p)))"

definition counter_value ::
  "('d, 'h) dht_lib \<Rightarrow> codecs \<Rightarrow> 'd api_state \<Rightarrow> tuple_key \<Rightarrow> party_signup option" where
  "counter_value L J s key =
     (case stored L (dht s) (key_hash L J s key) of None \<Rightarrow> None | Some t \<Rightarrow> parse_signup J t)"

text \<open>The key of a counter is written again and again, so it holds many entries, and a sign-up reads any
  of them. The counter is well-formed when there is one and all of them can be read.\<close>

definition counter_entries ::
  "('d, 'h) dht_lib \<Rightarrow> codecs \<Rightarrow> 'd api_state \<Rightarrow> tuple_key \<Rightarrow> party_signup set" where
  "counter_entries L J s key = {p. \<exists>t\<in>held L (dht s) (key_hash L J s key). parse_signup J t = Some p}"

definition counter_clean ::
  "('d, 'h) dht_lib \<Rightarrow> codecs \<Rightarrow> 'd api_state \<Rightarrow> tuple_key \<Rightarrow> bool" where
  "counter_clean L J s key \<longleftrightarrow>
     (\<forall>t\<in>held L (dht s) (key_hash L J s key). \<exists>p. parse_signup J t = Some p \<and> utf8_valid (ps_uuid p))"

definition counter_ok ::
  "('d, 'h) dht_lib \<Rightarrow> codecs \<Rightarrow> 'd api_state \<Rightarrow> tuple_key \<Rightarrow> bool" where
  "counter_ok L J s key \<longleftrightarrow> held L (dht s) (key_hash L J s key) \<noteq> {} \<and> counter_clean L J s key"

lemma counter_okE:
  assumes "counter_ok L J s key"
  obtains p where "counter_value L J s key = Some p" "utf8_valid (ps_uuid p)" "p \<in> counter_entries L J s key"
proof -
  obtain t where t: "stored L (dht s) (key_hash L J s key) = Some t"
    using assms stored_held(1) [of L "dht s" "key_hash L J s key"] by (auto simp: counter_ok_def)
  with assms obtain p where "parse_signup J t = Some p" "utf8_valid (ps_uuid p)"
    unfolding counter_ok_def counter_clean_def using stored_held(2) [OF t] by blast
  with t stored_held(2) [OF t] show thesis
    by (intro that) (auto simp: counter_value_def counter_entries_def)
qed

lemma utf8_next_signup:
  "utf8_valid uuid \<Longrightarrow> utf8_valid (ps_uuid p) \<Longrightarrow> utf8_valid (ps_uuid (next_signup limit uuid p))"
  by (simp add: next_signup_def)

lemma codec_json:
  assumes "codec_laws J" "utf8_valid (ps_uuid p)"
  obtains t where "json_signup J p = Some t" "utf8_valid t" "parse_signup J t = Some p"
  using assms unfolding codec_laws_def by blast

lemma counter_put:
  assumes "dht_store L" "no_collisions L" "codec_laws J" "utf8_valid t"
    and s': "s' = s\<lparr>dht := put_signed L (dht s) (key_hash L J s key) t b\<rparr>"
  shows "parse_signup J t = Some p \<Longrightarrow> counter_entries L J s' key = insert p (counter_entries L J s key)"
    and "parse_signup J t = Some p \<Longrightarrow> utf8_valid (ps_uuid p) \<Longrightarrow> counter_clean L J s key \<Longrightarrow>
      counter_ok L J s' key"
    and "key' \<noteq> key \<Longrightarrow> counter_entries L J s' key' = counter_entries L J s key'"
    and "key' \<noteq> key \<Longrightarrow> counter_ok L J s' key' = counter_ok L J s key'"
    and "key' \<noteq> key \<Longrightarrow> counter_clean L J s' key' = counter_clean L J s key'"
  using assms(1-4) unfolding s'
  by (auto simp: counter_entries_def counter_ok_def counter_clean_def held_put key_hash_inject)

text \<open>The common body of the endpoints on a well-formed counter.\<close>

lemma signup_body_ok:
  assumes laws: "codec_laws J" "unlocked s"
    and cur: "counter_value L J s key = Some prev" "utf8_valid (ps_uuid prev)" "utf8_valid uuid"
    and p_def: "p = next_signup lim uuid prev"
  shows "\<exists>t. signup_body L J key lim uuid s =
      (Some (Inr p), s\<lparr>dht := put_signed L (dht s) (key_hash L J s key) t True\<rparr>) \<and>
      utf8_valid t \<and> parse_signup J t = Some p \<and> json_signup J p = Some t"
proof -
  have "utf8_valid (ps_uuid p)" using cur by (simp add: p_def utf8_next_signup)
  then obtain t where t: "json_signup J p = Some t" "utf8_valid t" "parse_signup J t = Some p"
    using codec_json [OF laws(1)] by blast
  have nonempty: "d_get L (dht s) (key_hash L J s key) \<noteq> []"
    and parsed: "parse_signup J (from_utf8_or_empty (last (d_get L (dht s) (key_hash L J s key)))) = Some prev"
    using cur(1) by (auto simp: counter_value_def stored_def split: if_splits)
  have free: "\<not> handler_poisoned s" "\<not> eosnode_poisoned s" using laws(2) by (simp_all add: unlocked_def)
  have "signup_body L J key lim uuid s =
      (Some (Inr p), s\<lparr>dht := put_signed L (dht s) (key_hash L J s key) t True\<rparr>)"
    using free nonempty parsed t(1)
    by (simp add: signup_body_def with_handler_def and_then_def salted_key_eq [OF laws(1,2)]
        handler_get_eq handler_insert_eq act_simps_basic done_with_def Let_def
        flip: key_hash_def p_def)
  with t show ?thesis by blast
qed

lemma signup_body_panics:
  assumes "codec_laws J" "unlocked s" "counter_value L J s key = None"
  shows "signup_body L J key lim uuid s = (None, s\<lparr>handler_poisoned := True\<rparr>)"
proof -
  have free: "\<not> handler_poisoned s" "\<not> eosnode_poisoned s" using assms(2) by (simp_all add: unlocked_def)
  show ?thesis
    using free assms(3)
    by (cases "d_get L (dht s) (key_hash L J s key) = []")
      (simp_all add: signup_body_def with_handler_def and_then_def salted_key_eq [OF assms(1,2)]
        handler_get_eq act_simps_basic done_with_def panic_def counter_value_def stored_def Let_def
        flip: key_hash_def)
qed

lemma signup_keygen_eq:
  "keygen_limit J conf = Some lim \<Longrightarrow> signup_keygen L J conf uuid = signup_body L J keygen_key lim uuid"
  by (auto simp: keygen_limit_def conf_params_def signup_keygen_def act_simps_basic and_then_def
      done_with_def fun_eq_iff split: option.splits)

lemma signup_sign_eq:
  "sign_limit J conf = Some lim \<Longrightarrow> signup_sign L J conf uuid = signup_body L J sign_key lim uuid"
  by (auto simp: sign_limit_def conf_params_def signup_sign_def act_simps_basic and_then_def
      done_with_def fun_eq_iff split: option.splits)

section \<open>The interface\<close>

text \<open>One sign-up after the other; every sign-up may draw a fresh UUID.\<close>

fun run_signups :: "(string \<Rightarrow> 's \<Rightarrow> 'a \<times> 's) \<Rightarrow> string list \<Rightarrow> 's \<Rightarrow> 'a list \<times> 's" where
  "run_signups step [] s = ([], s)"
| "run_signups step (u # us) s =
     (let (p, s') = step u s; (ps, s'') = run_signups step us s' in (p # ps, s''))"

lemma run_signups_append:
  "run_signups step (us @ vs) s =
     (let (ps, s') = run_signups step us s; (qs, s'') = run_signups step vs s' in (ps @ qs, s''))"
  by (induction us arbitrary: s) (auto simp: Let_def split: prod.splits)

text \<open>The entries of a whole session.\<close>

definition session :: "u32 \<Rightarrow> string \<Rightarrow> party_signup option list" where
  "session lim uuid = map (\<lambda>i. Some \<lparr>ps_number = of_nat (Suc i), ps_uuid = uuid\<rparr>) [0..<unat lim]"

text \<open>Replies that follow an entry: each continues one of the entries that were there or were handed
  out before.\<close>

fun signups_from :: "u32 \<Rightarrow> party_signup set \<Rightarrow> string list \<Rightarrow> party_signup option list \<Rightarrow> bool" where
  "signups_from lim E (u # us) (r # rs) \<longleftrightarrow>
     (\<exists>prev\<in>E. r = Some (next_signup lim u prev) \<and>
        signups_from lim (insert (next_signup lim u prev) E) us rs)"
| "signups_from lim E us rs \<longleftrightarrow> us = [] \<and> rs = []"

lemma signups_from_uuids:
  "signups_from lim E us rs \<Longrightarrow> Some p \<in> set rs \<Longrightarrow> ps_uuid p \<in> ps_uuid ` E \<union> set us"
proof (induction lim E us rs rule: signups_from.induct)
  case (1 lim E u us r rs)
  then obtain prev where prev: "prev \<in> E" "r = Some (next_signup lim u prev)"
    "signups_from lim (insert (next_signup lim u prev) E) us rs" by auto
  have here: "ps_uuid (next_signup lim u prev) \<in> ps_uuid ` E \<union> {u}"
    using prev(1) by (simp add: next_signup_def)
  show ?case
  proof (cases "r = Some p")
    case True
    then show ?thesis using here prev(2) by auto
  next
    case False
    then show ?thesis using 1 prev here by fastforce
  qed
qed auto

lemma next_signup_bounds:
  "1 \<le> unat (ps_number (next_signup lim uuid prev)) \<and>
   unat (ps_number (next_signup lim uuid prev)) \<le> max 1 (unat lim)"
proof (cases "ps_number prev < lim")
  case True
  then have "unat (ps_number prev) < unat lim" by (simp add: word_less_nat_alt)
  with True unat_plus_one [OF True] show ?thesis by (simp add: next_signup_def)
qed (simp add: next_signup_def)

lemma signups_from_numbers:
  "signups_from lim E us rs \<Longrightarrow> r \<in> set rs \<Longrightarrow>
   \<exists>p. r = Some p \<and> 1 \<le> unat (ps_number p) \<and> unat (ps_number p) \<le> max 1 (unat lim)"
proof (induction lim E us rs rule: signups_from.induct)
  case (1 lim E u us r rs)
  then show ?case using next_signup_bounds [of lim u] by fastforce
qed auto

text \<open>The DHT delivers to every sign-up the entry that was put last: after each of them the entry that
  is read next is the one that it handed out. OpenDHT does not promise this.\<close>

fun reads_newest ::
  "('s \<Rightarrow> party_signup) \<Rightarrow> (string \<Rightarrow> 's \<Rightarrow> party_signup option \<times> 's) \<Rightarrow> string list \<Rightarrow> 's \<Rightarrow> bool" where
  "reads_newest cur step [] s \<longleftrightarrow> True"
| "reads_newest cur step (u # us) s \<longleftrightarrow>
     fst (step u s) = Some (cur (snd (step u s))) \<and> reads_newest cur step us (snd (step u s))"

lemma reads_newest_append:
  "reads_newest cur step (us @ vs) s \<longleftrightarrow>
     reads_newest cur step us s \<and> reads_newest cur step vs (snd (run_signups step us s))"
  by (induction us arbitrary: s) (auto simp: Let_def split: prod.splits)

locale signup_counter =
  fixes inv :: "'s \<Rightarrow> bool"
    and limit :: "'s \<Rightarrow> u32"
    and entries :: "'s \<Rightarrow> party_signup set"
    and current :: "'s \<Rightarrow> party_signup"
    and step :: "string \<Rightarrow> 's \<Rightarrow> party_signup option \<times> 's"
  assumes step_inv: "inv s \<Longrightarrow> utf8_valid u \<Longrightarrow> inv (snd (step u s))"
    and step_limit: "inv s \<Longrightarrow> utf8_valid u \<Longrightarrow> limit (snd (step u s)) = limit s"
    and step_result: "inv s \<Longrightarrow> utf8_valid u \<Longrightarrow>
      fst (step u s) = Some (next_signup (limit s) u (current s))"
    and current_entry: "inv s \<Longrightarrow> current s \<in> entries s"
    and step_entries: "inv s \<Longrightarrow> utf8_valid u \<Longrightarrow>
      entries (snd (step u s)) = insert (next_signup (limit s) u (current s)) (entries s)"
begin

text \<open>Whatever is delivered, every sign-up is answered.\<close>

lemma run_any_order:
  "inv s \<Longrightarrow> list_all utf8_valid us \<Longrightarrow>
   signups_from (limit s) (entries s) us (fst (run_signups step us s)) \<and> inv (snd (run_signups step us s))"
proof (induction us arbitrary: s)
  case (Cons u us)
  obtain p s' where step: "step u s = (p, s')" by fastforce
  have s': "inv s'" "limit s' = limit s" "p = Some (next_signup (limit s) u (current s))"
    "entries s' = insert (next_signup (limit s) u (current s)) (entries s)"
    using Cons.prems step step_inv [of s u] step_limit [of s u] step_result [of s u] step_entries [of s u]
    by simp_all
  with Cons.IH [of s'] Cons.prems current_entry [of s] show ?case
    by (auto simp: step case_prod_beta Let_def)
qed simp

text \<open>When every sign-up reads the newest entry, the numbers below the limit grow by one and the
  identifier stays.\<close>

lemma step_newest:
  assumes "inv s" "utf8_valid u" "reads_newest current step (u # us) s"
  shows "current (snd (step u s)) = next_signup (limit s) u (current s)"
  using assms step_result [of s u] by simp

lemma run_growing:
  assumes "inv s" "list_all utf8_valid us" "unat (ps_number (current s)) + length us \<le> unat (limit s)"
    and "reads_newest current step us s"
  shows "fst (run_signups step us s) =
      map (\<lambda>i. Some \<lparr>ps_number = ps_number (current s) + of_nat (Suc i), ps_uuid = ps_uuid (current s)\<rparr>)
        [0..<length us] \<and>
    inv (snd (run_signups step us s)) \<and>
    limit (snd (run_signups step us s)) = limit s \<and>
    current (snd (run_signups step us s)) =
      \<lparr>ps_number = ps_number (current s) + of_nat (length us), ps_uuid = ps_uuid (current s)\<rparr>"
  using assms
proof (induction us arbitrary: s)
  case (Cons u us)
  obtain p s' where step: "step u s = (p, s')" by fastforce
  have below: "ps_number (current s) < limit s"
    using Cons.prems by (simp add: word_less_nat_alt)
  then have grow: "unat (ps_number (current s) + 1) = Suc (unat (ps_number (current s)))"
    by (rule unat_plus_one)
  have next_eq: "next_signup (limit s) u (current s) =
      \<lparr>ps_number = ps_number (current s) + 1, ps_uuid = ps_uuid (current s)\<rparr>"
    using below by (simp add: next_signup_def)
  have s': "inv s'" "limit s' = limit s"
    "p = Some \<lparr>ps_number = ps_number (current s) + 1, ps_uuid = ps_uuid (current s)\<rparr>"
    "current s' = \<lparr>ps_number = ps_number (current s) + 1, ps_uuid = ps_uuid (current s)\<rparr>"
    using Cons.prems step step_inv [of s u] step_limit [of s u] step_result [of s u]
      step_newest [of s u us] next_eq by simp_all
  have "unat (ps_number (current s')) + length us \<le> unat (limit s')"
    using Cons.prems(3) s' grow by simp
  note IH = Cons.IH [OF s'(1) _ this]
  show ?case
    using IH Cons.prems(2,4) s'
    by (simp add: step case_prod_beta Let_def upt_conv_Cons map_Suc_upt [symmetric] comp_def algebra_simps
        del: upt_Suc)
qed simp

text \<open>From the end of a session (or beyond its limit) a whole new session follows.\<close>

lemma run_session:
  assumes "inv s" "list_all utf8_valid us" "length us = unat (limit s)" "us \<noteq> []"
    and "limit s \<le> ps_number (current s)" "reads_newest current step us s"
  shows "fst (run_signups step us s) = session (limit s) (hd us) \<and>
    inv (snd (run_signups step us s)) \<and>
    limit (snd (run_signups step us s)) = limit s \<and>
    ps_number (current (snd (run_signups step us s))) = limit s"
proof -
  obtain u vs where us: "us = u # vs" using assms(4) by (cases us) auto
  obtain p s' where step: "step u s = (p, s')" by fastforce
  have next_eq: "next_signup (limit s) u (current s) = \<lparr>ps_number = 1, ps_uuid = u\<rparr>"
    using assms(5) by (simp add: next_signup_def leD)
  have u: "utf8_valid u" using assms(2) us by simp
  have s': "inv s'" "limit s' = limit s" "p = Some \<lparr>ps_number = 1, ps_uuid = u\<rparr>"
    "current s' = \<lparr>ps_number = 1, ps_uuid = u\<rparr>" "reads_newest current step vs s'"
    using assms(1,6) u step step_inv [of s u] step_limit [of s u] step_result [of s u]
      step_newest [of s u vs] next_eq by (simp_all add: us)
  have len: "unat (limit s) = Suc (length vs)" using assms(3) us by simp
  have "unat (ps_number (current s')) + length vs \<le> unat (limit s')"
    using len s' by simp
  note run = run_growing [OF s'(1) _ this _]
  have "limit s = of_nat (Suc (length vs))" unfolding len [symmetric] by simp
  then show ?thesis
    using run assms(2) s' len
    by (simp add: us step case_prod_beta Let_def session_def upt_conv_Cons map_Suc_upt [symmetric]
        comp_def algebra_simps del: upt_Suc)
qed

lemma run_sessions:
  assumes "inv s" "limit s > 0" "limit s \<le> ps_number (current s)"
    and "list_all (\<lambda>us. list_all utf8_valid us \<and> length us = unat (limit s)) batches"
    and "reads_newest current step (concat batches) s"
  shows "fst (run_signups step (concat batches) s) = concat (map (\<lambda>us. session (limit s) (hd us)) batches)"
  using assms
proof (induction batches arbitrary: s)
  case (Cons us batches)
  have "us \<noteq> []" using Cons.prems by (auto simp: word_less_nat_alt)
  then have "fst (run_signups step us s) = session (limit s) (hd us) \<and>
    inv (snd (run_signups step us s)) \<and>
    limit (snd (run_signups step us s)) = limit s \<and>
    ps_number (current (snd (run_signups step us s))) = limit s"
    using Cons.prems by (intro run_session) (auto simp: reads_newest_append)
  then show ?case
    using Cons.prems Cons.IH [of "snd (run_signups step us s)"]
    by (simp add: run_signups_append reads_newest_append case_prod_beta Let_def)
qed simp

text \<open>The first session continues the entry the counter was started with.\<close>

lemma run_from_start:
  assumes "inv s" "limit s > 0" "current s = \<lparr>ps_number = 0, ps_uuid = u0\<rparr>"
    and "list_all (\<lambda>us. list_all utf8_valid us \<and> length us = unat (limit s)) (us # batches)"
    and "reads_newest current step (concat (us # batches)) s"
  shows "fst (run_signups step (concat (us # batches)) s) =
    session (limit s) u0 @ concat (map (\<lambda>us. session (limit s) (hd us)) batches)"
proof -
  have len: "length us = unat (limit s)" using assms(4) by simp
  then have lim: "limit s = of_nat (length us)" by simp
  have newest: "reads_newest current step us s"
    "reads_newest current step (concat batches) (snd (run_signups step us s))"
    using assms(5) by (simp_all add: reads_newest_append)
  have "unat (ps_number (current s)) + length us \<le> unat (limit s)" using assms(3) len by simp
  note run = run_growing [OF assms(1) _ this newest(1)]
  let ?s = "snd (run_signups step us s)"
  have "fst (run_signups step us s) = session (limit s) u0" "inv ?s" "limit ?s = limit s"
    "ps_number (current ?s) = limit s"
    using run assms(3,4) by (simp_all add: session_def lim [symmetric] flip: len)
  then show ?thesis
    using run_sessions [of ?s batches] assms(2,4) newest(2)
    by (simp add: run_signups_append case_prod_beta Let_def)
qed

end

end
