(* ===== verification/Log_Dht.thy ===== *)
theory Log_Dht
  imports Signup
begin

text \<open>
  An instance of the parameters of the server that obeys their laws: the DHT is the log of what
  was put into it, the hash of a key is the key, and the codecs escape the fields of a record.
  The examples of the server evaluate on it. The variant \<open>old_dht\<close> obeys the same laws, but delivers
  the values in the opposite order.
\<close>

section \<open>The log\<close>

type_synonym log = "(string \<times> string) list"

definition log_dht :: "(log, string) dht_lib" where
  "log_dht = \<lparr>put_signed = (\<lambda>d h v _. d @ [(h, v)]), put_encrypted = (\<lambda>d h _ v _. d @ [(h, v)]),
     d_get = (\<lambda>d h. map snd (filter (\<lambda>e. fst e = h) d)), hash_from_bytes = (\<lambda>b. b),
     hash_get = (\<lambda>room. CHR ''#'' # room), hash_from_hex = (\<lambda>s. s)\<rparr>"

lemma log_dht_store: "dht_store log_dht" "no_collisions log_dht"
  by (auto simp: dht_store_def no_collisions_def log_dht_def inj_def)

text \<open>This one happens to deliver the newest value last.\<close>

lemma log_stored_put:
  "utf8_valid v \<Longrightarrow>
   stored log_dht (put_signed log_dht d h v p) h' = (if h = h' then Some v else stored log_dht d h')"
  by (simp add: stored_def log_dht_def from_utf8_or_empty_def)

text \<open>One that delivers the newest value first, which OpenDHT may do as well.\<close>

definition old_dht :: "(log, string) dht_lib" where
  "old_dht = log_dht\<lparr>d_get := (\<lambda>d h. rev (d_get log_dht d h))\<rparr>"

lemma old_dht_store: "dht_store old_dht" "no_collisions old_dht"
  by (auto simp: dht_store_def no_collisions_def old_dht_def log_dht_def inj_def)

lemma old_stored_put:
  "stored old_dht (put_signed old_dht d h v p) h' =
    (if h = h' \<and> stored old_dht d h = None then Some (from_utf8_or_empty v) else stored old_dht d h')"
proof -
  have "hd (map snd (filter (\<lambda>e. fst e = h) (d @ [(h, v)]))) = hd (map snd (filter (\<lambda>e. fst e = h) d))"
    if "filter (\<lambda>e. fst e = h) d \<noteq> []" using that by simp
  then show ?thesis by (auto simp: stored_def old_dht_def log_dht_def last_rev hd_append)
qed

section \<open>The codecs\<close>

fun escape :: "string \<Rightarrow> string" where
  "escape [] = ''0''"
| "escape (c # s) = CHR ''1'' # c # escape s"

definition esc_key :: "tuple_key \<Rightarrow> string option" where
  "esc_key k = Some (escape (key_first k) @ escape (key_second k) @ escape (key_third k) @ escape (key_fourth k))"

definition colon_signup :: "party_signup \<Rightarrow> string option" where
  "colon_signup p = Some (u32_to_string (ps_number p) @ '':'' @ ps_uuid p)"

definition split_colon :: "string \<Rightarrow> (string \<times> string) option" where
  "split_colon s =
     (case dropWhile (\<lambda>c. c \<noteq> CHR '':'') s of [] \<Rightarrow> None
      | _ # rest \<Rightarrow> Some (takeWhile (\<lambda>c. c \<noteq> CHR '':'') s, rest))"

definition parse_colon_signup :: "string \<Rightarrow> party_signup option" where
  "parse_colon_signup s =
     (case split_colon s of None \<Rightarrow> None
      | Some (n, uuid) \<Rightarrow> map_option (\<lambda>n. \<lparr>ps_number = n, ps_uuid = uuid\<rparr>) (parse_u32 n))"

definition parse_colon_params :: "string \<Rightarrow> params option" where
  "parse_colon_params s = map_option (\<lambda>(p, t). \<lparr>pa_parties = p, pa_threshold = t\<rparr>) (split_colon s)"

definition esc_codecs :: codecs where
  "esc_codecs = \<lparr>msgpack_key = esc_key, json_signup = colon_signup,
     parse_signup = parse_colon_signup, parse_params = parse_colon_params\<rparr>"

lemma escape_append_inject: "escape a @ u = escape b @ v \<longleftrightarrow> a = b \<and> u = v"
proof (induction a arbitrary: b)
  case Nil
  then show ?case by (cases b) auto
next
  case (Cons c a)
  then show ?case by (cases b) auto
qed

lemma escape_inject: "escape a = escape b \<longleftrightarrow> a = b"
  using escape_append_inject [of a "[]" b "[]"] by simp

lemma split_colon_append: "CHR '':'' \<notin> set a \<Longrightarrow> split_colon (a @ '':'' @ b) = Some (a, b)"
  by (simp add: split_colon_def dropWhile_append takeWhile_append takeWhile_eq_all_conv)

lemma digit_char_ascii: "d < 10 \<Longrightarrow> in_range 0 127 (digit_char d)"
  by (simp add: in_range_def digit_char_def of_char_of)

lemma nat_to_string_ascii: "\<forall>c\<in>set (nat_to_string n). in_range 0 127 c"
proof (induction n rule: nat_to_string.induct)
  case (1 n)
  then show ?case
    using digit_char_ascii [of n] digit_char_ascii [of "n mod 10"]
    by (cases "n < 10") (auto simp: nat_to_string.simps [of n])
qed

lemma utf8_valid_ascii_append:
  "\<forall>c\<in>set s. in_range 0 127 c \<Longrightarrow> utf8_valid t \<Longrightarrow> utf8_valid (s @ t)"
proof (induction s)
  case (Cons c s)
  then have "utf8_width (c # s @ t) = 1" by simp
  then show ?case using Cons by (subst utf8_valid.simps) simp
qed simp

lemma utf8_u32_to_string [simp]: "utf8_valid (u32_to_string n)"
  by (rule utf8_valid_ascii) (simp add: u32_to_string_def nat_to_string_ascii)

lemma u32_to_string_nonempty [simp]: "u32_to_string n \<noteq> []"
  by (simp add: u32_to_string_def)

lemma parse_colon_signup_text [simp]:
  "parse_colon_signup (u32_to_string n @ CHR '':'' # u) = Some \<lparr>ps_number = n, ps_uuid = u\<rparr>"
  using split_colon_append [of "u32_to_string n" u]
  by (simp add: parse_colon_signup_def u32_to_string_def nat_to_string_no_colon)
    (simp flip: u32_to_string_def)

lemma esc_codec_laws: "codec_laws esc_codecs"
proof -
  have "utf8_valid (u32_to_string (ps_number p) @ '':'' @ ps_uuid p)" if "utf8_valid (ps_uuid p)" for p :: party_signup
  proof (rule utf8_valid_ascii_append)
    show "utf8_valid ('':'' @ ps_uuid p)"
      using that by (rule utf8_valid_ascii_append [rotated]) (simp add: in_range_def)
  qed (simp add: u32_to_string_def nat_to_string_ascii)
  moreover have "parse_colon_signup (u32_to_string (ps_number p) @ '':'' @ ps_uuid p) = Some p" for p :: party_signup
    by simp
  moreover have "inj esc_key"
    by (rule injI) (simp add: esc_key_def escape_append_inject escape_inject)
  ultimately show ?thesis
    by (simp add: codec_laws_def esc_codecs_def colon_signup_def esc_key_def)
qed

section \<open>A fresh server\<close>

definition sample_info :: eos_info where
  "sample_info = \<lparr>ei_id = ''n1'', ei_ips = [''10.0.0.1''], ei_key = ''eos1'', ei_public_key = ''pk1''\<rparr>"

definition fresh_state :: "log api_state" where
  "fresh_state = \<lparr>dht = [], node_info = sample_info, nodes = [], chat_events = [],
     chat_readers_idx = 0, next_buffer = 0,
     api_bitcoin = \<lparr>app = ''bitcoin-cli'', rpcuser = [], rpcpassword = [], rpcport = ''8332'',
       rpcconnect = ''localhost''\<rparr>,
     handler_poisoned = False, eosnode_poisoned = False, nodes_poisoned = False,
     events_poisoned = False\<rparr>"

lemma fresh_ok: "api_ok (log_dht, esc_codecs, fresh_state)"
  by (simp add: api_ok_def log_dht_store esc_codec_laws unlocked_def fresh_state_def)

lemma fresh_held [simp]: "held log_dht (dht fresh_state) h = {}"
  by (simp add: held_def log_dht_def fresh_state_def)

lemma fresh_empty [simp]: "api_values (log_dht, esc_codecs, fresh_state) k = {}"
  by simp

lemma utf8_letters [simp]: "list_all (in_range 0 127) s \<Longrightarrow> utf8_valid s"
  by (rule utf8_valid_ascii) (simp add: list_all_iff)

section \<open>A configuration\<close>

text \<open>Two parties, threshold 1.\<close>

lemma sample_conf:
  "conf_params esc_codecs (Some ''2:1'') = Some \<lparr>pa_parties = ''2'', pa_threshold = ''1''\<rparr>"
  by (simp add: conf_params_def esc_codecs_def parse_colon_params_def split_colon_def)

lemma sample_limits:
  "keygen_limit esc_codecs (Some ''2:1'') = Some 2" "parse_u32 ''1'' = Some 1"
  "sign_limit esc_codecs (Some ''2:1'') = Some 2"
  by (simp_all add: keygen_limit_def sign_limit_def sample_conf parse_u32_def parse_unsigned_def
      digit_val_def)

lemma session_2: "session 2 u = [Some \<lparr>ps_number = 1, ps_uuid = u\<rparr>, Some \<lparr>ps_number = 2, ps_uuid = u\<rparr>]"
  by (simp add: session_def upt_rec)

end
