(* ===== verification/Signup_Correct.thy ===== *)
theory Signup_Correct
  imports Log_Dht
begin

text \<open>
  The sign-up counters implement their interface; what a sequence of sign-ups returns after the
  start of the server and that the counters disturb neither each other nor the board.
\<close>

section \<open>The endpoints as counters\<close>

type_synonym ('d, 'h) signup_world =
  "('d, 'h) dht_lib \<times> codecs \<times> string option \<times> 'd api_state"

text \<open>One request; \<open>None\<close> when it does not answer with an entry.\<close>

definition endpoint_step ::
  "(('d, 'h) dht_lib \<Rightarrow> codecs \<Rightarrow> string option \<Rightarrow> string \<Rightarrow> ('d api_state, unit + party_signup) act) \<Rightarrow>
   string \<Rightarrow> ('d, 'h) signup_world \<Rightarrow> party_signup option \<times> ('d, 'h) signup_world" where
  "endpoint_step ep uuid w =
     (case w of (L, J, conf, s) \<Rightarrow>
        (case ep L J conf uuid s of
           (Some (Inr p), s') \<Rightarrow> (Some p, (L, J, conf, s'))
         | (_, s') \<Rightarrow> (None, (L, J, conf, s'))))"

definition counter_inv ::
  "(codecs \<Rightarrow> string option \<Rightarrow> u32 option) \<Rightarrow> tuple_key \<Rightarrow> ('d, 'h) signup_world \<Rightarrow> bool" where
  "counter_inv lim key w \<longleftrightarrow>
     (case w of (L, J, conf, s) \<Rightarrow>
        api_ok (L, J, s) \<and> lim J conf \<noteq> None \<and> counter_ok L J s key)"

definition counter_limit ::
  "(codecs \<Rightarrow> string option \<Rightarrow> u32 option) \<Rightarrow> ('d, 'h) signup_world \<Rightarrow> u32" where
  "counter_limit lim w = (case w of (L, J, conf, s) \<Rightarrow> the (lim J conf))"

definition counter_current :: "tuple_key \<Rightarrow> ('d, 'h) signup_world \<Rightarrow> party_signup" where
  "counter_current key w = (case w of (L, J, conf, s) \<Rightarrow> the (counter_value L J s key))"

definition counter_all :: "tuple_key \<Rightarrow> ('d, 'h) signup_world \<Rightarrow> party_signup set" where
  "counter_all key w = (case w of (L, J, conf, s) \<Rightarrow> counter_entries L J s key)"

lemma endpoint_counter:
  assumes ep: "\<And>L J conf l. lim J conf = Some l \<Longrightarrow> ep L J conf u = signup_body L J key l u"
    and inv: "counter_inv lim key w" and u: "utf8_valid u"
  shows "counter_inv lim key (snd (endpoint_step ep u w)) \<and>
    counter_limit lim (snd (endpoint_step ep u w)) = counter_limit lim w \<and>
    fst (endpoint_step ep u w) = Some (next_signup (counter_limit lim w) u (counter_current key w)) \<and>
    counter_all key (snd (endpoint_step ep u w)) =
      insert (next_signup (counter_limit lim w) u (counter_current key w)) (counter_all key w)"
proof -
  obtain L J conf s where w: "w = (L, J, conf, s)" by (cases w)
  have laws: "dht_store L" "no_collisions L" "codec_laws J" "unlocked s"
    using inv by (simp_all add: w counter_inv_def api_ok_def)
  obtain l where l: "lim J conf = Some l" using inv by (auto simp: w counter_inv_def)
  obtain prev where prev: "counter_value L J s key = Some prev" "utf8_valid (ps_uuid prev)"
    using inv by (auto simp: w counter_inv_def elim: counter_okE)
  define p where "p = next_signup l u prev"
  define s' where "s' t = s\<lparr>dht := put_signed L (dht s) (key_hash L J s key) t True\<rparr>" for t
  obtain t where t: "signup_body L J key l u s = (Some (Inr p), s' t)"
    "utf8_valid t" "parse_signup J t = Some p"
    using signup_body_ok [OF laws(3,4) prev u p_def] unfolding s'_def by blast
  have p: "utf8_valid (ps_uuid p)" using prev u by (simp add: p_def utf8_next_signup)
  have clean: "counter_clean L J s key" using inv by (simp add: w counter_inv_def counter_ok_def)
  note put = counter_put [OF laws(1-3) t(2) s'_def]
  show ?thesis
    using laws l prev(1) t(1) put(1) [OF t(3)] put(2) [OF t(3) p clean]
    by (simp add: w endpoint_step_def ep counter_inv_def counter_limit_def counter_current_def
        counter_all_def api_ok_def p_def) (simp add: s'_def)
qed

lemma counter_current_all: "counter_inv lim key w \<Longrightarrow> counter_current key w \<in> counter_all key w"
  by (auto simp: counter_inv_def counter_current_def counter_all_def elim!: counter_okE)

interpretation keygen_counter: signup_counter
  "counter_inv keygen_limit keygen_key" "counter_limit keygen_limit" "counter_all keygen_key"
  "counter_current keygen_key" "endpoint_step signup_keygen"
  by unfold_locales
    (simp_all add: endpoint_counter [where ep = signup_keygen, OF signup_keygen_eq] counter_current_all)

interpretation sign_counter: signup_counter
  "counter_inv sign_limit sign_key" "counter_limit sign_limit" "counter_all sign_key"
  "counter_current sign_key" "endpoint_step signup_sign"
  by unfold_locales
    (simp_all add: endpoint_counter [where ep = signup_sign, OF signup_sign_eq] counter_current_all)

section \<open>The start of the server\<close>

lemma keys_differ: "keygen_key \<noteq> sign_key"
  by (simp add: keygen_key_def sign_key_def)

text \<open>Each counter receives one entry, the other keys keep their values.\<close>

lemma server_init_run:
  assumes "codec_laws J" "unlocked s" "utf8_valid uk" "utf8_valid us"
  obtains tk ts where
    "json_signup J \<lparr>ps_number = 0, ps_uuid = uk\<rparr> = Some tk" "utf8_valid tk"
    "parse_signup J tk = Some \<lparr>ps_number = 0, ps_uuid = uk\<rparr>"
    "json_signup J \<lparr>ps_number = 0, ps_uuid = us\<rparr> = Some ts" "utf8_valid ts"
    "parse_signup J ts = Some \<lparr>ps_number = 0, ps_uuid = us\<rparr>"
    "server_init L J uk us s = (Some (), s\<lparr>dht := put_signed L
       (put_signed L (dht s) (key_hash L J s keygen_key) tk True) (key_hash L J s sign_key) ts True\<rparr>)"
proof -
  have free: "\<not> handler_poisoned s" "\<not> eosnode_poisoned s" using assms(2) by (simp_all add: unlocked_def)
  obtain bk bs where b: "msgpack_key J keygen_key = Some bk" "msgpack_key J sign_key = Some bs"
    using assms(1) unfolding codec_laws_def by fastforce
  obtain tk where tk: "json_signup J \<lparr>ps_number = 0, ps_uuid = uk\<rparr> = Some tk" "utf8_valid tk"
    "parse_signup J tk = Some \<lparr>ps_number = 0, ps_uuid = uk\<rparr>"
    using codec_json [OF assms(1), of "\<lparr>ps_number = 0, ps_uuid = uk\<rparr>"] assms(3) by auto
  obtain ts where ts: "json_signup J \<lparr>ps_number = 0, ps_uuid = us\<rparr> = Some ts" "utf8_valid ts"
    "parse_signup J ts = Some \<lparr>ps_number = 0, ps_uuid = us\<rparr>"
    using codec_json [OF assms(1), of "\<lparr>ps_number = 0, ps_uuid = us\<rparr>"] assms(4) by auto
  have "server_init L J uk us s = (Some (), s\<lparr>dht := put_signed L
       (put_signed L (dht s) (key_hash L J s keygen_key) tk True) (key_hash L J s sign_key) ts True\<rparr>)"
    using free b tk(1) ts(1)
    by (simp add: server_init_def with_handler_def and_then_def act_simps_basic done_with_def
        handler_info_eq handler_insert_eq key_hash_def)
  then show thesis using tk ts by (intro that)
qed

lemma server_init_ok:
  assumes "api_ok (L, J, s)" "utf8_valid uk" "utf8_valid us"
    and "counter_clean L J s keygen_key" "counter_clean L J s sign_key"
  obtains s' where "server_init L J uk us s = (Some (), s')" "api_ok (L, J, s')"
    "counter_ok L J s' keygen_key" "counter_ok L J s' sign_key" "s' = s\<lparr>dht := dht s'\<rparr>"
    "counter_entries L J s' keygen_key = insert \<lparr>ps_number = 0, ps_uuid = uk\<rparr> (counter_entries L J s keygen_key)"
    "counter_entries L J s' sign_key = insert \<lparr>ps_number = 0, ps_uuid = us\<rparr> (counter_entries L J s sign_key)"
    "\<forall>k. k \<noteq> keygen_key \<longrightarrow> k \<noteq> sign_key \<longrightarrow> api_values (L, J, s') k = api_values (L, J, s) k"
proof -
  have laws: "dht_store L" "no_collisions L" "codec_laws J" "unlocked s"
    using assms(1) by (simp_all add: api_ok_def)
  obtain tk ts where t: "utf8_valid tk" "parse_signup J tk = Some \<lparr>ps_number = 0, ps_uuid = uk\<rparr>"
    "utf8_valid ts" "parse_signup J ts = Some \<lparr>ps_number = 0, ps_uuid = us\<rparr>"
    "server_init L J uk us s = (Some (), s\<lparr>dht := put_signed L
       (put_signed L (dht s) (key_hash L J s keygen_key) tk True) (key_hash L J s sign_key) ts True\<rparr>)"
    by (rule server_init_run [OF laws(3,4) assms(2,3)])
  define s1 where "s1 = s\<lparr>dht := put_signed L (dht s) (key_hash L J s keygen_key) tk True\<rparr>"
  define s2 where "s2 = s1\<lparr>dht := put_signed L (dht s1) (key_hash L J s1 sign_key) ts True\<rparr>"
  note p1 = counter_put [OF laws(1-3) t(1) s1_def] and p2 = counter_put [OF laws(1-3) t(3) s2_def]
  have "server_init L J uk us s = (Some (), s2)" using t(5) by (simp add: s1_def s2_def)
  moreover have "api_ok (L, J, s2)" using laws by (simp add: api_ok_def s2_def s1_def)
  moreover have "counter_ok L J s2 keygen_key" "counter_ok L J s2 sign_key"
    using p1(2) [OF t(2)] p2(2) [OF t(4)] p1(5) [of sign_key] p2(4) [of keygen_key] assms(2-5) keys_differ
    by simp_all
  moreover have "counter_entries L J s2 keygen_key = insert \<lparr>ps_number = 0, ps_uuid = uk\<rparr> (counter_entries L J s keygen_key)"
    "counter_entries L J s2 sign_key = insert \<lparr>ps_number = 0, ps_uuid = us\<rparr> (counter_entries L J s sign_key)"
    using p1(1) [OF t(2)] p2(1) [OF t(4)] p1(3) [of sign_key] p2(3) [of keygen_key] keys_differ by simp_all
  moreover have "s2 = s\<lparr>dht := dht s2\<rparr>" by (simp add: s2_def s1_def)
  moreover have "\<forall>k. k \<noteq> keygen_key \<longrightarrow> k \<noteq> sign_key \<longrightarrow> api_values (L, J, s2) k = api_values (L, J, s) k"
    using laws t(1,3) by (auto simp: s2_def s1_def held_put key_hash_inject)
  ultimately show thesis by (intro that)
qed

text \<open>Nothing is stored under the key of a counter yet.\<close>

lemma counter_empty:
  "held L (dht s) (key_hash L J s key) = {} \<Longrightarrow> counter_clean L J s key \<and> counter_entries L J s key = {}"
  by (simp add: counter_clean_def counter_entries_def)

lemma signup_start:
  assumes "api_ok (L, J, s)" "utf8_valid uk" "utf8_valid us"
    and "api_values (L, J, s) keygen_key = {}" "api_values (L, J, s) sign_key = {}"
  obtains s' where "server_init L J uk us s = (Some (), s')" "api_ok (L, J, s')"
    "counter_ok L J s' keygen_key" "counter_ok L J s' sign_key"
    "counter_entries L J s' keygen_key = {\<lparr>ps_number = 0, ps_uuid = uk\<rparr>}"
    "counter_entries L J s' sign_key = {\<lparr>ps_number = 0, ps_uuid = us\<rparr>}"
    "counter_value L J s' keygen_key = Some \<lparr>ps_number = 0, ps_uuid = uk\<rparr>"
    "counter_value L J s' sign_key = Some \<lparr>ps_number = 0, ps_uuid = us\<rparr>"
    "\<forall>k. k \<noteq> keygen_key \<longrightarrow> k \<noteq> sign_key \<longrightarrow> api_values (L, J, s') k = api_values (L, J, s) k"
proof -
  have empty: "counter_clean L J s key \<and> counter_entries L J s key = {}" if "key \<in> {keygen_key, sign_key}" for key
    using that assms(4,5) by (intro counter_empty) auto
  obtain s' where s': "server_init L J uk us s = (Some (), s')" "api_ok (L, J, s')"
    "counter_ok L J s' keygen_key" "counter_ok L J s' sign_key"
    "counter_entries L J s' keygen_key = {\<lparr>ps_number = 0, ps_uuid = uk\<rparr>}"
    "counter_entries L J s' sign_key = {\<lparr>ps_number = 0, ps_uuid = us\<rparr>}"
    "\<forall>k. k \<noteq> keygen_key \<longrightarrow> k \<noteq> sign_key \<longrightarrow> api_values (L, J, s') k = api_values (L, J, s) k"
    using server_init_ok [OF assms(1-3)] empty by (metis insertI1 insertI2)
  have "counter_value L J s' key = Some p" if "counter_ok L J s' key" "counter_entries L J s' key = {p}" for key p
    using that by (auto elim!: counter_okE)
  then show thesis using s' by (intro that)
qed

text \<open>C25: Whatever the order in which the DHT delivers the entries of the counter, after the start of the
  server every key-generation sign-up is answered, with an entry that continues one that was handed
  out before, or the one of the start, or with number 1 of a new session: its number is between 1
  and the limit, and its identifier is the one of the start or one that a sign-up drew.\<close>

theorem keygen_signups_any_order:
  assumes "api_ok (L, J, s)" "utf8_valid uk" "utf8_valid us"
    and "api_values (L, J, s) keygen_key = {}" "api_values (L, J, s) sign_key = {}"
    and "keygen_limit J conf = Some parties" "list_all utf8_valid uuids"
    and "replies = fst (run_signups (endpoint_step signup_keygen) uuids
      (L, J, conf, snd (server_init L J uk us s)))"
  shows "signups_from parties {\<lparr>ps_number = 0, ps_uuid = uk\<rparr>} uuids replies \<and>
    (\<forall>r\<in>set replies. \<exists>p. r = Some p \<and> 1 \<le> unat (ps_number p) \<and>
       unat (ps_number p) \<le> max 1 (unat parties) \<and> ps_uuid p \<in> insert uk (set uuids))"
proof -
  obtain s' where s': "server_init L J uk us s = (Some (), s')" "api_ok (L, J, s')"
    "counter_ok L J s' keygen_key" "counter_entries L J s' keygen_key = {\<lparr>ps_number = 0, ps_uuid = uk\<rparr>}"
    by (rule signup_start [OF assms(1-5)])
  have "counter_inv keygen_limit keygen_key (L, J, conf, s')" using s' assms(6) by (simp add: counter_inv_def)
  from keygen_counter.run_any_order [OF this assms(7)] have
    all: "signups_from parties {\<lparr>ps_number = 0, ps_uuid = uk\<rparr>} uuids replies"
    using s' assms(6,8) by (simp add: counter_limit_def counter_all_def)
  have "\<exists>p. r = Some p \<and> 1 \<le> unat (ps_number p) \<and> unat (ps_number p) \<le> max 1 (unat parties)"
    if "r \<in> set replies" for r
    using signups_from_numbers [OF all that] by blast
  with all signups_from_uuids [OF all] show ?thesis by fastforce
qed

theorem keygen_signups_any_order_witness:
  "\<exists>r1 r2. fst (run_signups (endpoint_step signup_keygen) [''a'', ''b'']
      (old_dht, esc_codecs, Some ''2:1'', snd (server_init old_dht esc_codecs ''k'' ''s'' fresh_state))) =
    [Some r1, Some r2] \<and> ps_uuid r2 \<in> {''k'', ''a'', ''b''}"
proof -
  define rs where "rs = fst (run_signups (endpoint_step signup_keygen) [''a'', ''b'']
      (old_dht, esc_codecs, Some ''2:1'', snd (server_init old_dht esc_codecs ''k'' ''s'' fresh_state)))"
  have empty: "api_values (old_dht, esc_codecs, fresh_state) k = {}" for k
    by (simp add: held_def old_dht_def log_dht_def fresh_state_def)
  have ok: "api_ok (old_dht, esc_codecs, fresh_state)"
    using fresh_ok by (simp add: api_ok_def old_dht_store)
  from keygen_signups_any_order [OF ok _ _ empty empty sample_limits(1) _ rs_def]
  have "signups_from 2 {\<lparr>ps_number = 0, ps_uuid = ''k''\<rparr>} [''a'', ''b''] rs"
    "\<forall>r\<in>set rs. \<exists>p. r = Some p \<and> ps_uuid p \<in> {''k'', ''a'', ''b''}"
    by (auto simp: in_range_def)
  then show ?thesis
    unfolding rs_def [symmetric] by (cases rs; cases "tl rs") auto
qed




text \<open>C27: The counter needs that order: at a DHT that delivers the newest value first, which obeys the
  documented laws, too, every key-generation sign-up reads the entry of the start, so that all
  parties receive number 1 and the identifier of the first session.\<close>

theorem stale_counter_duplicates:
  assumes "codec_laws J" "unlocked s" "dht s = []" "utf8_valid uk" "utf8_valid us"
    and "keygen_limit J conf = Some parties" "parties > 0" "list_all utf8_valid uuids"
  shows "dht_store old_dht \<and> no_collisions old_dht \<and>
    fst (run_signups (endpoint_step signup_keygen) uuids
      (old_dht, J, conf, snd (server_init old_dht J uk us s))) =
    replicate (length uuids) (Some \<lparr>ps_number = 1, ps_uuid = uk\<rparr>)"
proof -
  have reads: "fst (run_signups (endpoint_step signup_keygen) uuids (old_dht, J, conf, s')) =
      replicate (length uuids) (Some \<lparr>ps_number = 1, ps_uuid = uk\<rparr>)"
    if "unlocked s'" "counter_value old_dht J s' keygen_key = Some \<lparr>ps_number = 0, ps_uuid = uk\<rparr>" for s'
    using assms(8) that
  proof (induction uuids arbitrary: s')
    case (Cons u uuids)
    have p: "next_signup parties u \<lparr>ps_number = 0, ps_uuid = uk\<rparr> = \<lparr>ps_number = 1, ps_uuid = uk\<rparr>"
      using assms(7) by (simp add: next_signup_def)
    have u: "utf8_valid u" using Cons.prems(1) by simp
    obtain t where t: "signup_body old_dht J keygen_key parties u s' = (Some (Inr \<lparr>ps_number = 1, ps_uuid = uk\<rparr>),
        s'\<lparr>dht := put_signed old_dht (dht s') (key_hash old_dht J s' keygen_key) t True\<rparr>)"
      using signup_body_ok [OF assms(1) Cons.prems(2,3) _ u refl, of parties] assms(4) by (auto simp: p)
    let ?s = "s'\<lparr>dht := put_signed old_dht (dht s') (key_hash old_dht J s' keygen_key) t True\<rparr>"
    have "counter_value old_dht J ?s keygen_key = Some \<lparr>ps_number = 0, ps_uuid = uk\<rparr>"
      using Cons.prems(3) by (auto simp: counter_value_def old_stored_put split: option.splits)
    with Cons.IH [of ?s] Cons.prems t show ?case
      by (simp add: endpoint_step_def signup_keygen_eq [OF assms(6)] case_prod_beta Let_def)
  qed simp
  obtain tk ts where t: "utf8_valid tk" "parse_signup J tk = Some \<lparr>ps_number = 0, ps_uuid = uk\<rparr>"
    "server_init old_dht J uk us s = (Some (), s\<lparr>dht := put_signed old_dht
       (put_signed old_dht (dht s) (key_hash old_dht J s keygen_key) tk True) (key_hash old_dht J s sign_key) ts True\<rparr>)"
    by (rule server_init_run [OF assms(1,2,4,5)])
  have "stored old_dht (dht s) h = None" for h by (simp add: stored_def assms(3) old_dht_def log_dht_def)
  moreover have "key_hash old_dht J s sign_key \<noteq> key_hash old_dht J s keygen_key"
    using keys_differ key_hash_inject [OF old_dht_store(2) assms(1)] by metis
  ultimately have "counter_value old_dht J (snd (server_init old_dht J uk us s)) keygen_key =
      Some \<lparr>ps_number = 0, ps_uuid = uk\<rparr>"
    using t(1,2) by (simp add: t(3) counter_value_def old_stored_put from_utf8_or_empty_def)
  with reads [of "snd (server_init old_dht J uk us s)"] old_dht_store assms(2) show ?thesis by (simp add: t(3))
qed

theorem stale_counter_duplicates_witness:
  "fst (run_signups (endpoint_step signup_keygen) [''a'', ''b'']
      (old_dht, esc_codecs, Some ''2:1'', snd (server_init old_dht esc_codecs ''k'' ''s'' fresh_state))) =
    [Some \<lparr>ps_number = 1, ps_uuid = ''k''\<rparr>, Some \<lparr>ps_number = 1, ps_uuid = ''k''\<rparr>]"
proof -
  have "unlocked fresh_state" "dht fresh_state = []" by (simp_all add: unlocked_def fresh_state_def)
  from stale_counter_duplicates [OF esc_codec_laws this _ _ sample_limits(1), of "''k''" "''s''" "[''a'', ''b'']"]
  show ?thesis by (simp add: in_range_def)
qed

end
