(* ===== verification/Availability.thy ===== *)
theory Availability
  imports Signup_Correct
begin

text \<open>
  When the server answers: an invariant under which every well-behaved request of
  \<open>src/vDexNode/api/src/server.rs\<close> is answered and which all of them keep, and the requests and
  announcements that break it. A panic while a lock is held poisons the lock, and every later
  request panics at \<open>lock().unwrap()\<close>.
\<close>

section \<open>The invariant\<close>

definition server_ok :: "('d, 'h) dht_lib \<Rightarrow> codecs \<Rightarrow> 'd api_state \<Rightarrow> bool" where
  "server_ok L J s \<longleftrightarrow>
     api_ok (L, J, s) \<and> \<not> nodes_poisoned s \<and> \<not> events_poisoned s \<and>
     counter_ok L J s keygen_key \<and> counter_ok L J s sign_key \<and>
     list_all (\<lambda>(_, n). ei_ips n \<noteq> []) (nodes s)"

text \<open>An encrypted value, too, is stored under its own hash only.\<close>

definition encrypted_local :: "('d, 'h) dht_lib \<Rightarrow> bool" where
  "encrypted_local L \<longleftrightarrow>
     (\<forall>d h h' to v p. h \<noteq> h' \<longrightarrow> set (d_get L (put_encrypted L d h to v p) h') = set (d_get L d h'))"

definition counter_hashes :: "('d, 'h) dht_lib \<Rightarrow> codecs \<Rightarrow> 'd api_state \<Rightarrow> 'h list" where
  "counter_hashes L J s = [key_hash L J s keygen_key, key_hash L J s sign_key]"

text \<open>Requests that do not write over the counters; sign-ups find a readable configuration.\<close>

fun benign :: "('d, 'h) dht_lib \<Rightarrow> codecs \<Rightarrow> env \<Rightarrow> 'd api_state \<Rightarrow> request \<Rightarrow> bool" where
  "benign L J E s (Req_Set e) = (en_key e \<notin> {keygen_key, sign_key})"
| "benign L J E s (Req_SignupKeygen conf u) = (keygen_limit J conf \<noteq> None \<and> utf8_valid u)"
| "benign L J E s (Req_SignupSign conf u) = (sign_limit J conf \<noteq> None \<and> utf8_valid u)"
| "benign L J E s (Req_PutMsg raw m) =
     (hash_get L (url_decoded (env_decode E) raw) \<notin> set (counter_hashes L J s))"
| "benign L J E s (Req_PutEncrypted raw u m) =
     (hash_get L (url_decoded (env_decode E) raw) \<notin> set (counter_hashes L J s))"
| "benign L J E s _ = True"

section \<open>Every benign request is answered\<close>

lemma held_other:
  "dht_store L \<Longrightarrow> h \<noteq> h' \<Longrightarrow> held L (put_signed L d h v p) h' = held L d h'"
  "encrypted_local L \<Longrightarrow> h \<noteq> h' \<Longrightarrow> held L (put_encrypted L d h to v p) h' = held L d h'"
  by (simp_all add: held_def dht_store_def encrypted_local_def)

lemma counter_ok_cong:
  assumes "node_info s' = node_info s"
    and "held L (dht s') (key_hash L J s key) = held L (dht s) (key_hash L J s key)"
  shows "counter_ok L J s' key = counter_ok L J s key"
proof -
  have "key_hash L J s' key = key_hash L J s key" using assms(1) by (simp add: key_hash_def)
  then show ?thesis using assms(2) by (simp add: counter_ok_def counter_clean_def)
qed

text \<open>What a request may change without touching the invariant.\<close>

lemma server_ok_frame:
  assumes "server_ok L J s" "node_info s' = node_info s" "nodes s' = nodes s"
    and "handler_poisoned s' = handler_poisoned s" "eosnode_poisoned s' = eosnode_poisoned s"
    and "nodes_poisoned s' = nodes_poisoned s" "events_poisoned s' = events_poisoned s"
    and "\<And>h. h \<in> set (counter_hashes L J s) \<Longrightarrow> held L (dht s') h = held L (dht s) h"
  shows "server_ok L J s'"
proof -
  have "counter_ok L J s' key = counter_ok L J s key" if "key \<in> {keygen_key, sign_key}" for key
    using that assms(2,8) by (intro counter_ok_cong) (auto simp: counter_hashes_def)
  then show ?thesis
    using assms(1,3-7) by (simp add: server_ok_def api_ok_def unlocked_def)
qed

definition answers ::
  "('d, 'h) dht_lib \<Rightarrow> codecs \<Rightarrow> ('d api_state, 'a) act \<Rightarrow> 'd api_state \<Rightarrow> bool" where
  "answers L J m s \<longleftrightarrow> (\<exists>a s'. m s = (Some a, s') \<and> server_ok L J s' \<and> node_info s' = node_info s)"

lemma answersI: "m s = (Some a, s') \<Longrightarrow> server_ok L J s' \<Longrightarrow> node_info s' = node_info s \<Longrightarrow> answers L J m s"
  by (auto simp: answers_def)

lemma answers_discard: "answers L J m s \<Longrightarrow> answers L J (discard m) s"
  by (auto simp: answers_def discard_def and_then_def done_with_def)

lemma server_ok_locks:
  assumes "server_ok L J s"
  shows "\<not> handler_poisoned s" "\<not> eosnode_poisoned s" "\<not> nodes_poisoned s" "\<not> events_poisoned s"
    "unlocked s" "codec_laws J" "dht_store L" "no_collisions L"
  using assms by (simp_all add: server_ok_def api_ok_def unlocked_def)

lemma answers_set:
  assumes "server_ok L J s" "en_key e \<notin> {keygen_key, sign_key}"
  shows "answers L J (set_endpoint L J e) s"
proof (rule answersI)
  note ok = server_ok_locks [OF assms(1)]
  let ?s = "s\<lparr>dht := put_signed L (dht s) (key_hash L J s (en_key e)) (en_value e) True\<rparr>"
  show "set_endpoint L J e s = (Some (Inr ()), ?s)" using ok by (simp add: set_endpoint_eq)
  show "server_ok L J ?s"
    using assms ok
    by (intro server_ok_frame [OF assms(1)])
      (auto simp: counter_hashes_def key_hash_inject intro!: held_other)
qed simp

lemma answers_signup:
  assumes "server_ok L J s" "key \<in> {keygen_key, sign_key}" "utf8_valid u"
  shows "answers L J (signup_body L J key lim u) s"
proof -
  note ok = server_ok_locks [OF assms(1)]
  obtain prev where prev: "counter_value L J s key = Some prev" "utf8_valid (ps_uuid prev)"
    using assms by (auto simp: server_ok_def elim: counter_okE)
  define p where "p = next_signup lim u prev"
  define s' where "s' t = s\<lparr>dht := put_signed L (dht s) (key_hash L J s key) t True\<rparr>" for t
  obtain t where t: "signup_body L J key lim u s = (Some (Inr p), s' t)"
    "utf8_valid t" "parse_signup J t = Some p"
    using signup_body_ok [OF ok(6,5) prev assms(3) p_def] unfolding s'_def by blast
  have "utf8_valid (ps_uuid p)" using prev assms(3) by (simp add: p_def utf8_next_signup)
  note put = counter_put [OF ok(7,8,6) t(2) s'_def]
  have "counter_ok L J (s' t) key'" if "key' \<in> {keygen_key, sign_key}" for key'
    using that assms(1,2) put(2) [OF t(3) \<open>utf8_valid (ps_uuid p)\<close>] put(4) [of key']
    by (cases "key' = key") (auto simp: server_ok_def counter_ok_def)
  then have "server_ok L J (s' t)"
    using assms(1) ok by (simp add: server_ok_def api_ok_def) (simp add: s'_def)
  with t(1) show ?thesis by (rule answersI) (simp add: s'_def)
qed

lemma answers_queries:
  assumes "server_ok L J s"
  shows "answers L J connected_nodes s" "answers L J connected_ips s"
    "answers L J (nodes_location locate fetch) s" "answers L J node_infos s"
    "answers L J (country decode fetch ip) s" "answers L J (with_bitcoin call) s"
    "answers L J (get_endpoint L J i) s"
proof -
  note ok = server_ok_locks [OF assms]
  have "connected_ips_loop (nodes s) Map.empty \<noteq> None"
    using assms by (auto simp: connected_ips_loop_panics server_ok_def list_all_iff)
  then obtain m where ips: "connected_ips_loop (nodes s) Map.empty = Some m" by blast
  show "answers L J connected_nodes s" "answers L J connected_ips s"
    "answers L J (nodes_location locate fetch) s" "answers L J node_infos s"
    "answers L J (country decode fetch ip) s" "answers L J (with_bitcoin call) s"
    using ok assms ips
    by (simp_all add: answers_def connected_nodes_def connected_ips_def nodes_location_def
        node_infos_def country_def with_bitcoin_def with_handler_def with_eosnode_def
        with_nodes_def and_then_def done_with_def get_connected_nodes_def get_connected_ips_def
        get_nodes_location_def handler_info_def)
  show "answers L J (get_endpoint L J i) s"
    using ok assms by (intro answersI [OF get_endpoint_eq]) simp_all
qed

lemma answers_chat:
  assumes "server_ok L J s" "encrypted_local L"
    and "hash_get L (url_decoded decode raw) \<notin> set (counter_hashes L J s)"
  shows "answers L J (put_msg L decode raw m) s" "answers L J (put_encrypted_msg L decode raw user m) s"
proof -
  note ok = server_ok_locks [OF assms(1)]
  have "server_ok L J (s\<lparr>dht := put_signed L (dht s) (hash_get L (url_decoded decode raw)) m False\<rparr>)"
    using assms ok by (intro server_ok_frame [OF assms(1)]) (auto intro!: held_other)
  then show "answers L J (put_msg L decode raw m) s"
    using ok assms(1)
    by (auto simp: answers_def put_msg_def with_handler_def Let_def done_with_def and_then_def
        handler_send_def with_eosnode_def)
  have "server_ok L J (s\<lparr>dht := put_encrypted L (dht s) (hash_get L (url_decoded decode raw))
      (hash_from_hex L (url_decoded decode user)) m False\<rparr>)"
    using assms ok by (intro server_ok_frame [OF assms(1)]) (auto intro!: held_other)
  then show "answers L J (put_encrypted_msg L decode raw user m) s"
    using ok assms(1)
    by (auto simp: answers_def put_encrypted_msg_def with_handler_def Let_def done_with_def
        and_then_def handler_send_to_user_def with_eosnode_def)
qed

lemma answers_stream:
  assumes "server_ok L J s"
  shows "answers L J (stream_endpoint decode raw) s"
proof -
  note ok = server_ok_locks [OF assms]
  have "server_ok L J (s\<lparr>chat_readers_idx := i, next_buffer := n, chat_events := es\<rparr>)" for i n es
    by (rule server_ok_frame [OF assms]) simp_all
  then show ?thesis
    using ok assms
    by (auto simp: answers_def stream_endpoint_def with_handler_def Let_def done_with_def
        and_then_def handler_join_def chat_reader_new_def with_events_def)
qed

lemma answers_dispatch:
  assumes "server_ok L J s" "encrypted_local L" "benign L J E s q"
  shows "answers L J (dispatch L J E q) s"
proof (cases q)
  case (Req_SignupKeygen conf u)
  then obtain lim where "keygen_limit J conf = Some lim" "utf8_valid u" using assms(3) by auto
  then show ?thesis
    using Req_SignupKeygen assms(1)
    by (auto simp: dispatch_def signup_keygen_eq intro!: answers_discard answers_signup)
next
  case (Req_SignupSign conf u)
  then obtain lim where "sign_limit J conf = Some lim" "utf8_valid u" using assms(3) by auto
  then show ?thesis
    using Req_SignupSign assms(1)
    by (auto simp: dispatch_def signup_sign_eq intro!: answers_discard answers_signup)
qed (use assms in \<open>auto simp: dispatch_def ep_getnewaddress_def ep_dumpprivkey_def
  ep_getbalance_def ep_addmultisigaddress_def ep_createmultisig_def ep_gettransaction_def
  ep_sendtoaddress_def ep_signmessage_def
  intro!: answers_discard answers_queries answers_set answers_chat answers_stream\<close>)

text \<open>A world for the examples.\<close>

definition sample_env :: env where
  "sample_env = \<lparr>env_decode = Some, env_multisig = (\<lambda>_. None), env_locate = (\<lambda>_. None),
     env_fetch = (\<lambda>_. None), env_run = (\<lambda>_ _. Not_Started ''no such file'')\<rparr>"

section \<open>What breaks it\<close>

lemma dispatch_poisoned:
  assumes "handler_poisoned s"
  shows "dispatch L J E q s = (None, s)"
  using assms
  by (auto simp: dispatch_def discard_def and_then_def with_handler_def with_bitcoin_def
      set_endpoint_def get_endpoint_def signup_keygen_def signup_sign_def signup_body_def
      connected_nodes_def connected_ips_def nodes_location_def country_def node_infos_def
      stream_endpoint_def put_msg_def put_encrypted_msg_def ep_getnewaddress_def ep_dumpprivkey_def
      ep_getbalance_def ep_addmultisigaddress_def ep_createmultisig_def ep_gettransaction_def
      ep_sendtoaddress_def ep_signmessage_def unwrap_def panic_def done_with_def
      split: request.split option.split)

lemma serve_poisoned:
  "handler_poisoned s \<Longrightarrow> serve L J E qs s = (replicate (length qs) False, s)"
  by (induction qs) (simp_all add: dispatch_poisoned)

text \<open>C28: One \<open>/set\<close> on the key of the sign-up counter with a value that is no entry can take the whole
  server down: the write is answered, from then on the value is among those that the DHT delivers
  for this key, and if it is the last one delivered to the next key-generation sign-up, that sign-up
  panics while it holds the lock of the handler, and after that every request of any kind fails
  and nothing changes.\<close>

theorem board_write_disables_server:
  assumes "api_ok (L, J, s)" "utf8_valid v" "parse_signup J v = None" "keygen_limit J conf = Some n"
  shows "v \<in> api_values (api_put (L, J, s) keygen_key v) keygen_key \<and>
    (api_look (api_put (L, J, s) keygen_key v) keygen_key = Some v \<longrightarrow>
       fst (serve L J E
         (Req_Set \<lparr>en_key = keygen_key, en_value = v\<rparr> # Req_SignupKeygen conf uuid # qs) s) =
       True # False # replicate (length qs) False)"
proof
  have laws: "dht_store L" "no_collisions L" "codec_laws J" "unlocked s"
    using assms(1) by (simp_all add: api_ok_def)
  show "v \<in> api_values (api_put (L, J, s) keygen_key v) keygen_key"
    using board.vals_put [OF assms(1,2)] by simp
  let ?s = "s\<lparr>dht := put_signed L (dht s) (key_hash L J s keygen_key) v True\<rparr>"
  show "api_look (api_put (L, J, s) keygen_key v) keygen_key = Some v \<longrightarrow>
      fst (serve L J E (Req_Set \<lparr>en_key = keygen_key, en_value = v\<rparr> # Req_SignupKeygen conf uuid # qs) s) =
      True # False # replicate (length qs) False"
  proof
    assume "api_look (api_put (L, J, s) keygen_key v) keygen_key = Some v"
    then have "counter_value L J ?s keygen_key = None"
      using laws assms(3) by (simp add: api_put_eq api_look_eq counter_value_def)
    then have "signup_body L J keygen_key n uuid ?s = (None, ?s\<lparr>handler_poisoned := True\<rparr>)"
      using laws by (intro signup_body_panics) simp_all
    then show "fst (serve L J E
        (Req_Set \<lparr>en_key = keygen_key, en_value = v\<rparr> # Req_SignupKeygen conf uuid # qs) s) =
        True # False # replicate (length qs) False"
      using laws assms(4)
      by (simp add: dispatch_def discard_def and_then_def done_with_def set_endpoint_eq
          signup_keygen_eq serve_poisoned)
  qed
qed

theorem board_write_disables_server_witness:
  "fst (serve log_dht esc_codecs sample_env
      [Req_Set \<lparr>en_key = keygen_key, en_value = ''x''\<rparr>, Req_SignupKeygen (Some ''2:1'') ''u'',
       Req_NodeInfos, Req_GetBalance] fresh_state) = [True, False, False, False]"
proof -
  have "parse_signup esc_codecs ''x'' = None"
    by (simp add: esc_codecs_def parse_colon_signup_def split_colon_def)
  moreover have "api_look (api_put (log_dht, esc_codecs, fresh_state) keygen_key ''x'') keygen_key = Some ''x''"
    using board.vals_put [OF fresh_ok, of "''x''"] board.inv_put [OF fresh_ok, of "''x''"]
    by (intro api_look_values(3)) (simp_all add: in_range_def)
  ultimately show ?thesis
    using board_write_disables_server [OF fresh_ok _ _ sample_limits(1), of "''x''" sample_env "''u''"
      "[Req_NodeInfos, Req_GetBalance]"]
    by (simp add: in_range_def)
qed

lemma observe_snoc_member:
  "decode v = Some node \<Longrightarrow> (ei_id node, node) \<in> set (observe decode (vs @ [(v, False)]))"
proof -
  assume "decode v = Some node"
  then have "map_of (observe decode (vs @ [(v, False)])) (ei_id node) = Some node"
    by (simp add: observe_snoc map_of_value_cb)
  then show ?thesis by (rule map_of_SomeD)
qed

text \<open>C29: One announcement on the DHT without an address does the same: as long as it is in the table,
  a request for the connected addresses panics with three locks held, and every later request
  fails.\<close>

theorem empty_announcement_disables_server:
  assumes "unlocked s" "\<not> nodes_poisoned s"
    and "nodes s = observe decode (vs @ [(v, False)])" "decode v = Some node" "ei_ips node = []"
  shows "serve L J E (Req_ConnectedIPs # qs) s =
    (False # replicate (length qs) False,
     s\<lparr>handler_poisoned := True, eosnode_poisoned := True, nodes_poisoned := True\<rparr>)"
proof -
  have "connected_ips_loop (nodes s) Map.empty = None"
    using observe_snoc_member [of decode v node vs, OF assms(4)] assms(3,5)
    by (auto simp: connected_ips_loop_panics)
  then have "connected_ips s =
      (None, s\<lparr>handler_poisoned := True, eosnode_poisoned := True, nodes_poisoned := True\<rparr>)"
    using assms(1,2)
    by (simp add: connected_ips_def with_handler_def and_then_def get_connected_ips_def
        with_eosnode_def with_nodes_def unlocked_def)
  then show ?thesis
    by (simp add: dispatch_def discard_def and_then_def serve_poisoned)
qed

text \<open>A decoder that knows two announcements, the second without an address.\<close>

definition sample_decode :: "string \<Rightarrow> eos_info option" where
  "sample_decode v =
     (if v = ''a'' then Some sample_info
      else if v = ''b'' then Some (sample_info\<lparr>ei_id := ''n2'', ei_ips := []\<rparr>) else None)"

theorem empty_announcement_disables_server_witness:
  "fst (serve log_dht esc_codecs sample_env [Req_ConnectedIPs, Req_NodeInfos]
      (fresh_state\<lparr>nodes := observe sample_decode [(''a'', False), (''b'', False)]\<rparr>)) = [False, False]"
  using empty_announcement_disables_server
    [of "fresh_state\<lparr>nodes := observe sample_decode [(''a'', False), (''b'', False)]\<rparr>"
      sample_decode "[(''a'', False)]" "''b''" "sample_info\<lparr>ei_id := ''n2'', ei_ips := []\<rparr>"
      log_dht esc_codecs sample_env "[Req_NodeInfos]"]
  by (simp add: unlocked_def fresh_state_def sample_decode_def)

text \<open>C35: The list of connected nodes is the node table: after any announcements every known node
  is there with its key, no other one is, and the only extra entry is the status.\<close>

theorem connected_nodes_exact:
  assumes "unlocked s" "\<not> nodes_poisoned s" "nodes s = observe decode vs"
  shows "connected_nodes s =
    (Some ((\<lambda>i. map_option ei_key (last_announced decode (rev vs) i))(''Result'' \<mapsto> ''Success'')), s)"
proof -
  have "distinct (map fst (nodes s))" using assms(3) by (simp add: distinct_observe)
  moreover have "map_of (nodes s) = last_announced decode (rev vs)"
    using assms(3) by (simp add: map_of_observe fun_eq_iff)
  ultimately show ?thesis
    using assms(1,2)
    by (simp add: connected_nodes_def with_handler_def and_then_def get_connected_nodes_def
        with_eosnode_def with_nodes_def unlocked_def done_with_def fold_connected comp_def)
qed

theorem connected_nodes_exact_witness:
  "connected_nodes (fresh_state\<lparr>nodes := observe sample_decode [(''a'', False)]\<rparr>) =
    (Some [''n1'' \<mapsto> ''eos1'', ''Result'' \<mapsto> ''Success''],
     fresh_state\<lparr>nodes := observe sample_decode [(''a'', False)]\<rparr>)"
  using connected_nodes_exact
    [of "fresh_state\<lparr>nodes := observe sample_decode [(''a'', False)]\<rparr>" sample_decode "[(''a'', False)]"]
  by (simp add: unlocked_def fresh_state_def sample_decode_def sample_info_def fun_eq_iff)

end
