(* ===== verification/Board_Spec.thy ===== *)
theory Board_Spec
  imports Availability
begin

text \<open>
  What the four routes of the two programs promise (\<open>/set\<close>, \<open>/get\<close>, \<open>/signupkeygen\<close> and
  \<open>/signupsign\<close> of \<open>src/vDexNode/api/src/server.rs\<close>), as an abstract machine: for every key the set of
  the values put under it, and a flag that says whether the server still answers. The machine is a
  step relation, since a read may return any of the values. The routes, with the DHT, the salted
  hashes and the locks below them, implement this machine step by step, on bad input as well.
\<close>

section \<open>The abstract machine\<close>

record spec =
  sp_vals :: "tuple_key \<Rightarrow> string set"
  sp_up :: bool

definition sp_add :: "tuple_key \<Rightarrow> string \<Rightarrow> spec \<Rightarrow> spec" where
  "sp_add k v sp = sp\<lparr>sp_vals := (sp_vals sp)(k := insert v (sp_vals sp k))\<rparr>"

datatype board_call =
    Call_Set entry
  | Call_Get index
  | Call_Keygen "string option" string
  | Call_Sign "string option" string

datatype reply = Reply_Set | Reply_Get "string option" | Reply_Signup party_signup

text \<open>The counter, the limit read from the configuration and the fresh UUID of a sign-up.\<close>

fun signup_call :: "codecs \<Rightarrow> board_call \<Rightarrow> (tuple_key \<times> u32 option \<times> string) option" where
  "signup_call J (Call_Keygen conf uuid) = Some (keygen_key, keygen_limit J conf, uuid)"
| "signup_call J (Call_Sign conf uuid) = Some (sign_key, sign_limit J conf, uuid)"
| "signup_call J _ = None"

text \<open>A server that is down answers nothing. A sign-up reads one of the entries at the key of its counter
  and adds the next one. When there is no entry, or the one that is read cannot be parsed, the server
  is down from then on; when the limit cannot be read from the configuration, only this request
  fails.\<close>

inductive spec_step :: "codecs \<Rightarrow> spec \<Rightarrow> board_call \<Rightarrow> reply option \<Rightarrow> spec \<Rightarrow> bool" for J where
  sp_down: "\<not> sp_up sp \<Longrightarrow> spec_step J sp c None sp"
| sp_set: "sp_up sp \<Longrightarrow> spec_step J sp (Call_Set e) (Some Reply_Set) (sp_add (en_key e) (en_value e) sp)"
| sp_get_none: "sp_up sp \<Longrightarrow> sp_vals sp (ix_key i) = {} \<Longrightarrow>
    spec_step J sp (Call_Get i) (Some (Reply_Get None)) sp"
| sp_get: "sp_up sp \<Longrightarrow> v \<in> sp_vals sp (ix_key i) \<Longrightarrow>
    spec_step J sp (Call_Get i) (Some (Reply_Get (Some v))) sp"
| sp_no_limit: "signup_call J c = Some (key, None, uuid) \<Longrightarrow> spec_step J sp c None sp"
| sp_no_entry: "sp_up sp \<Longrightarrow> signup_call J c = Some (key, Some lim, uuid) \<Longrightarrow> sp_vals sp key = {} \<Longrightarrow>
    spec_step J sp c None (sp\<lparr>sp_up := False\<rparr>)"
| sp_bad_entry: "sp_up sp \<Longrightarrow> signup_call J c = Some (key, Some lim, uuid) \<Longrightarrow> v \<in> sp_vals sp key \<Longrightarrow>
    parse_signup J v = None \<Longrightarrow> spec_step J sp c None (sp\<lparr>sp_up := False\<rparr>)"
| sp_signup: "sp_up sp \<Longrightarrow> signup_call J c = Some (key, Some lim, uuid) \<Longrightarrow> v \<in> sp_vals sp key \<Longrightarrow>
    parse_signup J v = Some prev \<Longrightarrow> json_signup J (next_signup lim uuid prev) = Some t \<Longrightarrow>
    spec_step J sp c (Some (Reply_Signup (next_signup lim uuid prev))) (sp_add key t sp)"

inductive_cases spec_setE: "spec_step J sp (Call_Set e) r sp'"
inductive_cases spec_getE: "spec_step J sp (Call_Get i) r sp'"
inductive_cases spec_signE: "spec_step J sp (Call_Sign conf uuid) r sp'"

inductive spec_run :: "codecs \<Rightarrow> spec \<Rightarrow> board_call list \<Rightarrow> reply option list \<Rightarrow> spec \<Rightarrow> bool" for J where
  run_nil: "spec_run J sp [] [] sp"
| run_cons: "spec_step J sp c r sp' \<Longrightarrow> spec_run J sp' cs rs sp'' \<Longrightarrow> spec_run J sp (c # cs) (r # rs) sp''"

inductive_cases spec_run_nilE: "spec_run J sp [] rs sp'"
inductive_cases spec_run_consE: "spec_run J sp (c # cs) rs sp'"

fun run_calls :: "('c \<Rightarrow> 's \<Rightarrow> 'r \<times> 's) \<Rightarrow> 'c list \<Rightarrow> 's \<Rightarrow> 'r list \<times> 's" where
  "run_calls step [] s = ([], s)"
| "run_calls step (c # cs) s =
     (let (r, s') = step c s; (rs, s'') = run_calls step cs s' in (r # rs, s''))"

section \<open>The routes\<close>

definition signup_reply :: "('s, unit + party_signup) act \<Rightarrow> ('s, reply) act" where
  "signup_reply m = and_then m (\<lambda>r. case r of Inr p \<Rightarrow> done_with (Reply_Signup p) | Inl _ \<Rightarrow> panic)"

definition api_call ::
  "('d, 'h) dht_lib \<Rightarrow> codecs \<Rightarrow> board_call \<Rightarrow> ('d api_state, reply) act" where
  "api_call L J c =
     (case c of
        Call_Set e \<Rightarrow> and_then (set_endpoint L J e) (\<lambda>_. done_with Reply_Set)
      | Call_Get i \<Rightarrow> and_then (get_endpoint L J i) (\<lambda>r.
          done_with (Reply_Get (case r of Inr e \<Rightarrow> Some (en_value e) | Inl _ \<Rightarrow> None)))
      | Call_Keygen conf uuid \<Rightarrow> signup_reply (signup_keygen L J conf uuid)
      | Call_Sign conf uuid \<Rightarrow> signup_reply (signup_sign L J conf uuid))"

text \<open>The abstraction function, the invariant, and the values that are texts (which Rust's strings
  always are).\<close>

definition abs_board :: "('d, 'h) dht_lib \<Rightarrow> codecs \<Rightarrow> 'd api_state \<Rightarrow> spec" where
  "abs_board L J s =
     \<lparr>sp_vals = (\<lambda>k. held L (dht s) (key_hash L J s k)), sp_up = (\<not> handler_poisoned s)\<rparr>"

definition text_codecs :: "codecs \<Rightarrow> bool" where
  "text_codecs J \<longleftrightarrow> (\<forall>t p. parse_signup J t = Some p \<longrightarrow> utf8_valid (ps_uuid p))"

fun text_call :: "board_call \<Rightarrow> bool" where
  "text_call (Call_Set e) = utf8_valid (en_value e)"
| "text_call (Call_Get i) = True"
| "text_call (Call_Keygen conf uuid) = utf8_valid uuid"
| "text_call (Call_Sign conf uuid) = utf8_valid uuid"

section \<open>The refinement\<close>

lemma abs_board_put:
  assumes "dht_store L" "no_collisions L" "codec_laws J" "utf8_valid v"
  shows "abs_board L J (s\<lparr>dht := put_signed L (dht s) (key_hash L J s k) v b\<rparr>) =
    sp_add k v (abs_board L J s)"
  using assms by (simp add: abs_board_def sp_add_def held_put key_hash_inject fun_eq_iff)

lemma abs_board_simps [simp]:
  "sp_up (abs_board L J s) = (\<not> handler_poisoned s)"
  "sp_vals (abs_board L J s) k = held L (dht s) (key_hash L J s k)"
  "abs_board L J (s\<lparr>handler_poisoned := b\<rparr>) = (abs_board L J s)\<lparr>sp_up := \<not> b\<rparr>"
  by (simp_all add: abs_board_def key_hash_def)

lemma board_poisoned:
  assumes "handler_poisoned s"
  shows "set_endpoint L J e s = (None, s)" "get_endpoint L J i s = (None, s)"
    "signup_body L J key lim uuid s = (None, s)"
  using assms by (simp_all add: set_endpoint_def get_endpoint_def signup_body_def with_handler_def)

lemma signup_no_limit:
  "keygen_limit J conf = None \<Longrightarrow> signup_keygen L J conf uuid s = (None, s)"
  "sign_limit J conf = None \<Longrightarrow> signup_sign L J conf uuid s = (None, s)"
  by (auto simp: keygen_limit_def sign_limit_def conf_params_def signup_keygen_def signup_sign_def
      act_simps_basic and_then_def split: option.splits)

text \<open>One call, against the machine.\<close>

definition call_ok ::
  "('d, 'h) dht_lib \<Rightarrow> codecs \<Rightarrow> board_call \<Rightarrow> ('d api_state, reply) act \<Rightarrow> 'd api_state \<Rightarrow> bool" where
  "call_ok L J c m s \<longleftrightarrow> \<not> eosnode_poisoned (snd (m s)) \<and>
     spec_step J (abs_board L J s) c (fst (m s)) (abs_board L J (snd (m s)))"

lemma signup_refines:
  assumes laws: "dht_store L" "no_collisions L" "codec_laws J" "text_codecs J"
    and s: "\<not> eosnode_poisoned s" "utf8_valid uuid" "signup_call J c = Some (key, Some lim, uuid)"
  shows "call_ok L J c (signup_reply (signup_body L J key lim uuid)) s"
proof (cases "handler_poisoned s")
  case True
  then show ?thesis
    using s(1) by (simp add: call_ok_def signup_reply_def and_then_def board_poisoned sp_down)
next
  case False
  then have free: "unlocked s" using s(1) by (simp add: unlocked_def)
  let ?h = "key_hash L J s key"
  show ?thesis
  proof (cases "counter_value L J s key")
    case None
    then have run: "signup_reply (signup_body L J key lim uuid) s = (None, s\<lparr>handler_poisoned := True\<rparr>)"
      using signup_body_panics [OF laws(3) free None] by (simp add: signup_reply_def and_then_def)
    have "spec_step J (abs_board L J s) c None ((abs_board L J s)\<lparr>sp_up := False\<rparr>)"
    proof (cases "stored L (dht s) ?h")
      case None
      then show ?thesis using False s(3) by (intro sp_no_entry) (simp_all add: stored_held)
    next
      case (Some v)
      then show ?thesis
        using False s(3) \<open>counter_value L J s key = None\<close> stored_held(2) [OF Some]
        by (intro sp_bad_entry) (simp_all add: counter_value_def)
    qed
    then show ?thesis using s(1) by (simp add: call_ok_def run)
  next
    case (Some prev)
    then obtain v where v: "stored L (dht s) ?h = Some v" "parse_signup J v = Some prev"
      by (auto simp: counter_value_def split: option.splits)
    then have "utf8_valid (ps_uuid prev)" using laws(4) by (auto simp: text_codecs_def)
    with signup_body_ok [OF laws(3) free Some _ s(2) refl]
    obtain t where t: "signup_body L J key lim uuid s = (Some (Inr (next_signup lim uuid prev)),
        s\<lparr>dht := put_signed L (dht s) ?h t True\<rparr>)"
      "utf8_valid t" "json_signup J (next_signup lim uuid prev) = Some t"
      by blast
    have "spec_step J (abs_board L J s) c (Some (Reply_Signup (next_signup lim uuid prev)))
        (sp_add key t (abs_board L J s))"
      using False s(3) stored_held(2) [OF v(1)] v(2) t(3) by (intro sp_signup) simp_all
    then show ?thesis
      using laws s(1) t
      by (simp add: call_ok_def signup_reply_def and_then_def act_simps_basic abs_board_put)
  qed
qed

lemma call_refines:
  assumes laws: "dht_store L" "no_collisions L" "codec_laws J" "text_codecs J"
    and s: "\<not> eosnode_poisoned s" "text_call c"
  shows "call_ok L J c (api_call L J c) s"
proof (cases "handler_poisoned s")
  case True
  have "signup_keygen L J conf uuid s = (None, s)" "signup_sign L J conf uuid s = (None, s)" for conf uuid
    using True by (cases "keygen_limit J conf"; cases "sign_limit J conf";
      simp add: signup_no_limit signup_keygen_eq signup_sign_eq board_poisoned)+
  then have "api_call L J c s = (None, s)"
    using True by (cases c) (simp_all add: api_call_def and_then_def board_poisoned signup_reply_def)
  then show ?thesis using True s(1) by (simp add: call_ok_def sp_down)
next
  case False
  then have free: "unlocked s" using s(1) by (simp add: unlocked_def)
  note run = call_ok_def api_call_def and_then_def act_simps_basic
  show ?thesis
  proof (cases c)
    case (Call_Set e)
    then show ?thesis
      using False s laws free sp_set [of "abs_board L J s" J e]
      by (simp add: run set_endpoint_eq abs_board_put)
  next
    case (Call_Get i)
    then show ?thesis
      using False s(1) laws(3) free stored_held [of L "dht s" "key_hash L J s (ix_key i)"]
        sp_get_none [of "abs_board L J s" i J] sp_get [of "abs_board L J s" _ i J]
      by (cases "stored L (dht s) (key_hash L J s (ix_key i))") (simp_all add: run get_endpoint_eq)
  next
    case (Call_Keygen conf uuid)
    show ?thesis
    proof (cases "keygen_limit J conf")
      case None
      then show ?thesis
        using s(1) sp_no_limit [of J c keygen_key uuid] Call_Keygen
        by (simp add: run signup_reply_def signup_no_limit)
    next
      case (Some lim)
      then show ?thesis
        using signup_refines [OF laws s(1), of uuid c keygen_key lim] s(2) Call_Keygen
        by (simp add: api_call_def signup_keygen_eq)
    qed
  next
    case (Call_Sign conf uuid)
    show ?thesis
    proof (cases "sign_limit J conf")
      case None
      then show ?thesis
        using s(1) sp_no_limit [of J c sign_key uuid] Call_Sign
        by (simp add: run signup_reply_def signup_no_limit)
    next
      case (Some lim)
      then show ?thesis
        using signup_refines [OF laws s(1), of uuid c sign_key lim] s(2) Call_Sign
        by (simp add: api_call_def signup_sign_eq)
    qed
  qed
qed

text \<open>C14: The routes refine the abstract machine: for every sequence of calls of the four routes, on
  every input (missing keys, broken counters and unreadable configurations included), and for every
  order in which the DHT delivers the values, the replies and the failures are a run of the abstract
  machine from the abstraction of the state to the abstraction of the final state. In particular a
  \<open>/get\<close> fails exactly when nothing was ever put under the key and otherwise returns one of the values
  that were \<open>/set\<close> or written by a sign-up under this very key, every sign-up continues an entry of its
  own counter, and nothing but a missing or broken entry of a counter stops the server.\<close>

theorem routes_refine_board:
  assumes "dht_store L" "no_collisions L" "codec_laws J" "text_codecs J"
    and "\<not> eosnode_poisoned s" "list_all text_call cs"
  shows "spec_run J (abs_board L J s) cs
    (fst (run_calls (api_call L J) cs s)) (abs_board L J (snd (run_calls (api_call L J) cs s)))"
  using assms(5,6)
proof (induction cs arbitrary: s)
  case (Cons c cs)
  have "call_ok L J c (api_call L J c) s"
    using call_refines [OF assms(1-4)] Cons.prems by simp
  then show ?case
    using Cons.IH [of "snd (api_call L J c s)"] Cons.prems(2)
    by (auto simp: call_ok_def case_prod_beta Let_def intro: run_cons)
qed (simp add: run_nil)

section \<open>The numbers of the counters\<close>

lemma signup_body_number:
  assumes "signup_body L J key lim uuid s = (Some (Inr p), s')"
  shows "\<exists>prev. p = next_signup lim uuid prev"
  using assms
  by (auto simp: signup_body_def with_handler_def and_then_def done_with_def Let_def
      split: if_splits option.splits prod.splits)

text \<open>C16: The numbers stay in bounds: whatever is stored at the key of the counter (other clients can
  write there), a sign-up that is answered gives a number from 1 to the limit of the configuration,
  so that the increment never wraps around. (When the limit is 0, as \<open>threshold + 1\<close> is for the
  largest threshold, every signer gets number 1.)\<close>

theorem signup_numbers_bounded:
  assumes "(signup_keygen L J conf uuid s = (Some (Inr p), s') \<and> keygen_limit J conf = Some n) \<or>
    (signup_sign L J conf uuid s = (Some (Inr p), s') \<and> sign_limit J conf = Some n)"
  shows "1 \<le> unat (ps_number p) \<and> unat (ps_number p) \<le> max 1 (unat n)"
proof -
  obtain prev where "p = next_signup n uuid prev"
    using assms signup_body_number by (fastforce simp: signup_keygen_eq signup_sign_eq)
  then show ?thesis using next_signup_bounds by simp
qed

section \<open>Examples\<close>

text \<open>Codecs that only accept texts.\<close>

definition text_esc_codecs :: codecs where
  "text_esc_codecs = esc_codecs\<lparr>parse_signup := (\<lambda>t. case parse_colon_signup t of None \<Rightarrow> None
     | Some p \<Rightarrow> if utf8_valid (ps_uuid p) then Some p else None)\<rparr>"

lemma text_esc_laws: "codec_laws text_esc_codecs" "text_codecs text_esc_codecs"
proof -
  have parse: "parse_signup text_esc_codecs t = Some p"
    if "parse_signup esc_codecs t = Some p" "utf8_valid (ps_uuid p)" for t p
    using that by (simp add: text_esc_codecs_def esc_codecs_def)
  have same: "msgpack_key text_esc_codecs = msgpack_key esc_codecs"
    "json_signup text_esc_codecs = json_signup esc_codecs"
    by (simp_all add: text_esc_codecs_def)
  show "codec_laws text_esc_codecs"
    using esc_codec_laws parse unfolding codec_laws_def same by blast
  show "text_codecs text_esc_codecs"
    by (auto simp: text_codecs_def text_esc_codecs_def split: option.splits if_splits)
qed

lemma text_esc_simps:
  "parse_signup text_esc_codecs ''7:s'' = Some \<lparr>ps_number = 7, ps_uuid = ''s''\<rparr>"
  "parse_signup text_esc_codecs ''x'' = None"
  "sign_limit text_esc_codecs (Some ''2:1'') = Some 2"
  "json_signup text_esc_codecs \<lparr>ps_number = 1, ps_uuid = ''u''\<rparr> = Some ''1:u''"
proof -
  have "u32_to_string 7 = ''7''" "u32_to_string 1 = ''1''"
    by (simp_all add: u32_to_string_def nat_to_string.simps [of 7] nat_to_string.simps [of "Suc 0"] digit_char_def char_of_def bit_Suc_0_iff)
  then show "parse_signup text_esc_codecs ''7:s'' = Some \<lparr>ps_number = 7, ps_uuid = ''s''\<rparr>"
    "json_signup text_esc_codecs \<lparr>ps_number = 1, ps_uuid = ''u''\<rparr> = Some ''1:u''"
    using parse_colon_signup_text [of 7 "''s''"]
    by (simp_all add: text_esc_codecs_def esc_codecs_def colon_signup_def in_range_def)
  show "parse_signup text_esc_codecs ''x'' = None"
    by (simp add: text_esc_codecs_def parse_colon_signup_def split_colon_def)
  show "sign_limit text_esc_codecs (Some ''2:1'') = Some 2"
    using sample_limits(3) by (simp add: sign_limit_def conf_params_def text_esc_codecs_def)
qed

text \<open>A sign-up after a write to its counter, and a \<open>/get\<close> that may find either of the two entries.\<close>

theorem routes_refine_board_witness:
  "fst (run_calls (api_call log_dht text_esc_codecs)
      [Call_Set \<lparr>en_key = sign_key, en_value = ''7:s''\<rparr>, Call_Sign (Some ''2:1'') ''u'',
       Call_Get \<lparr>ix_key = sign_key\<rparr>] fresh_state) \<in>
    {[Some Reply_Set, Some (Reply_Signup \<lparr>ps_number = 1, ps_uuid = ''u''\<rparr>), Some (Reply_Get (Some v))] |
       v. v = ''7:s'' \<or> v = ''1:u''}"
proof -
  let ?cs = "[Call_Set \<lparr>en_key = sign_key, en_value = ''7:s''\<rparr>, Call_Sign (Some ''2:1'') ''u'',
    Call_Get \<lparr>ix_key = sign_key\<rparr>]"
  have up: "\<not> handler_poisoned fresh_state" "\<not> eosnode_poisoned fresh_state" by (simp_all add: fresh_state_def)
  have "list_all text_call ?cs" by (simp add: in_range_def)
  from routes_refine_board [OF log_dht_store text_esc_laws up(2) this] show ?thesis
    using up(1)
    by (auto elim!: spec_run_consE spec_run_nilE spec_setE spec_signE spec_getE
        simp: sp_add_def text_esc_simps next_signup_def)
qed

theorem signup_numbers_bounded_witness:
  "\<exists>s s'. signup_keygen log_dht esc_codecs (Some ''2:1'') ''u'' s =
      (Some (Inr \<lparr>ps_number = 1, ps_uuid = ''k''\<rparr>), s') \<and> 1 \<le> unat (1 :: u32) \<and> unat (1 :: u32) \<le> max 1 2"
proof -
  obtain s where s: "unlocked s"
    "counter_value log_dht esc_codecs s keygen_key = Some \<lparr>ps_number = 0, ps_uuid = ''k''\<rparr>"
    by (rule signup_start [OF fresh_ok, of "''k''" "''s''"]) (auto simp: in_range_def api_ok_def)
  from signup_body_ok [OF esc_codec_laws s(1,2) _ _ refl, of "''u''" 2]
  obtain s' where run: "signup_keygen log_dht esc_codecs (Some ''2:1'') ''u'' s =
      (Some (Inr \<lparr>ps_number = 1, ps_uuid = ''k''\<rparr>), s')"
    by (auto simp: signup_keygen_eq [OF sample_limits(1)] next_signup_def in_range_def)
  from signup_numbers_bounded [OF disjI1, OF conjI, OF run sample_limits(1)] run
  show ?thesis by auto
qed

end
