(* ===== verification/Chat.thy ===== *)
theory Chat
  imports Server
begin

text \<open>
  The chat rooms: \<open>ChatReader::read\<close> and \<open>drop\<close> of \<open>src/vDexNode/api/src/handler.rs\<close>, and the
  chat loop of \<open>src/vDexNode/api/src/main.rs\<close>, which turns the queued events into calls of \<open>listen\<close> and
  \<open>cancel_listen\<close> on the DHT, with callbacks that fill the message buffers of the readers.
  Serialisation of a message is a parameter. A buffer is named by a number, and the token that a
  call of \<open>listen\<close> returns is named by the number of the call.
\<close>

section \<open>Message buffers\<close>

record chat_message =
  cm_author :: string
  cm_body :: string
  cm_encrypted :: bool

text \<open>\<open>Mutex<Vec<ChatMessage>>\<close>, shared by a reader and the callback that fills it.\<close>

record chat_buffer =
  cb_messages :: "chat_message list"
  cb_poisoned :: bool

definition zeros :: "nat \<Rightarrow> string" where
  "zeros n = replicate n (char_of (0::nat))"

definition newline :: string where
  "newline = [char_of (10::nat)]"

text \<open>\<open>read\<close> into a slice of length \<open>n\<close>: the number of bytes returned with the contents of the
  slice, and the buffer. \<open>clone_from_slice\<close> panics on slices of different lengths.\<close>

definition chat_read ::
  "(chat_message \<Rightarrow> string option) \<Rightarrow> chat_reader \<Rightarrow> nat \<Rightarrow> (chat_buffer, nat \<times> string) act" where
  "chat_read json r n b =
     (if cr_stopped r then (Some (0, zeros n), b)
      else if cb_poisoned b then (None, b)
      else case cb_messages b of
        [] \<Rightarrow> (Some (n, zeros n), b)
      | m # ms \<Rightarrow>
          (case json m of
             None \<Rightarrow> (Some (0, zeros n), b\<lparr>cb_messages := ms\<rparr>)
           | Some text \<Rightarrow>
               (let message = text @ newline; read = min n (length message) in
                if read \<noteq> length message then (None, b\<lparr>cb_poisoned := True\<rparr>)
                else let buf = message @ zeros (n - read) in
                  if read < length message then (Some (0, buf), b)
                  else (Some (n, buf), b\<lparr>cb_messages := ms\<rparr>))))"

section \<open>The callback of a listener\<close>

record dht_value =
  dv_bytes :: string
  dv_owner :: "string option"
  dv_recipient :: string

definition chat_cb :: "string \<Rightarrow> dht_value \<Rightarrow> bool \<Rightarrow> chat_buffer \<Rightarrow> chat_buffer option" where
  "chat_cb pk v expired b =
     (if expired then Some b
      else let body = from_utf8_or_empty (dv_bytes v) in
        if body = [] then Some b
        else let author = (case dv_owner v of Some owner \<Rightarrow> owner | None \<Rightarrow> []) in
          if cb_poisoned b then None
          else Some (b\<lparr>cb_messages := cb_messages b @
            [\<lparr>cm_author = author, cm_body = body, cm_encrypted = (dv_recipient v = pk)\<rparr>]\<rparr>))"

section \<open>The chat loop\<close>

text \<open>The variable of the loop is \<open>tokens\<close>. The other two fields record what the loop has asked of the
  DHT: \<open>listeners\<close> are the calls of \<open>listen\<close> that it has not cancelled, each with its token, its room
  and the buffer that its callback fills, and \<open>next_token\<close> counts the calls. Whom the DHT calls back,
  and when, is not part of the model.\<close>

record chat_loop =
  tokens :: "((u64 \<times> string) \<times> nat) list"
  listeners :: "(nat \<times> string \<times> nat) list"
  next_token :: nat

text \<open>A call of \<open>cancel_listen\<close> takes the call of \<open>listen\<close> that returned this token from the record.\<close>

definition cancel_call :: "nat \<Rightarrow> (nat \<times> string \<times> nat) list \<Rightarrow> (nat \<times> string \<times> nat) list" where
  "cancel_call token ls = filter (\<lambda>l. fst l \<noteq> token) ls"

definition handle_event :: "chat_event \<Rightarrow> chat_loop \<Rightarrow> chat_loop" where
  "handle_event event st =
     (case event of
        Join i room msg \<Rightarrow>
          st\<lparr>tokens := AList.update (i, room) (next_token st) (tokens st),
             listeners := listeners st @ [(next_token st, room, msg)],
             next_token := Suc (next_token st)\<rparr>
      | Leave i room \<Rightarrow>
          (case map_of (tokens st) (i, room) of
             Some value \<Rightarrow>
               st\<lparr>tokens := AList.delete (i, room) (tokens st),
                  listeners := cancel_call value (listeners st)\<rparr>
           | None \<Rightarrow> st))"

text \<open>The events for which \<open>listen\<close> or \<open>cancel_listen\<close> is called, under the lock of the node: to leave
  a room that was not joined changes nothing and needs no lock.\<close>

definition event_locks :: "chat_loop \<Rightarrow> chat_event \<Rightarrow> bool" where
  "event_locks st event =
     (case event of Join i room msg \<Rightarrow> True | Leave i room \<Rightarrow> map_of (tokens st) (i, room) \<noteq> None)"

text \<open>One turn of the loop: the queue is copied and cleared, then its events are handled. When the lock
  of the node is poisoned, the first event that needs it ends the loop; the events before it leave
  the tokens as they are.\<close>

definition chat_turn :: "('d api_state \<times> chat_loop) \<Rightarrow> ('d api_state \<times> chat_loop) option" where
  "chat_turn w =
     (case w of (s, st) \<Rightarrow>
        (case with_events (\<lambda>s. (Some (chat_events s), s\<lparr>chat_events := []\<rparr>)) s of
           (None, _) \<Rightarrow> None
         | (Some events, s') \<Rightarrow>
             if eosnode_poisoned s' \<and> list_ex (event_locks st) events then None
             else Some (s', fold handle_event events st)))"

text \<open>The DHT runs the callback that was passed to the call of \<open>listen\<close> with a token, on a value.\<close>

definition call_back ::
  "string \<Rightarrow> dht_value \<Rightarrow> bool \<Rightarrow> chat_loop \<Rightarrow> nat \<Rightarrow> (nat \<Rightarrow> chat_buffer) \<Rightarrow> (nat \<Rightarrow> chat_buffer) option" where
  "call_back pk v expired st token bufs =
     (case map_of (listeners st) token of
        None \<Rightarrow> Some bufs
      | Some (room, b) \<Rightarrow> map_option (\<lambda>cb. bufs(b := cb)) (chat_cb pk v expired (bufs b)))"

fun call_back_all ::
  "string \<Rightarrow> dht_value \<Rightarrow> bool \<Rightarrow> chat_loop \<Rightarrow> nat list \<Rightarrow> (nat \<Rightarrow> chat_buffer) \<Rightarrow> (nat \<Rightarrow> chat_buffer) option" where
  "call_back_all pk v expired st [] bufs = Some bufs"
| "call_back_all pk v expired st (t # ts) bufs =
     Option.bind (call_back pk v expired st t bufs) (call_back_all pk v expired st ts)"

section \<open>Reading\<close>

fun read_all ::
  "(chat_message \<Rightarrow> string option) \<Rightarrow> chat_reader \<Rightarrow> nat \<Rightarrow> nat \<Rightarrow> chat_buffer \<Rightarrow>
   (nat \<times> string) option list \<times> chat_buffer" where
  "read_all json r n 0 b = ([], b)"
| "read_all json r n (Suc k) b =
     (let (x, b') = chat_read json r n b; (xs, b'') = read_all json r n k b' in (x # xs, b''))"

definition fits :: "(chat_message \<Rightarrow> string option) \<Rightarrow> nat \<Rightarrow> chat_message \<Rightarrow> bool" where
  "fits json n m \<longleftrightarrow> (case json m of None \<Rightarrow> False | Some t \<Rightarrow> length t < n)"

lemma chat_read_fits:
  assumes "\<not> cr_stopped r" "\<not> cb_poisoned b" "cb_messages b = m # ms" "json m = Some t" "length t < n"
  shows "chat_read json r n b =
    (Some (n, t @ newline @ zeros (n - Suc (length t))), b\<lparr>cb_messages := ms\<rparr>)"
  using assms by (simp add: chat_read_def newline_def Let_def min_def)

lemma chat_read_too_long:
  assumes "\<not> cr_stopped r" "\<not> cb_poisoned b" "cb_messages b = m # ms" "json m = Some t" "n \<le> length t"
  shows "chat_read json r n b = (None, b\<lparr>cb_poisoned := True\<rparr>)"
  using assms by (simp add: chat_read_def newline_def Let_def min_def)

lemma read_all_poisoned:
  "\<not> cr_stopped r \<Longrightarrow> cb_poisoned b \<Longrightarrow> read_all json r n k b = (replicate k None, b)"
  by (induction k) (simp_all add: chat_read_def)

text \<open>C32: As long as every message fits into the slice with its newline, the reader delivers all of
  them, in the order in which they arrived, one per read and padded with zeros; after that a read
  returns zeros, and nothing is left in the buffer.\<close>

theorem chat_reader_fifo:
  assumes "\<not> cr_stopped r" "\<not> cb_poisoned b" "list_all (fits json n) (cb_messages b)"
  shows "read_all json r n (length (cb_messages b) + k) b =
    (map (\<lambda>m. Some (n, the (json m) @ newline @ zeros (n - Suc (length (the (json m)))))) (cb_messages b) @
     replicate k (Some (n, zeros n)), b\<lparr>cb_messages := []\<rparr>)"
  using assms
proof (induction "cb_messages b" arbitrary: b)
  case Nil
  have "read_all json r n k b = (replicate k (Some (n, zeros n)), b)"
    using Nil by (induction k) (simp_all add: chat_read_def flip: Nil.hyps)
  moreover have "b\<lparr>cb_messages := []\<rparr> = b" using Nil.hyps by (cases b) simp
  ultimately show ?case using Nil.hyps by simp
next
  case (Cons m ms)
  have "fits json n m" using Cons.prems(3) Cons.hyps(2) by (metis list.pred_inject(2))
  then obtain t where t: "json m = Some t" "length t < n"
    by (auto simp: fits_def split: option.splits)
  have read: "chat_read json r n b =
      (Some (n, t @ newline @ zeros (n - Suc (length t))), b\<lparr>cb_messages := ms\<rparr>)"
    using Cons.prems t by (intro chat_read_fits) (simp_all flip: Cons.hyps(2))
  have "list_all (fits json n) ms" using Cons.prems(3) Cons.hyps(2) by (metis list.pred_inject(2))
  then have "read_all json r n (length ms + k) (b\<lparr>cb_messages := ms\<rparr>) =
    (map (\<lambda>m. Some (n, the (json m) @ newline @ zeros (n - Suc (length (the (json m)))))) ms @
     replicate k (Some (n, zeros n)), b\<lparr>cb_messages := []\<rparr>)"
    using Cons.hyps(1) [of "b\<lparr>cb_messages := ms\<rparr>"] Cons.prems by simp
  then show ?case
    using read t by (simp add: Let_def flip: Cons.hyps(2))
qed

text \<open>A stand-in for the JSON text of a message.\<close>

definition plain_json :: "chat_message \<Rightarrow> string option" where
  "plain_json m = Some (cm_author m @ '':'' @ cm_body m)"

definition sample_reader :: chat_reader where
  "sample_reader = \<lparr>cr_id = 1, cr_room = ''room'', cr_chat = 0, cr_stopped = False\<rparr>"

definition sample_buffer :: chat_buffer where
  "sample_buffer = \<lparr>cb_messages = [\<lparr>cm_author = ''a'', cm_body = ''hi'', cm_encrypted = False\<rparr>,
     \<lparr>cm_author = ''b'', cm_body = ''yo'', cm_encrypted = True\<rparr>], cb_poisoned = False\<rparr>"

theorem chat_reader_fifo_witness:
  "read_all plain_json sample_reader 6 3 sample_buffer =
    ([Some (6, ''a:hi'' @ newline @ zeros 1), Some (6, ''b:yo'' @ newline @ zeros 1), Some (6, zeros 6)],
     \<lparr>cb_messages = [], cb_poisoned = False\<rparr>)"
  using chat_reader_fifo [of sample_reader sample_buffer plain_json 6 1]
  by (simp add: sample_reader_def sample_buffer_def fits_def plain_json_def numeral_eq_Suc)

text \<open>C33: A message that does not fit is not skipped or split, although the code after the copy wants
  to return \<open>Ok(0)\<close> for it: the copy panics, and so does every later read of that reader and every
  later delivery to it.\<close>

theorem chat_read_long_message_panics:
  assumes "\<not> cr_stopped r" "\<not> cb_poisoned b" "cb_messages b = m # ms" "json m = Some t" "n \<le> length t"
  shows "let (res, b') = chat_read json r n b in
    res = None \<and> read_all json r n' k b' = (replicate k None, b') \<and>
    (if from_utf8_or_empty (dv_bytes v) = [] then True else chat_cb pk v False b' = None)"
  using chat_read_too_long [of r b m ms json t n] assms
  by (simp add: read_all_poisoned chat_cb_def)

theorem chat_read_long_message_panics_witness:
  "fst (chat_read plain_json sample_reader 4 sample_buffer) = None"
  using chat_read_long_message_panics [of sample_reader sample_buffer
      "\<lparr>cm_author = ''a'', cm_body = ''hi'', cm_encrypted = False\<rparr>"
      "[\<lparr>cm_author = ''b'', cm_body = ''yo'', cm_encrypted = True\<rparr>]" plain_json "''a:hi''" 4]
  by (simp add: sample_reader_def sample_buffer_def plain_json_def case_prod_beta)

end
