(* ===== verification/Chat_Correct.thy ===== *)
theory Chat_Correct
  imports Chat Log_Dht
begin

text \<open>
  The chat rooms as a transition system: readers join and are dropped under the lock of the
  handler, the loop of \<open>src/vDexNode/api/src/main.rs\<close> takes turns, the DHT runs callbacks as it likes
  and readers read, in any order. The invariant relates the live readers to the listeners that the
  loop holds once it has handled the queued events.
\<close>

section \<open>The system\<close>

record 'd chat_system =
  api :: "'d api_state"
  loop :: chat_loop
  buffers :: "nat \<Rightarrow> chat_buffer"
  readers :: "chat_reader list"

text \<open>Every field of the server but the event queue and the two counters is fixed here: requests of
  other kinds do not touch the chat.\<close>

inductive chat_step ::
  "string \<Rightarrow> (chat_message \<Rightarrow> string option) \<Rightarrow>
   'd chat_system \<Rightarrow> 'd chat_system \<Rightarrow> bool" for pk json where
  join: "handler_join room (api c) = (Some r, s') \<Longrightarrow>
    chat_step pk json c (c\<lparr>api := s', readers := readers c @ [r],
      buffers := (buffers c)(cr_chat r := \<lparr>cb_messages = [], cb_poisoned = False\<rparr>)\<rparr>)"
| drop: "r \<in> set (readers c) \<Longrightarrow> chat_reader_drop r (api c) = (Some r', s') \<Longrightarrow>
    chat_step pk json c (c\<lparr>api := s', readers := remove1 r (readers c)\<rparr>)"
| turn: "chat_turn (api c, loop c) = Some (s', st') \<Longrightarrow>
    chat_step pk json c (c\<lparr>api := s', loop := st'\<rparr>)"
| arrive: "call_back_all pk v expired (loop c) calls (buffers c) = Some bufs \<Longrightarrow>
    chat_step pk json c (c\<lparr>buffers := bufs\<rparr>)"
| read: "r \<in> set (readers c) \<Longrightarrow> chat_read json r n (buffers c (cr_chat r)) = (x, b') \<Longrightarrow>
    chat_step pk json c (c\<lparr>buffers := (buffers c)(cr_chat r := b')\<rparr>)"

definition chat_initial :: "'d chat_system \<Rightarrow> bool" where
  "chat_initial c \<longleftrightarrow>
     chat_events (api c) = [] \<and> chat_readers_idx (api c) = 0 \<and> next_buffer (api c) = 0 \<and>
     loop c = \<lparr>tokens = [], listeners = [], next_token = 0\<rparr> \<and> readers c = []"

inductive chat_reachable ::
  "string \<Rightarrow> (chat_message \<Rightarrow> string option) \<Rightarrow> 'd chat_system \<Rightarrow> bool"
  for pk json where
  init: "chat_initial c \<Longrightarrow> chat_reachable pk json c"
| step: "chat_reachable pk json c \<Longrightarrow> chat_step pk json c c' \<Longrightarrow> chat_reachable pk json c'"

section \<open>The invariant\<close>

text \<open>The loop after the events that are still queued.\<close>

definition settled :: "'d chat_system \<Rightarrow> chat_loop" where
  "settled c = fold handle_event (chat_events (api c)) (loop c)"

definition reader_key :: "chat_reader \<Rightarrow> u64 \<times> string" where
  "reader_key r = (cr_id r, cr_room r)"

text \<open>\<open>ns\<close> lists the token of every live reader, in the order in which they joined.\<close>

definition serves :: "chat_loop \<Rightarrow> chat_reader list \<Rightarrow> nat list \<Rightarrow> bool" where
  "serves st rs ns \<longleftrightarrow>
     length ns = length rs \<and> distinct ns \<and> list_all (\<lambda>n. n < next_token st) ns \<and>
     listeners st = map (\<lambda>(r, n). (n, cr_room r, cr_chat r)) (zip rs ns) \<and>
     map_of (tokens st) = map_of (map (\<lambda>(r, n). (reader_key r, n)) (zip rs ns))"

definition readers_ok :: "'d api_state \<Rightarrow> chat_reader list \<Rightarrow> bool" where
  "readers_ok s rs \<longleftrightarrow>
     chat_readers_idx s = of_nat (next_buffer s) \<and>
     distinct (map cr_chat rs) \<and>
     list_all (\<lambda>r. cr_chat r < next_buffer s \<and> cr_id r = of_nat (Suc (cr_chat r)) \<and> \<not> cr_stopped r) rs"

definition chat_inv :: "'d chat_system \<Rightarrow> bool" where
  "chat_inv c \<longleftrightarrow> readers_ok (api c) (readers c) \<and> (\<exists>ns. serves (settled c) (readers c) ns)"

lemma readers_ok_keys:
  assumes "readers_ok s rs" "next_buffer s < 2 ^ 64"
  shows "inj_on reader_key (set rs)" "distinct (map reader_key rs)"
proof -
  have "inj_on reader_key (set rs)"
  proof (rule inj_onI)
    fix r r' assume r: "r \<in> set rs" "r' \<in> set rs" "reader_key r = reader_key r'"
    then have "(of_nat (Suc (cr_chat r)) :: u64) = of_nat (Suc (cr_chat r'))"
      and "Suc (cr_chat r) < 2 ^ 64 \<or> Suc (cr_chat r) = 2 ^ 64" "cr_chat r < 2 ^ 64" "cr_chat r' < 2 ^ 64"
      using assms by (auto simp: readers_ok_def list_all_iff reader_key_def)
    then have "(of_nat (cr_chat r) :: u64) = of_nat (cr_chat r')" by simp
    then have "cr_chat r = cr_chat r'"
      using \<open>cr_chat r < 2 ^ 64\<close> \<open>cr_chat r' < 2 ^ 64\<close> by (simp add: of_nat_inverse word_of_nat_eq_iff take_bit_nat_eq_self)
    then show "r = r'" using assms r by (auto simp: readers_ok_def distinct_map dest: inj_onD)
  qed
  then show "inj_on reader_key (set rs)" "distinct (map reader_key rs)"
    using assms(1) by (auto simp: readers_ok_def distinct_map)
qed

lemma serves_join:
  assumes "serves st rs ns" "reader_key r \<notin> reader_key ` set rs"
  shows "serves (handle_event (Join (cr_id r) (cr_room r) (cr_chat r)) st) (rs @ [r]) (ns @ [next_token st])"
proof -
  have len: "length ns = length rs" and bound: "list_all (\<lambda>n. n < next_token st) ns"
    using assms(1) by (simp_all add: serves_def)
  have "map_of (map (\<lambda>(r, n). (reader_key r, n)) (zip rs ns)) (reader_key r) = None"
    using assms(2) by (auto simp: map_of_eq_None_iff dest!: set_zip_leftD)
  then have "map_of (map (\<lambda>(r, n). (reader_key r, n)) (zip rs ns) @ [(reader_key r, next_token st)]) =
      (map_of (map (\<lambda>(r, n). (reader_key r, n)) (zip rs ns)))(reader_key r \<mapsto> next_token st)"
    by (auto simp: fun_eq_iff map_add_def split: option.splits)
  then show ?thesis
    using assms(1) len bound
    by (auto simp: serves_def handle_event_def update_conv' reader_key_def list_all_iff)
qed

lemma map_of_drop_middle:
  assumes "k \<notin> fst ` set A" "k \<notin> fst ` set B"
  shows "map_of (A @ (k, n) # B) k = Some n" "map_of (A @ B) = (map_of (A @ (k, n) # B))(k := None)"
proof -
  have "map_of A k = None" "map_of B k = None" using assms by (simp_all add: map_of_eq_None_iff)
  then show "map_of (A @ (k, n) # B) k = Some n"
    and "map_of (A @ B) = (map_of (A @ (k, n) # B))(k := None)"
    by (auto simp: fun_eq_iff map_add_def split: option.splits)
qed

lemma cancel_call_simps:
  "cancel_call n (xs @ ys) = cancel_call n xs @ cancel_call n ys"
  "cancel_call n ((n, l) # xs) = cancel_call n xs"
  by (simp_all add: cancel_call_def)

lemma cancel_call_other:
  "n \<notin> set N \<Longrightarrow> cancel_call n (map (\<lambda>(r, n). (n, cr_room r, cr_chat r)) (zip R N)) =
     map (\<lambda>(r, n). (n, cr_room r, cr_chat r)) (zip R N)"
  by (auto simp: cancel_call_def filter_id_conv dest: set_zip_rightD)

lemma serves_leave:
  assumes st: "serves st rs ns" and r: "r \<in> set rs" and keys: "distinct (map reader_key rs)"
  shows "\<exists>ns'. serves (handle_event (Leave (cr_id r) (cr_room r)) st) (remove1 r rs) ns'"
proof -
  obtain i where i: "i < length rs" "rs ! i = r" using r by (auto simp: in_set_conv_nth)
  define R1 R2 N1 N2 n where "R1 = take i rs" and "R2 = drop (Suc i) rs"
    and "N1 = take i ns" and "N2 = drop (Suc i) ns" and "n = ns ! i"
  have len: "length ns = length rs" using st by (simp add: serves_def)
  have rs: "rs = R1 @ r # R2" and ns: "ns = N1 @ n # N2"
    using i len id_take_nth_drop [of i rs] id_take_nth_drop [of i ns]
    by (simp_all add: R1_def R2_def N1_def N2_def n_def)
  have lens: "length R1 = length N1" "length R2 = length N2"
    using i len by (simp_all add: R1_def R2_def N1_def N2_def)
  have rem: "remove1 r rs = R1 @ R2"
  proof -
    have "r \<notin> set R1" using keys by (auto simp: rs)
    then show ?thesis by (simp add: rs remove1_append)
  qed
  define A B where "A = map (\<lambda>(r, n). (reader_key r, n)) (zip R1 N1)"
    and "B = map (\<lambda>(r, n). (reader_key r, n)) (zip R2 N2)"
  have toks: "map_of (tokens st) = map_of (A @ (reader_key r, n) # B)"
    using st lens by (simp add: serves_def rs ns A_def B_def)
  have "reader_key r \<notin> fst ` set A" "reader_key r \<notin> fst ` set B"
    using keys by (auto simp: rs A_def B_def dest!: set_zip_leftD)
  note mid = map_of_drop_middle [OF this, of n]
  have found: "map_of (tokens st) (cr_id r, cr_room r) = Some n"
    using mid(1) by (simp add: toks flip: reader_key_def)
  have "distinct (N1 @ n # N2)" using st by (simp add: serves_def ns)
  then have cancel: "cancel_call n (map (\<lambda>(r, n). (n, cr_room r, cr_chat r)) (zip (R1 @ r # R2) (N1 @ n # N2))) =
      map (\<lambda>(r, n). (n, cr_room r, cr_chat r)) (zip (R1 @ R2) (N1 @ N2))"
    using lens by (simp add: cancel_call_simps cancel_call_other)
  have "serves (handle_event (Leave (cr_id r) (cr_room r)) st) (R1 @ R2) (N1 @ N2)"
    using st lens found cancel mid(2)
    by (simp add: serves_def handle_event_def rs ns delete_conv' toks reader_key_def A_def B_def)
  then show ?thesis using rem by auto
qed

section \<open>Every step keeps it\<close>

lemma settled_push:
  "settled (c\<lparr>api := s', readers := rs, buffers := bs\<rparr>) = handle_event e (settled c)"
  "settled (c\<lparr>api := s', readers := rs\<rparr>) = handle_event e (settled c)"
  if "chat_events s' = chat_events (api c) @ [e]"
  using that by (simp_all add: settled_def)

lemma join_effect:
  assumes "handler_join room s = (Some r, s')"
  shows "cr_chat r = next_buffer s \<and> cr_room r = room \<and> cr_id r = chat_readers_idx s + 1 \<and>
    \<not> cr_stopped r \<and>
    chat_events s' = chat_events s @ [Join (cr_id r) (cr_room r) (cr_chat r)] \<and>
    next_buffer s' = Suc (next_buffer s) \<and> chat_readers_idx s' = chat_readers_idx s + 1"
  using assms
  by (auto simp: handler_join_def chat_reader_new_def with_events_def Let_def split: if_splits)

lemma drop_effect:
  assumes "chat_reader_drop r s = (Some r', s')"
  shows "chat_events s' = chat_events s @ [Leave (cr_id r) (cr_room r)] \<and>
    next_buffer s' = next_buffer s \<and> chat_readers_idx s' = chat_readers_idx s"
  using assms by (auto simp: chat_reader_drop_def with_events_def split: if_splits)

lemma turn_effect:
  assumes "chat_turn (s, st) = Some (s', st')"
  shows "chat_events s' = [] \<and> st' = fold handle_event (chat_events s) st \<and>
    next_buffer s' = next_buffer s \<and> chat_readers_idx s' = chat_readers_idx s"
  using assms by (auto simp: chat_turn_def with_events_def split: if_splits)

lemma next_buffer_mono: "chat_step pk json c c' \<Longrightarrow> next_buffer (api c) \<le> next_buffer (api c')"
  by (auto elim!: chat_step.cases dest!: join_effect drop_effect turn_effect)

lemma chat_inv_step:
  assumes "chat_step pk json c c'" "chat_inv c" "next_buffer (api c') < 2 ^ 64"
  shows "chat_inv c'"
  using assms(1)
proof cases
  case (join room r s')
  note eff = join_effect [OF join(2)]
  have inv: "readers_ok (api c) (readers c)" using assms(2) by (simp add: chat_inv_def)
  obtain ns where ns: "serves (settled c) (readers c) ns" using assms(2) by (auto simp: chat_inv_def)
  have ok: "readers_ok s' (readers c @ [r])"
    using inv eff by (auto simp: readers_ok_def list_all_iff)
  have "next_buffer s' < 2 ^ 64" using assms(3) join(1) by simp
  from readers_ok_keys [OF ok this] have "reader_key r \<notin> reader_key ` set (readers c)" by simp
  note serves_join [OF ns this]
  then show ?thesis
    using ok join(1) settled_push [of s' c "Join (cr_id r) (cr_room r) (cr_chat r)"] eff
    by (auto simp: chat_inv_def)
next
  case (drop r r' s')
  note eff = drop_effect [OF drop(3)]
  have inv: "readers_ok (api c) (readers c)" using assms(2) by (simp add: chat_inv_def)
  obtain ns where ns: "serves (settled c) (readers c) ns" using assms(2) by (auto simp: chat_inv_def)
  have ok: "readers_ok s' (remove1 r (readers c))"
    using inv eff set_remove1_subset [of r "readers c"]
    by (auto simp: readers_ok_def list_all_iff distinct_map intro: inj_on_subset)
  have "next_buffer (api c) < 2 ^ 64" using assms(3) drop(1) eff by simp
  from readers_ok_keys [OF inv this] serves_leave [OF ns drop(2)]
  obtain ns' where "serves (handle_event (Leave (cr_id r) (cr_room r)) (settled c)) (remove1 r (readers c)) ns'"
    by auto
  then show ?thesis
    using ok drop(1) settled_push [of s' c "Leave (cr_id r) (cr_room r)"] eff
    by (auto simp: chat_inv_def)
next
  case (turn s' st')
  then show ?thesis
    using turn_effect [OF turn(2)] assms(2) by (simp add: chat_inv_def settled_def readers_ok_def)
next
  case (arrive v expired calls bufs)
  then show ?thesis using assms(2) by (simp add: chat_inv_def settled_def)
next
  case (read r n x b')
  then show ?thesis using assms(2) by (simp add: chat_inv_def settled_def)
qed

lemma chat_inv_reachable:
  "chat_reachable pk json c \<Longrightarrow> next_buffer (api c) < 2 ^ 64 \<Longrightarrow> chat_inv c"
proof (induction rule: chat_reachable.induct)
  case (init c)
  then show ?case
    by (auto simp: chat_initial_def chat_inv_def readers_ok_def settled_def serves_def)
next
  case (step c c')
  then show ?case
    using next_buffer_mono [OF step(2)] by (intro chat_inv_step [OF step(2)]) auto
qed

section \<open>Who listens and who receives\<close>

lemma serves_keys: "serves st rs ns \<Longrightarrow> dom (map_of (tokens st)) = reader_key ` set rs"
proof -
  assume st: "serves st rs ns"
  then have len: "length rs = length ns" and
    eq: "map_of (tokens st) = map_of (map (\<lambda>(r, n). (reader_key r, n)) (zip rs ns))"
    by (simp_all add: serves_def)
  have "map fst (map (\<lambda>(r, n). (reader_key r, n)) (zip rs ns)) = map reader_key (map fst (zip rs ns))"
    by (simp add: case_prod_beta comp_def)
  then have "set (map fst (map (\<lambda>(r, n). (reader_key r, n)) (zip rs ns))) = reader_key ` set rs"
    using len by (simp only: map_fst_zip list.set_map)
  then show ?thesis by (simp only: eq dom_map_of_conv_image_fst list.set_map)
qed

lemma serves_listeners:
  "serves st rs ns \<Longrightarrow> map snd (listeners st) = map (\<lambda>r. (cr_room r, cr_chat r)) rs"
proof -
  assume st: "serves st rs ns"
  then have len: "length rs = length ns" and
    eq: "listeners st = map (\<lambda>(r, n). (n, cr_room r, cr_chat r)) (zip rs ns)"
    by (simp_all add: serves_def)
  have "map snd (map (\<lambda>(r, n). (n, cr_room r, cr_chat r)) (zip rs ns)) =
      map (\<lambda>r. (cr_room r, cr_chat r)) (map fst (zip rs ns))"
    by (simp add: case_prod_beta comp_def)
  then show ?thesis using len by (simp only: eq map_fst_zip)
qed

text \<open>C30: No listener is lost or leaked: whatever happened before, after a turn of the chat loop the
  DHT calls back exactly the readers that are alive, each one once, for its room and into its
  buffer, and the loop holds a token for exactly these readers.\<close>

theorem chat_turn_listens_to_live_readers:
  assumes "chat_reachable pk json c" "next_buffer (api c) < 2 ^ 64"
    and "chat_turn (api c, loop c) = Some (s', st')"
  shows "map snd (listeners st') = map (\<lambda>r. (cr_room r, cr_chat r)) (readers c) \<and>
    dom (map_of (tokens st')) = (\<lambda>r. (cr_id r, cr_room r)) ` set (readers c) \<and>
    distinct (map (\<lambda>r. (cr_id r, cr_room r)) (readers c))"
proof -
  have inv: "chat_inv c" using assms(1,2) by (rule chat_inv_reachable)
  then obtain ns where ns: "serves (settled c) (readers c) ns" by (auto simp: chat_inv_def)
  have ok: "readers_ok (api c) (readers c)" using inv by (simp add: chat_inv_def)
  have key: "reader_key = (\<lambda>r. (cr_id r, cr_room r))" by (simp add: fun_eq_iff reader_key_def)
  have "st' = settled c" using turn_effect [OF assms(3)] by (simp add: settled_def)
  then show ?thesis
    using serves_keys [OF ns] serves_listeners [OF ns] readers_ok_keys(2) [OF ok assms(2)]
    by (simp add: key)
qed

definition sample_chat :: "log chat_system" where
  "sample_chat = \<lparr>api = fresh_state, loop = \<lparr>tokens = [], listeners = [], next_token = 0\<rparr>,
     buffers = (\<lambda>_. \<lparr>cb_messages = [], cb_poisoned = False\<rparr>), readers = []\<rparr>"

lemma sample_chat_joined:
  obtains c :: "log chat_system" where "chat_reachable pk json c" "readers c = [sample_reader]"
    "chat_events (api c) = [Join 1 ''room'' 0]" "next_buffer (api c) = 1"
    "\<not> events_poisoned (api c)" "\<not> eosnode_poisoned (api c)"
    "buffers c 0 = \<lparr>cb_messages = [], cb_poisoned = False\<rparr>"
proof -
  have reach: "chat_reachable pk json sample_chat"
    by (rule init) (simp add: chat_initial_def sample_chat_def fresh_state_def)
  obtain s where s: "handler_join ''room'' (api sample_chat) = (Some sample_reader, s)"
    "chat_events s = [Join 1 ''room'' 0]" "next_buffer s = 1" "\<not> events_poisoned s" "\<not> eosnode_poisoned s"
    by (simp add: sample_chat_def fresh_state_def handler_join_def chat_reader_new_def
        with_events_def Let_def sample_reader_def)
  note chat_reachable.step [OF reach chat_step.join [OF s(1)]]
  then show thesis
    by (rule that) (simp_all add: s sample_chat_def sample_reader_def)
qed

lemma sample_chat_caught_up:
  obtains c :: "log chat_system" where "chat_reachable pk json c" "readers c = [sample_reader]"
    "chat_events (api c) = []" "next_buffer (api c) = 1"
    "buffers c 0 = \<lparr>cb_messages = [], cb_poisoned = False\<rparr>"
proof -
  obtain c :: "log chat_system" where c: "chat_reachable pk json c" "readers c = [sample_reader]"
    "chat_events (api c) = [Join 1 ''room'' 0]" "next_buffer (api c) = 1"
    "\<not> events_poisoned (api c)" "\<not> eosnode_poisoned (api c)"
    "buffers c 0 = \<lparr>cb_messages = [], cb_poisoned = False\<rparr>"
    by (rule sample_chat_joined)
  obtain s' st' where turn: "chat_turn (api c, loop c) = Some (s', st')"
    using c(5,6) by (simp add: chat_turn_def with_events_def)
  note chat_reachable.step [OF c(1) chat_step.turn [OF turn]]
  then show thesis
    by (rule that) (simp_all add: c turn_effect [OF turn])
qed

theorem chat_turn_listens_to_live_readers_witness:
  "\<exists>st :: chat_loop. map snd (listeners st) = [(''room'', 0)] \<and> dom (map_of (tokens st)) = {(1, ''room'')}"
proof -
  obtain c :: "log chat_system" where c: "chat_reachable ''pk'' plain_json c" "readers c = [sample_reader]"
    "chat_events (api c) = [Join 1 ''room'' 0]" "next_buffer (api c) = 1"
    "\<not> events_poisoned (api c)" "\<not> eosnode_poisoned (api c)"
    by (rule sample_chat_joined)
  then obtain s' st' where turn: "chat_turn (api c, loop c) = Some (s', st')"
    by (simp add: chat_turn_def with_events_def)
  have "next_buffer (api c) < 2 ^ 64" using c(4) by simp
  note live = chat_turn_listens_to_live_readers [OF c(1) this turn, unfolded c(2)]
  have "map snd (listeners st') = map (\<lambda>r. (cr_room r, cr_chat r)) [sample_reader]"
    using live by (elim conjE)
  moreover have "dom (map_of (tokens st')) = (\<lambda>r. (cr_id r, cr_room r)) ` set [sample_reader]"
    using live by (elim conjE)
  moreover have "map (\<lambda>r. (cr_room r, cr_chat r)) [sample_reader] = [(''room'', 0)]"
    "(\<lambda>r. (cr_id r, cr_room r)) ` set [sample_reader] = {(1, ''room'')}"
    by (simp_all only: sample_reader_def list.map list.set image_insert image_empty chat_reader.select_convs)
  ultimately show ?thesis by (intro exI [of _ st'] conjI) (simp_all only:)
qed

text \<open>The message that a value becomes.\<close>

definition message_of :: "string \<Rightarrow> dht_value \<Rightarrow> chat_message" where
  "message_of pk v = \<lparr>cm_author = (case dv_owner v of Some owner \<Rightarrow> owner | None \<Rightarrow> []),
     cm_body = from_utf8_or_empty (dv_bytes v), cm_encrypted = (dv_recipient v = pk)\<rparr>"

lemma chat_cb_appends:
  "from_utf8_or_empty (dv_bytes v) \<noteq> [] \<Longrightarrow> \<not> cb_poisoned b \<Longrightarrow>
   chat_cb pk v False b = Some (b\<lparr>cb_messages := cb_messages b @ [message_of pk v]\<rparr>)"
  by (simp add: chat_cb_def message_of_def Let_def)

lemma call_back_all_appends:
  assumes "\<forall>t\<in>set calls. \<exists>r b. map_of (listeners st) t = Some (r, b) \<and> \<not> cb_poisoned (bufs b)"
    and "from_utf8_or_empty (dv_bytes v) \<noteq> []"
  shows "call_back_all pk v False st calls bufs =
    Some (\<lambda>b. (bufs b)\<lparr>cb_messages := cb_messages (bufs b) @
      replicate (length (filter (\<lambda>t. \<exists>r. map_of (listeners st) t = Some (r, b)) calls)) (message_of pk v)\<rparr>)"
  using assms(1)
proof (induction calls arbitrary: bufs)
  case (Cons t ts)
  obtain r b where b: "map_of (listeners st) t = Some (r, b)" "\<not> cb_poisoned (bufs b)"
    using Cons.prems by auto
  define bufs' where "bufs' = bufs(b := (bufs b)\<lparr>cb_messages := cb_messages (bufs b) @ [message_of pk v]\<rparr>)"
  have step: "call_back pk v False st t bufs = Some bufs'"
    using b assms(2) by (simp add: call_back_def chat_cb_appends bufs'_def)
  have "\<forall>t\<in>set ts. \<exists>r b. map_of (listeners st) t = Some (r, b) \<and> \<not> cb_poisoned (bufs' b)"
    using Cons.prems b(2) unfolding bufs'_def by fastforce
  note rest = Cons.IH [OF this]
  have "(bufs' b')\<lparr>cb_messages := cb_messages (bufs' b') @
        replicate (length (filter (\<lambda>t. \<exists>r. map_of (listeners st) t = Some (r, b')) ts)) (message_of pk v)\<rparr> =
      (bufs b')\<lparr>cb_messages := cb_messages (bufs b') @
        replicate (length (filter (\<lambda>t. \<exists>r. map_of (listeners st) t = Some (r, b')) (t # ts))) (message_of pk v)\<rparr>"
    for b'
    using b(1) by (cases "b' = b") (simp_all add: bufs'_def)
  then show ?case by (simp only: call_back_all.simps step bind.bind_lunit rest)
qed simp

text \<open>What OpenDHT documents of \<open>listen\<close>: until it is cancelled, the callback is called for every value
  under the hash. In which order the callbacks are run, and how often each of them is called with a
  value, is not said.\<close>

definition dht_calls :: "(string \<Rightarrow> 'h) \<Rightarrow> string \<Rightarrow> chat_loop \<Rightarrow> nat list \<Rightarrow> bool" where
  "dht_calls hash room st calls \<longleftrightarrow>
     set calls = set (map fst (filter (\<lambda>(_, r, _). hash r = hash room) (listeners st)))"

text \<open>The token of a reader finds exactly its buffer.\<close>

lemma serves_token:
  assumes st: "serves st rs ns" and bufs: "distinct (map cr_chat rs)" and keys: "distinct (map reader_key rs)"
    and r: "r \<in> set rs" and t: "map_of (tokens st) (reader_key r) = Some n"
  shows "map_of (listeners st) n = Some (cr_room r, cr_chat r)"
    and "map_of (listeners st) n' = Some (room, cr_chat r) \<Longrightarrow> n' = n"
proof -
  have len: "length ns = length rs" and dist: "distinct ns"
    and ls: "listeners st = map (\<lambda>(r, n). (n, cr_room r, cr_chat r)) (zip rs ns)"
    and toks: "map_of (tokens st) = map_of (map (\<lambda>(r, n). (reader_key r, n)) (zip rs ns))"
    using st by (simp_all add: serves_def)
  have "(reader_key r, n) \<in> set (map (\<lambda>(r, n). (reader_key r, n)) (zip rs ns))"
    using t unfolding toks by (rule map_of_SomeD)
  then obtain r' where r': "(r', n) \<in> set (zip rs ns)" "reader_key r' = reader_key r" by auto
  then have "r' = r"
    using keys r by (auto simp: distinct_map dest!: set_zip_leftD inj_onD)
  with r' have pair: "(r, n) \<in> set (zip rs ns)" by simp
  have "map fst (listeners st) = map snd (zip rs ns)" by (simp add: ls case_prod_beta comp_def)
  then have fsts: "distinct (map fst (listeners st))" using len dist by simp
  have "(n, cr_room r, cr_chat r) \<in> set (listeners st)" using pair by (auto simp: ls)
  with fsts show "map_of (listeners st) n = Some (cr_room r, cr_chat r)" by simp
  assume "map_of (listeners st) n' = Some (room, cr_chat r)"
  then obtain r'' where r'': "(r'', n') \<in> set (zip rs ns)" "cr_chat r'' = cr_chat r"
    by (auto simp: ls dest!: map_of_SomeD)
  then have "r'' = r"
    using bufs r by (auto simp: distinct_map dest!: set_zip_leftD inj_onD)
  with r'' pair have "(r, n') \<in> set (zip rs ns)" by simp
  moreover have "distinct rs" using keys by (simp add: distinct_map)
  ultimately show "n' = n"
    using pair len by (auto simp: set_zip distinct_conv_nth)
qed

text \<open>C31: A message reaches exactly its room: once the loop has caught up, and when the DHT calls back
  the listeners of the hash of a room, in any order and any number of times, with a value that has a
  text, no callback panics, the message is appended, with its author and the mark of an encrypted
  message, to the buffer of every live reader of that room, as often as its callback was run, and no
  other buffer changes.\<close>

theorem chat_delivers_to_room:
  assumes "chat_reachable pk json c" "next_buffer (api c) < 2 ^ 64" "chat_events (api c) = []"
    and "\<forall>r\<in>set (readers c). \<not> cb_poisoned (buffers c (cr_chat r))"
    and "from_utf8_or_empty (dv_bytes v) \<noteq> []" "dht_calls hash room (loop c) calls"
  shows "\<exists>bufs. call_back_all pk v False (loop c) calls (buffers c) = Some bufs \<and>
    (\<forall>r\<in>set (readers c).
       let n = count_list calls (the (map_of (tokens (loop c)) (cr_id r, cr_room r)));
           m = \<lparr>cm_author = (case dv_owner v of Some owner \<Rightarrow> owner | None \<Rightarrow> []),
             cm_body = from_utf8_or_empty (dv_bytes v), cm_encrypted = (dv_recipient v = pk)\<rparr>
       in (0 < n \<longleftrightarrow> hash (cr_room r) = hash room) \<and>
          bufs (cr_chat r) = (buffers c (cr_chat r))
            \<lparr>cb_messages := cb_messages (buffers c (cr_chat r)) @ replicate n m\<rparr>) \<and>
    (\<forall>b. b \<notin> cr_chat ` set (readers c) \<longrightarrow> bufs b = buffers c b)"
proof -
  have inv: "chat_inv c" using assms(1,2) by (rule chat_inv_reachable)
  then obtain ns where ns: "serves (loop c) (readers c) ns"
    using assms(3) by (auto simp: chat_inv_def settled_def)
  have ok: "readers_ok (api c) (readers c)" using inv by (simp add: chat_inv_def)
  have dist: "distinct (map cr_chat (readers c))" "distinct (map reader_key (readers c))"
    using ok readers_ok_keys(2) [OF ok assms(2)] by (simp_all add: readers_ok_def)
  let ?L = "map_of (listeners (loop c))"
  have len: "length ns = length (readers c)" and "distinct ns"
    and ls: "listeners (loop c) = map (\<lambda>(r, n). (n, cr_room r, cr_chat r)) (zip (readers c) ns)"
    using ns by (simp_all add: serves_def)
  have "map fst (listeners (loop c)) = map snd (zip (readers c) ns)"
    by (simp add: ls case_prod_beta comp_def)
  then have fsts: "distinct (map fst (listeners (loop c)))" using len \<open>distinct ns\<close> by simp
  have room: "?L t = Some (r, b) \<and> hash r = hash room \<longrightarrow> t \<in> set calls"
    and called: "t \<in> set calls \<Longrightarrow> \<exists>r b. ?L t = Some (r, b) \<and> hash r = hash room" for t r b
    using assms(6) fsts by (force simp: dht_calls_def dest: map_of_SomeD)+
  have buf: "b \<in> cr_chat ` set (readers c)" if "?L t = Some (r, b)" for t r b
    using that by (auto simp: ls dest!: map_of_SomeD set_zip_leftD)
  have "\<forall>t\<in>set calls. \<exists>r b. ?L t = Some (r, b) \<and> \<not> cb_poisoned (buffers c b)"
    using called buf assms(4) by fast
  note run = call_back_all_appends [OF this assms(5), of pk, unfolded message_of_def]
  have count: "length (filter (\<lambda>t. \<exists>room. ?L t = Some (room, cr_chat r)) calls) = count_list calls n"
    and positive: "0 < count_list calls n \<longleftrightarrow> hash (cr_room r) = hash room"
    if r: "r \<in> set (readers c)" and n: "map_of (tokens (loop c)) (reader_key r) = Some n" for r n
  proof -
    note token = serves_token [OF ns dist r n]
    have "(\<exists>room. ?L t = Some (room, cr_chat r)) \<longleftrightarrow> n = t" for t
      using token(1) token(2) [of t] by blast
    then show "length (filter (\<lambda>t. \<exists>room. ?L t = Some (room, cr_chat r)) calls) = count_list calls n"
      by (simp add: count_list_eq_length_filter)
    show "0 < count_list calls n \<longleftrightarrow> hash (cr_room r) = hash room"
      using token(1) room called [of n] by (auto simp: count_list_0_iff zero_less_iff_neq_zero)
  qed
  have token: "\<exists>n. map_of (tokens (loop c)) (reader_key r) = Some n" if "r \<in> set (readers c)" for r
  proof -
    have "reader_key r \<in> dom (map_of (tokens (loop c)))" using that by (simp add: serves_keys [OF ns])
    then show ?thesis by auto
  qed
  have "filter (\<lambda>t. \<exists>r. ?L t = Some (r, b)) calls = []" if "b \<notin> cr_chat ` set (readers c)" for b
    using buf that by (fastforce simp: filter_empty_conv)
  then show ?thesis
    using run count positive token by (auto simp: Let_def reader_key_def)
qed

text \<open>Two callbacks with the same value: the message is there twice.\<close>

theorem chat_delivers_to_room_witness:
  "\<exists>c :: log chat_system. \<exists>bufs t. readers c = [sample_reader] \<and>
     call_back_all ''pk'' \<lparr>dv_bytes = ''hi'', dv_owner = None, dv_recipient = ''pk''\<rparr> False (loop c) [t, t]
       (buffers c) = Some bufs \<and>
     cb_messages (bufs 0) = replicate 2 \<lparr>cm_author = [], cm_body = ''hi'', cm_encrypted = True\<rparr>"
proof -
  obtain c :: "log chat_system" where c: "chat_reachable ''pk'' plain_json c"
    "readers c = [sample_reader]" "chat_events (api c) = []" "next_buffer (api c) = 1"
    "buffers c 0 = \<lparr>cb_messages = [], cb_poisoned = False\<rparr>"
    by (rule sample_chat_caught_up)
  let ?v = "\<lparr>dv_bytes = ''hi'', dv_owner = None, dv_recipient = ''pk''\<rparr>"
  have bound: "next_buffer (api c) < 2 ^ 64" using c(4) by simp
  then obtain ns where "serves (loop c) (readers c) ns"
    using chat_inv_reachable [OF c(1)] c(3) by (auto simp: chat_inv_def settled_def)
  then obtain t where t: "listeners (loop c) = [(t, ''room'', 0)]"
    "map_of (tokens (loop c)) (1, ''room'') = Some t"
    unfolding serves_def c(2) by (cases ns) (auto simp: sample_reader_def reader_key_def)
  have "dht_calls (\<lambda>room. room) ''room'' (loop c) [t, t]" by (simp add: dht_calls_def t(1))
  moreover have "\<forall>r\<in>set (readers c). \<not> cb_poisoned (buffers c (cr_chat r))"
    "from_utf8_or_empty (dv_bytes ?v) \<noteq> []" "from_utf8_or_empty ''hi'' = ''hi''"
    using c by (simp_all add: sample_reader_def from_utf8_or_empty_def in_range_def)
  ultimately show ?thesis
    using chat_delivers_to_room [OF c(1) bound c(3), of ?v "\<lambda>room. room" "''room''" "[t, t]"] c(2,5) t(2)
    by (fastforce simp: sample_reader_def numeral_eq_Suc)
qed

end
