(* ===== verification/Node_System.thy ===== *)
theory Node_System
  imports Board_Spec Chat_Correct
begin

text \<open>
  The whole node: what \<open>main\<close> of \<open>src/vDexNode/api/src/main.rs\<close> builds before it launches the server,
  and the system that then runs: requests, announcements of other nodes, chat streams that are opened,
  read and closed, turns of the chat loop and values that arrive for it, in any order.
\<close>

section \<open>Start-up\<close>

text \<open>\<open>Handler::new\<close>, with the data behind the locks that \<open>main\<close> has created.\<close>

definition handler_new :: "'d \<Rightarrow> eos_info \<Rightarrow> bitcoin \<Rightarrow> 'd api_state" where
  "handler_new d info bitcoin =
     \<lparr>dht = d, node_info = info, nodes = [], chat_events = [], chat_readers_idx = 0, next_buffer = 0,
      api_bitcoin = bitcoin, handler_poisoned = False, eosnode_poisoned = False, nodes_poisoned = False,
      events_poisoned = False\<rparr>"

text \<open>\<open>main\<close> up to the launch; \<open>join\<close> is the DHT that runs with a configuration and a bootstrap address.
  The inner \<open>None\<close> is a panic.\<close>

definition node_start ::
  "(string \<Rightarrow> 'm option) \<Rightarrow> ('m cors_options \<Rightarrow> 'c option) \<Rightarrow>
   ('d, 'h) dht_lib \<Rightarrow> codecs \<Rightarrow> (eos_info \<Rightarrow> string option) \<Rightarrow> (dht_config \<Rightarrow> (string \<times> u16) option \<Rightarrow> 'd) \<Rightarrow>
   (string \<Rightarrow> bool) \<Rightarrow> (string \<Rightarrow> string \<Rightarrow> bool) \<Rightarrow> opt \<Rightarrow> string \<Rightarrow> string \<Rightarrow> (nat \<Rightarrow> string list) \<Rightarrow> http_get \<Rightarrow>
   http_get \<Rightarrow> string \<Rightarrow> string \<Rightarrow> 'd chat_system option option" where
  "node_start from_str to_cors L J encode join import_cert import_key opt node_id public_key query ipv4 ipv6
     uuid_keygen uuid_sign =
     map_option (\<lambda>node. do {
         (config, target, info) \<leftarrow> node;
         d \<leftarrow> announce L encode info (join config target);
         let (r, s) = server_run from_str to_cors L J uuid_keygen uuid_sign (handler_new d info (main_bitcoin opt));
         _ \<leftarrow> r;
         Some \<lparr>api = s, loop = \<lparr>tokens = [], listeners = [], next_token = 0\<rparr>,
           buffers = (\<lambda>_. \<lparr>cb_messages = [], cb_poisoned = False\<rparr>), readers = []\<rparr> })
       (eosnode_new import_cert import_key opt node_id public_key query ipv4 ipv6)"

section \<open>The running node\<close>

text \<open>The callback on the hash of \<open>eos\<close>, with the lock of the node table.\<close>

definition eos_announced ::
  "(string \<Rightarrow> eos_info option) \<Rightarrow> string \<Rightarrow> bool \<Rightarrow> 'd api_state \<Rightarrow> 'd api_state option" where
  "eos_announced decode v expired s =
     (if decode v = None then Some s
      else if nodes_poisoned s then None
      else Some (s\<lparr>nodes := value_cb decode (v, expired) (nodes s)\<rparr>))"

datatype node_event =
    Request request
  | Announced string bool
  | Closed chat_reader
  | Turn
  | Arrived dht_value bool "nat list"
  | Read_Stream chat_reader nat

text \<open>\<open>Arrived\<close> carries the tokens of the callbacks that the DHT runs on a value of a chat room. A request
  that opens a stream hands its reader to Rocket, which reads it and drops it at the end;
  a panic of any request leaves the state behind in which it stopped.\<close>

inductive node_step ::
  "('d, 'h) dht_lib \<Rightarrow> codecs \<Rightarrow> env \<Rightarrow> (string \<Rightarrow> eos_info option) \<Rightarrow> string \<Rightarrow> (chat_message \<Rightarrow> string option) \<Rightarrow>
   'd chat_system \<Rightarrow> node_event \<Rightarrow> 'd chat_system \<Rightarrow> bool" for L J E decode pk json where
  open_stream: "stream_endpoint (env_decode E) raw (api c) = (Some (Inr r), s') \<Longrightarrow>
    node_step L J E decode pk json c (Request (Req_Stream raw))
      (c\<lparr>api := s', readers := readers c @ [r],
         buffers := (buffers c)(cr_chat r := \<lparr>cb_messages = [], cb_poisoned = False\<rparr>)\<rparr>)"
| no_stream: "stream_endpoint (env_decode E) raw (api c) = (r, s') \<Longrightarrow> r = None \<or> r = Some (Inl ()) \<Longrightarrow>
    node_step L J E decode pk json c (Request (Req_Stream raw)) (c\<lparr>api := s'\<rparr>)"
| request: "\<forall>raw. q \<noteq> Req_Stream raw \<Longrightarrow> dispatch L J E q (api c) = (r, s') \<Longrightarrow>
    node_step L J E decode pk json c (Request q) (c\<lparr>api := s'\<rparr>)"
| announced: "eos_announced decode v expired (api c) = Some s' \<Longrightarrow>
    node_step L J E decode pk json c (Announced v expired) (c\<lparr>api := s'\<rparr>)"
| closed: "r \<in> set (readers c) \<Longrightarrow> chat_reader_drop r (api c) = (Some r', s') \<Longrightarrow>
    node_step L J E decode pk json c (Closed r) (c\<lparr>api := s', readers := remove1 r (readers c)\<rparr>)"
| turn: "chat_turn (api c, loop c) = Some (s', st') \<Longrightarrow>
    node_step L J E decode pk json c Turn (c\<lparr>api := s', loop := st'\<rparr>)"
| arrived: "call_back_all pk v expired (loop c) calls (buffers c) = Some bufs \<Longrightarrow>
    node_step L J E decode pk json c (Arrived v expired calls) (c\<lparr>buffers := bufs\<rparr>)"
| read: "r \<in> set (readers c) \<Longrightarrow> chat_read json r n (buffers c (cr_chat r)) = (x, b') \<Longrightarrow>
    node_step L J E decode pk json c (Read_Stream r n) (c\<lparr>buffers := (buffers c)(cr_chat r := b')\<rparr>)"

inductive_cases request_stepE: "node_step L J E decode pk json c (Request q) c'"
inductive_cases announced_stepE: "node_step L J E decode pk json c (Announced v expired) c'"

text \<open>What the clients and the other nodes may do: \<open>benign\<close> requests, and announcements with an address.\<close>

fun friendly ::
  "('d, 'h) dht_lib \<Rightarrow> codecs \<Rightarrow> env \<Rightarrow> (string \<Rightarrow> eos_info option) \<Rightarrow> 'd api_state \<Rightarrow> node_event \<Rightarrow> bool" where
  "friendly L J E decode s (Request q) = benign L J E s q"
| "friendly L J E decode s (Announced v expired) =
     (case decode v of None \<Rightarrow> True | Some n \<Rightarrow> expired \<or> ei_ips n \<noteq> [])"
| "friendly L J E decode s _ = True"

inductive node_run ::
  "('d, 'h) dht_lib \<Rightarrow> codecs \<Rightarrow> env \<Rightarrow> (string \<Rightarrow> eos_info option) \<Rightarrow> string \<Rightarrow> (chat_message \<Rightarrow> string option) \<Rightarrow>
   'd chat_system \<Rightarrow> node_event list \<Rightarrow> 'd chat_system \<Rightarrow> bool" for L J E decode pk json c where
  start: "node_run L J E decode pk json c [] c"
| next_event: "node_run L J E decode pk json c es c' \<Longrightarrow> friendly L J E decode (api c') e \<Longrightarrow>
    node_step L J E decode pk json c' e c'' \<Longrightarrow> node_run L J E decode pk json c (es @ [e]) c''"

section \<open>What the requests leave alone\<close>

definition chat_part :: "'d api_state \<Rightarrow> chat_event list \<times> u64 \<times> nat" where
  "chat_part s = (chat_events s, chat_readers_idx s, next_buffer s)"

lemma chat_part_simps [simp]:
  "chat_part (s\<lparr>dht := d\<rparr>) = chat_part s" "chat_part (s\<lparr>nodes := ns\<rparr>) = chat_part s"
  "chat_part (s\<lparr>handler_poisoned := b\<rparr>) = chat_part s" "chat_part (s\<lparr>eosnode_poisoned := b\<rparr>) = chat_part s"
  "chat_part (s\<lparr>nodes_poisoned := b\<rparr>) = chat_part s"
  by (simp_all add: chat_part_def)

definition silent :: "('d api_state, 'a) act \<Rightarrow> bool" where
  "silent m \<longleftrightarrow> (\<forall>s. chat_part (snd (m s)) = chat_part s)"

named_theorems silent_intros \<open>operations that leave the chat alone\<close>

lemma silent_basic [silent_intros]:
  "silent (done_with a)" "silent panic" "silent (unwrap x)" "silent (with_bitcoin call)"
  by (simp_all add: silent_def done_with_def panic_def unwrap_def with_bitcoin_def split: option.splits)

lemma silent_and_then [silent_intros]:
  "silent m \<Longrightarrow> (\<And>a. silent (k a)) \<Longrightarrow> silent (and_then m k)"
  by (auto simp: silent_def and_then_def split: option.splits prod.splits) (metis snd_conv)+

lemma silent_locks [silent_intros]:
  assumes "silent m"
  shows "silent (with_handler m)" "silent (with_eosnode m)" "silent (with_nodes m)"
  using assms
  by (auto simp: silent_def with_handler_def with_eosnode_def with_nodes_def split: option.splits prod.splits)
    (metis snd_conv)+

lemma silent_state [silent_intros]:
  "(\<And>s. chat_part (f s) = chat_part s) \<Longrightarrow> silent (\<lambda>s. (g s, f s))"
  by (simp add: silent_def)

lemma silent_handler [silent_intros]:
  "silent (handler_insert L key v)" "silent (handler_get L key)" "silent handler_info"
  "silent get_connected_nodes" "silent get_connected_ips" "silent (get_nodes_location locate fetch)"
  "silent (handler_send L room m)" "silent (handler_send_to_user L room u m)"
  unfolding handler_insert_def handler_get_def handler_info_def get_connected_nodes_def
    get_connected_ips_def get_nodes_location_def handler_send_def handler_send_to_user_def
  by (intro silent_intros; simp)+

lemma silent_dispatch:
  assumes "\<forall>raw. q \<noteq> Req_Stream raw"
  shows "silent (dispatch L J E q)"
proof (cases q)
  case (Req_Stream raw)
  then show ?thesis using assms by simp
qed (simp_all add: dispatch_def discard_def set_endpoint_def get_endpoint_def salted_key_def
    signup_keygen_def signup_sign_def signup_body_def connected_nodes_def connected_ips_def
    nodes_location_def country_def node_infos_def put_msg_def put_encrypted_msg_def
    ep_getnewaddress_def ep_dumpprivkey_def ep_getbalance_def ep_addmultisigaddress_def
    ep_createmultisig_def ep_gettransaction_def ep_sendtoaddress_def ep_signmessage_def Let_def silent_intros)

section \<open>The invariant\<close>

lemma stream_joins:
  "stream_endpoint decode raw s = (Some (Inr r), s') \<Longrightarrow> handler_join (url_decoded decode raw) s = (Some r, s')"
  by (auto simp: stream_endpoint_def with_handler_def Let_def and_then_def done_with_def
      split: if_splits option.splits prod.splits)

lemma stream_empty: "stream_endpoint decode raw s = (Some (Inl ()), s') \<Longrightarrow> s' = s"
  by (auto simp: stream_endpoint_def with_handler_def Let_def and_then_def done_with_def
      split: if_splits option.splits prod.splits)

lemma chat_inv_cong:
  "chat_part s' = chat_part (api c) \<Longrightarrow> chat_inv (c\<lparr>api := s'\<rparr>) = chat_inv c"
  by (simp add: chat_inv_def readers_ok_def settled_def chat_part_def)

lemma server_ok_events:
  assumes "server_ok L J s"
  shows "server_ok L J (s\<lparr>chat_events := es\<rparr>)"
  by (rule server_ok_frame [OF assms]) simp_all

lemma server_ok_announced:
  assumes "server_ok L J s" "eos_announced decode v expired s = Some s'"
    and "friendly L J E decode s (Announced v expired)"
  shows "server_ok L J s'" "chat_part s' = chat_part s"
proof -
  let ?ok = "list_all (\<lambda>(_, n). ei_ips n \<noteq> [])"
  have "?ok (value_cb decode (v, expired) (nodes s))"
    using assms(1,3)
    by (fastforce simp: server_ok_def value_cb_def list_all_iff AList.delete_eq dest: set_alist_update
        split: option.splits)
  moreover have "server_ok L J (s\<lparr>nodes := ns\<rparr>)" if "?ok ns" for ns
  proof -
    have "counter_ok L J (s\<lparr>nodes := ns\<rparr>) key = counter_ok L J s key" for key
      by (rule counter_ok_cong) (simp_all add: key_hash_def)
    then show ?thesis
      using assms(1) that by (simp add: server_ok_def api_ok_def unlocked_def)
  qed
  ultimately show "server_ok L J s'" "chat_part s' = chat_part s"
    using assms(1,2) by (auto simp: eos_announced_def split: if_splits)
qed

lemma node_step_keeps:
  assumes "node_step L J E decode pk json c e c'" "encrypted_local L"
    and "server_ok L J (api c)" "chat_inv c" "friendly L J E decode (api c) e"
    and "next_buffer (api c') < 2 ^ 64"
  shows "server_ok L J (api c') \<and> chat_inv c'"
  using assms(1)
proof cases
  case (open_stream raw r s')
  have "server_ok L J s'"
    using answers_stream [OF assms(3), of "env_decode E" raw] open_stream(3) by (simp add: answers_def)
  moreover have "chat_inv c'"
    using chat_inv_step [OF chat_step.join [OF stream_joins [OF open_stream(3)]] assms(4)] assms(6)
      open_stream(2) by simp
  ultimately show ?thesis using open_stream(2) by simp
next
  case (no_stream raw r s')
  have "r \<noteq> None"
    using answers_stream [OF assms(3), of "env_decode E" raw] no_stream(3) by (auto simp: answers_def)
  then have "s' = api c" using no_stream(3,4) stream_empty by blast
  then show ?thesis using assms(3,4) no_stream(2) by simp
next
  case (request q r s')
  have "benign L J E (api c) q" using assms(5) request(1) by simp
  from answers_dispatch [OF assms(3,2) this] have "server_ok L J s'"
    using request(4) by (auto simp: answers_def)
  moreover have "chat_part s' = chat_part (api c)"
    using silent_dispatch [OF request(3), of L J E] request(4) by (metis silent_def snd_conv)
  ultimately show ?thesis using assms(4) request(2) by (simp add: chat_inv_cong)
next
  case (announced v expired s')
  then show ?thesis
    using server_ok_announced [OF assms(3) announced(3)] assms(4,5) by (simp add: chat_inv_cong)
next
  case (closed r r' s')
  have "s' = (api c)\<lparr>chat_events := chat_events s'\<rparr>"
    using closed(4) by (auto simp: chat_reader_drop_def with_events_def split: if_splits)
  then have "server_ok L J s'" using server_ok_events [OF assms(3)] by metis
  moreover have "chat_inv c'"
    using chat_inv_step [OF chat_step.drop [OF closed(3,4)] assms(4)] assms(6) closed(2) by simp
  ultimately show ?thesis using closed(2) by simp
next
  case (turn s' st')
  have "s' = (api c)\<lparr>chat_events := []\<rparr>"
    using turn(3) by (auto simp: chat_turn_def with_events_def split: if_splits)
  then have "server_ok L J s'" using server_ok_events [OF assms(3)] by simp
  moreover have "chat_inv c'"
    using chat_inv_step [OF chat_step.turn [OF turn(3)] assms(4)] assms(6) turn(2) by simp
  ultimately show ?thesis using turn(2) by simp
next
  case (arrived v expired calls bufs)
  then show ?thesis using assms(3,4) by (simp add: chat_inv_def settled_def)
next
  case (read r n x b')
  then show ?thesis using assms(3,4) by (simp add: chat_inv_def settled_def)
qed

lemma node_step_buffers:
  assumes "node_step L J E decode pk json c e c'"
  shows "next_buffer (api c) \<le> next_buffer (api c')"
  using assms
proof cases
  case (open_stream raw r s')
  then show ?thesis using join_effect [OF stream_joins [OF open_stream(3)]] by simp
next
  case (no_stream raw r s')
  then show ?thesis
    by (auto simp: stream_endpoint_def with_handler_def Let_def and_then_def done_with_def handler_join_def
        chat_reader_new_def with_events_def split: if_splits option.splits prod.splits)
next
  case (request q r s')
  have "chat_part s' = chat_part (api c)"
    using silent_dispatch [OF request(3), of L J E] request(4) by (metis silent_def snd_conv)
  then show ?thesis using request(2) by (simp add: chat_part_def)
qed (auto simp: eos_announced_def split: if_splits dest!: drop_effect turn_effect)

lemma turn_possible: "server_ok L J s \<Longrightarrow> \<exists>s' st'. chat_turn (s, st) = Some (s', st')"
  by (simp add: server_ok_def api_ok_def unlocked_def chat_turn_def with_events_def)

text \<open>The DHT that the node joins holds nothing unreadable under the two counters of this node (usually
  nothing at all, since the identifier of the node is part of their hash), and the announcements
  have a hash of their own.\<close>

definition joins_clean ::
  "('d, 'h) dht_lib \<Rightarrow> codecs \<Rightarrow> (dht_config \<Rightarrow> (string \<times> u16) option \<Rightarrow> 'd) \<Rightarrow> string \<Rightarrow> bool" where
  "joins_clean L J join i \<longleftrightarrow>
     (\<forall>key\<in>{keygen_key, sign_key}.
        let h = hash_from_bytes L (the (msgpack_key J key) @ i) in
        h \<noteq> hash_get L ''eos'' \<and>
        (\<forall>config target. \<forall>t\<in>held L (join config target) h.
           \<exists>p. parse_signup J t = Some p \<and> utf8_valid (ps_uuid p)))"

lemma eosnode_new_id:
  "eosnode_new import_cert import_key opt i pk query ipv4 ipv6 = Some (Some (config, target, info)) \<Longrightarrow> ei_id info = i"
  by (auto simp: eosnode_new_def init_ips_def get_public_ips_def Let_def bind_eq_Some_conv split: if_splits)

lemma announced_clean:
  assumes "dht_store L" "joins_clean L J join (ei_id info)" "announce L encode info (join config target) = Some d"
    and "key \<in> {keygen_key, sign_key}"
  shows "counter_clean L J (handler_new d info bitcoin) key"
  using assms
  by (auto simp: announce_def counter_clean_def joins_clean_def Let_def key_hash_def handler_new_def
      held_other(1) split: option.splits)

lemma node_start_ok:
  assumes "dht_store L" "no_collisions L" "codec_laws J" "utf8_valid uk" "utf8_valid us" "joins_clean L J join i"
    and "node_start from_str to_cors L J encode join import_cert import_key opt i pk query ipv4 ipv6 uk us = Some (Some c)"
  shows "server_ok L J (api c) \<and> chat_inv c"
proof -
  obtain config target info where new: "eosnode_new import_cert import_key opt i pk query ipv4 ipv6 =
      Some (Some (config, target, info))"
    using assms(7) by (auto simp: node_start_def bind_eq_Some_conv)
  obtain d where put: "announce L encode info (join config target) = Some d"
    using assms(7) new by (auto simp: node_start_def bind_eq_Some_conv)
  obtain r s where run: "server_run from_str to_cors L J uk us (handler_new d info (main_bitcoin opt)) = (r, s)"
    by (rule prod.exhaust)
  have "server_run from_str to_cors L J uk us (handler_new d info (main_bitcoin opt)) = (Some (), s)"
    and c: "c = \<lparr>api = s, loop = \<lparr>tokens = [], listeners = [], next_token = 0\<rparr>,
      buffers = (\<lambda>_. \<lparr>cb_messages = [], cb_poisoned = False\<rparr>), readers = []\<rparr>"
    using assms(7) new put run by (auto simp: node_start_def bind_eq_Some_conv)
  then have s: "server_init L J uk us (handler_new d info (main_bitcoin opt)) = (Some (), s)"
    by (intro server_run_init)
  have ok: "api_ok (L, J, handler_new d info (main_bitcoin opt))"
    using assms(1-3) by (simp add: api_ok_def unlocked_def handler_new_def)
  have clean: "counter_clean L J (handler_new d info (main_bitcoin opt)) key"
    if "key \<in> {keygen_key, sign_key}" for key
    using assms(6) eosnode_new_id [OF new]
    by (intro announced_clean [where join = join and config = config and target = target, OF assms(1) _ put that]) simp
  obtain s' where "server_init L J uk us (handler_new d info (main_bitcoin opt)) = (Some (), s')"
    "api_ok (L, J, s')" "counter_ok L J s' keygen_key" "counter_ok L J s' sign_key"
    "s' = (handler_new d info (main_bitcoin opt))\<lparr>dht := dht s'\<rparr>"
    by (rule server_init_ok [OF ok assms(4,5) clean clean]) simp_all
  with s have s: "api_ok (L, J, s)" "counter_ok L J s keygen_key" "counter_ok L J s sign_key"
    "s = (handler_new d info (main_bitcoin opt))\<lparr>dht := dht s\<rparr>" by simp_all
  have "\<not> nodes_poisoned s" "\<not> events_poisoned s" "nodes s = []" "chat_events s = []"
    "chat_readers_idx s = 0" "next_buffer s = 0"
    by (subst s(4), simp add: handler_new_def)+
  then show ?thesis
    using s(1-3)
    by (simp add: c server_ok_def chat_inv_def readers_ok_def settled_def serves_def)
qed

lemma node_run_keeps:
  assumes "node_run L J E decode pk json c es c'" "encrypted_local L" "server_ok L J (api c)" "chat_inv c"
    and "next_buffer (api c') < 2 ^ 64"
  shows "server_ok L J (api c') \<and> chat_inv c'"
  using assms(1,5)
proof (induction rule: node_run.induct)
  case start
  show ?case using assms(3,4) by simp
next
  case (next_event es c' e c'')
  have "next_buffer (api c') < 2 ^ 64"
    using node_step_buffers [OF next_event.hyps(3)] next_event.prems by simp
  with next_event.IH show ?case
    by (intro node_step_keeps [OF next_event.hyps(3) assms(2) _ _ next_event.hyps(2) next_event.prems]) simp_all
qed

text \<open>C6: The node stays available under friendly events: after \<open>main\<close> has started it, whatever requests
  that do not write under the sign-up counters, announcements of nodes with an address, opened and
  closed chat streams, turns of the chat loop and values of the chat rooms follow in whatever order,
  and in whatever order the DHT delivers the entries of the counters, the locks are free and both
  counters are well-formed, every further request of this kind is answered, and the next turn of the
  chat loop succeeds and leaves exactly one listener for every open stream. (A request that writes a
  counter, or an announcement without an address, can end this.)
  (The chat identifiers are unique for the first \<open>2\<^sup>64\<close> streams.)\<close>

theorem node_stays_available:
  assumes "dht_store L" "no_collisions L" "codec_laws J" "encrypted_local L" "utf8_valid uk" "utf8_valid us"
    and "joins_clean L J join i"
    and "node_start from_str to_cors L J encode join import_cert import_key opt i pk0 query ipv4 ipv6 uk us = Some (Some c0)"
    and "node_run L J E decode pk json c0 es c" "next_buffer (api c) < 2 ^ 64"
  shows "server_ok L J (api c) \<and>
    (\<forall>q. benign L J E (api c) q \<longrightarrow> fst (dispatch L J E q (api c)) \<noteq> None) \<and>
    (\<exists>s' st'. chat_turn (api c, loop c) = Some (s', st') \<and>
       map snd (listeners st') = map (\<lambda>r. (cr_room r, cr_chat r)) (readers c))"
proof -
  have "server_ok L J (api c0) \<and> chat_inv c0" by (rule node_start_ok [OF assms(1-3,5-8)])
  then have inv: "server_ok L J (api c)" "chat_inv c"
    using node_run_keeps [OF assms(9,4) _ _ assms(10)] by simp_all
  obtain s' st' where turn: "chat_turn (api c, loop c) = Some (s', st')"
    using turn_possible [OF inv(1)] by blast
  have "st' = settled c" using turn_effect [OF turn] by (simp add: settled_def)
  then have "map snd (listeners st') = map (\<lambda>r. (cr_room r, cr_chat r)) (readers c)"
    using inv(2) serves_listeners by (auto simp: chat_inv_def)
  moreover have "fst (dispatch L J E q (api c)) \<noteq> None" if "benign L J E (api c) q" for q
    using answers_dispatch [OF inv(1) assms(4) that] by (auto simp: answers_def)
  ultimately show ?thesis using inv(1) turn by blast
qed

text \<open>A first node of the network, which learns its address from a service.\<close>

definition sample_opt :: opt where
  "sample_opt = \<lparr>opt_network = 0, opt_eoskey = ''eos1'', opt_bootstrap = [], opt_certificate = ''c'',
     opt_privkey = ''k'', opt_password = [], opt_port = 4222, opt_bitcoin_cli = ''bitcoin-cli'',
     opt_bitcoin_user = [], opt_bitcoin_password = [], opt_bitcoin_connect = ''localhost'',
     opt_bitcoin_port = ''8332''\<rparr>"

abbreviation sample_start :: "log chat_system option option" where
  "sample_start \<equiv> node_start Some (\<lambda>_ :: string cors_options. Some ()) log_dht esc_codecs (\<lambda>info. Some (ei_id info)) (\<lambda>_ _. []) (\<lambda>_. True) (\<lambda>_ _. True)
     sample_opt ''n1'' ''pk1'' (\<lambda>_. []) (Get_Ok (Some ''10.0.0.1'')) Get_Err ''k'' ''s''"

lemma sample_joins_clean: "joins_clean log_dht esc_codecs (\<lambda>_ _. []) ''n1''"
  by (simp add: joins_clean_def held_def log_dht_def esc_codecs_def esc_key_def keygen_key_def sign_key_def Let_def)

lemma sample_started:
  obtains c where "sample_start = Some (Some c)" "next_buffer (api c) = 0"
proof -
  let ?info = "\<lparr>ei_id = ''n1'', ei_ips = [''10.0.0.1''], ei_key = ''eos1'', ei_public_key = ''pk1''\<rparr>"
  let ?s = "handler_new [(''#eos'', ''n1'')] ?info (main_bitcoin sample_opt)"
  have ok: "api_ok (log_dht, esc_codecs, ?s)"
    by (simp add: api_ok_def unlocked_def handler_new_def log_dht_store esc_codec_laws)
  have "held log_dht (dht ?s) (key_hash log_dht esc_codecs ?s key) = {}"
    if "key \<in> {keygen_key, sign_key}" for key
    using that by (auto simp: held_def handler_new_def log_dht_def key_hash_def esc_codecs_def esc_key_def
        keygen_key_def sign_key_def)
  then have clean: "counter_clean log_dht esc_codecs ?s keygen_key" "counter_clean log_dht esc_codecs ?s sign_key"
    by (simp_all add: counter_clean_def)
  obtain s where s: "server_init log_dht esc_codecs ''k'' ''s'' ?s = (Some (), s)" "s = ?s\<lparr>dht := dht s\<rparr>"
    by (rule server_init_ok [OF ok _ _ clean, of "''k''" "''s''"]) (auto simp: in_range_def)
  have zero: "next_buffer s = 0" by (subst s(2)) (simp add: handler_new_def)
  have new: "eosnode_new (\<lambda>_. True) (\<lambda>_ _. True) sample_opt ''n1'' ''pk1'' (\<lambda>_. []) (Get_Ok (Some ''10.0.0.1''))
      Get_Err = Some (Some (\<lparr>dc_network = 0, dc_is_bootstrap = True, dc_port = 4222\<rparr>, None, ?info))"
    by (simp add: eosnode_new_def sample_opt_def get_public_ips_def public_ip_def Let_def)
  have put: "announce log_dht (\<lambda>info. Some (ei_id info)) ?info [] = Some [(''#eos'', ''n1'')]"
    by (simp add: announce_def log_dht_def)
  show thesis by (rule that, simp add: node_start_def server_run_def cors_config_def and_then_def unwrap_def done_with_def new put s(1)) (simp add: zero)
qed

theorem node_stays_available_witness:
  "\<exists>c0 c. sample_start = Some (Some c0) \<and>
     node_run log_dht esc_codecs sample_env (\<lambda>_. None) ''pk1'' plain_json c0 [Request Req_ConnectedIPs, Turn] c \<and>
     server_ok log_dht esc_codecs (api c)"
proof -
  let ?L = log_dht and ?J = esc_codecs and ?E = sample_env and ?d = "\<lambda>_. None :: eos_info option"
  have local: "encrypted_local log_dht" by (simp add: encrypted_local_def log_dht_def)
  have utf8: "utf8_valid ''k''" "utf8_valid ''s''" by (simp_all add: in_range_def)
  obtain c0 where c0: "sample_start = Some (Some c0)" "next_buffer (api c0) = 0" by (rule sample_started)
  note start = node_start_ok [OF log_dht_store esc_codec_laws utf8 sample_joins_clean c0(1)]
  obtain r s1 where q: "dispatch ?L ?J ?E Req_ConnectedIPs (api c0) = (r, s1)" by (rule prod.exhaust)
  let ?c1 = "c0\<lparr>api := s1\<rparr>"
  have "server_ok ?L ?J s1"
    using answers_dispatch [OF _ local, of ?J "api c0" ?E Req_ConnectedIPs] start q by (simp add: answers_def)
  then obtain s2 st2 where turn: "chat_turn (api ?c1, loop ?c1) = Some (s2, st2)"
    using turn_possible by fastforce
  let ?c2 = "?c1\<lparr>api := s2, loop := st2\<rparr>"
  have "node_run ?L ?J ?E ?d ''pk1'' plain_json c0 ([] @ [Request Req_ConnectedIPs]) ?c1"
    by (rule node_run.next_event [OF node_run.start _ node_step.request [OF _ q]]) simp_all
  note node_run.next_event [OF this _ node_step.turn [OF turn]]
  then have run: "node_run ?L ?J ?E ?d ''pk1'' plain_json c0 [Request Req_ConnectedIPs, Turn] ?c2"
    by simp
  have "chat_part s1 = chat_part (api c0)"
    using silent_dispatch [of Req_ConnectedIPs ?L ?J ?E] q by (metis request.distinct silent_def snd_conv)
  then have "next_buffer (api ?c2) < 2 ^ 64"
    using turn_effect turn c0(2) by (fastforce simp: chat_part_def)
  from node_stays_available [OF log_dht_store esc_codec_laws local utf8 sample_joins_clean c0(1) run this]
  show ?thesis using c0(1) run by auto
qed

end
