(* ===== verification/Node_Main.thy ===== *)
theory Node_Main
  imports Node_System
begin

text \<open>
  \<open>main\<close> of \<open>src/vDexNode/api/src/main.rs\<close> from the launch of the server to its return, beside the thread
  of the chat loop, which it stops with a flag and joins.
\<close>

section \<open>The threads\<close>

text \<open>The chat thread is at the test of its \<open>while\<close> loop or in the body, has left the loop, or has
  panicked. \<open>main\<close> is in \<open>Server::run\<close>, in \<open>join\<close>, or has returned.\<close>

datatype chat_thread = At_Test | In_Body | Left_Loop | Panicked

datatype main_thread = Serving | In_Join | Returned

record 'd node_process =
  np_system :: "'d chat_system"
  np_stop :: bool
  np_chat :: chat_thread
  np_main :: main_thread

datatype process_event =
    Other node_event
  | Test_Flag
  | Chat_Body
  | Server_Returns
  | Main_Joins

text \<open>The state after \<open>thread::spawn\<close>, when \<open>Server::run\<close> has launched Rocket.\<close>

definition main_start :: "'d chat_system \<Rightarrow> 'd node_process" where
  "main_start c = \<lparr>np_system = c, np_stop = False, np_chat = At_Test, np_main = Serving\<rparr>"

definition test_flag :: "'d node_process \<Rightarrow> 'd node_process option" where
  "test_flag p =
     (if np_chat p = At_Test then Some (p\<lparr>np_chat := if np_stop p then Left_Loop else In_Body\<rparr>) else None)"

definition chat_body :: "'d node_process \<Rightarrow> 'd node_process option" where
  "chat_body p =
     (if np_chat p = In_Body
      then (case chat_turn (api (np_system p), loop (np_system p)) of
              None \<Rightarrow> Some (p\<lparr>np_chat := Panicked\<rparr>)
            | Some (s, st) \<Rightarrow> Some (p\<lparr>np_system := (np_system p)\<lparr>api := s, loop := st\<rparr>, np_chat := At_Test\<rparr>))
      else None)"

definition server_returns :: "'d node_process \<Rightarrow> 'd node_process option" where
  "server_returns p = (if np_main p = Serving then Some (p\<lparr>np_stop := True, np_main := In_Join\<rparr>) else None)"

text \<open>\<open>join\<close> returns when the thread has ended, also by a panic; \<open>main\<close> ignores its result.\<close>

definition main_joins :: "'d node_process \<Rightarrow> 'd node_process option" where
  "main_joins p =
     (if np_main p = In_Join \<and> np_chat p \<in> {Left_Loop, Panicked} then Some (p\<lparr>np_main := Returned\<rparr>) else None)"

text \<open>Requests are served, and the DHT delivers, beside these threads, until \<open>main\<close> has returned; new
  requests only while the server runs.\<close>

fun is_request :: "node_event \<Rightarrow> bool" where
  "is_request (Request q) \<longleftrightarrow> True"
| "is_request _ \<longleftrightarrow> False"

inductive main_step ::
  "('d, 'h) dht_lib \<Rightarrow> codecs \<Rightarrow> env \<Rightarrow> (string \<Rightarrow> eos_info option) \<Rightarrow> string \<Rightarrow> (chat_message \<Rightarrow> string option) \<Rightarrow>
   'd node_process \<Rightarrow> process_event \<Rightarrow> 'd node_process \<Rightarrow> bool" for L J E decode pk json where
  other: "e \<noteq> Turn \<Longrightarrow> np_main p \<noteq> Returned \<Longrightarrow> (is_request e \<Longrightarrow> np_main p = Serving) \<Longrightarrow>
    friendly L J E decode (api (np_system p)) e \<Longrightarrow> node_step L J E decode pk json (np_system p) e c' \<Longrightarrow>
    main_step L J E decode pk json p (Other e) (p\<lparr>np_system := c'\<rparr>)"
| test: "np_main p \<noteq> Returned \<Longrightarrow> test_flag p = Some p' \<Longrightarrow> main_step L J E decode pk json p Test_Flag p'"
| body: "np_main p \<noteq> Returned \<Longrightarrow> chat_body p = Some p' \<Longrightarrow> main_step L J E decode pk json p Chat_Body p'"
| returns: "server_returns p = Some p' \<Longrightarrow> main_step L J E decode pk json p Server_Returns p'"
| joins: "main_joins p = Some p' \<Longrightarrow> main_step L J E decode pk json p Main_Joins p'"

inductive main_run ::
  "('d, 'h) dht_lib \<Rightarrow> codecs \<Rightarrow> env \<Rightarrow> (string \<Rightarrow> eos_info option) \<Rightarrow> string \<Rightarrow> (chat_message \<Rightarrow> string option) \<Rightarrow>
   'd node_process \<Rightarrow> process_event list \<Rightarrow> 'd node_process \<Rightarrow> bool" for L J E decode pk json p where
  start: "main_run L J E decode pk json p [] p"
| next_event: "main_run L J E decode pk json p es p' \<Longrightarrow> main_step L J E decode pk json p' e p'' \<Longrightarrow>
    main_run L J E decode pk json p (es @ [e]) p''"

section \<open>The node behind the threads\<close>

text \<open>The steps of the process are steps of the node, or leave it as it is.\<close>

lemma main_step_node:
  assumes "main_step L J E decode pk json p e p'" "np_chat p' \<noteq> Panicked"
  shows "np_system p' = np_system p \<or>
    (\<exists>e'. friendly L J E decode (api (np_system p)) e' \<and> node_step L J E decode pk json (np_system p) e' (np_system p'))"
  using assms
proof cases
  case (other e c')
  then show ?thesis by auto
next
  case body
  then show ?thesis
    using assms(2)
    by (auto simp: chat_body_def split: if_splits option.splits intro!: exI [of _ Turn] node_step.turn)
qed (auto simp: test_flag_def server_returns_def main_joins_def split: if_splits)

definition process_ok :: "('d, 'h) dht_lib \<Rightarrow> codecs \<Rightarrow> 'd node_process \<Rightarrow> bool" where
  "process_ok L J p \<longleftrightarrow>
     server_ok L J (api (np_system p)) \<and> chat_inv (np_system p) \<and> np_chat p \<noteq> Panicked \<and>
     (np_stop p \<longleftrightarrow> np_main p \<noteq> Serving) \<and> (np_chat p = Left_Loop \<longrightarrow> np_stop p) \<and>
     (np_main p = Returned \<longrightarrow> np_chat p = Left_Loop)"

lemma main_step_buffers:
  assumes "main_step L J E decode pk json p e p'"
  shows "next_buffer (api (np_system p)) \<le> next_buffer (api (np_system p'))"
  using assms
proof cases
  case (other e c')
  then show ?thesis using node_step_buffers by simp
next
  case body
  then show ?thesis by (auto simp: chat_body_def split: if_splits option.splits dest!: turn_effect)
qed (auto simp: test_flag_def server_returns_def main_joins_def split: if_splits)

lemma process_ok_step:
  assumes "main_step L J E decode pk json p e p'" "encrypted_local L" "process_ok L J p"
    and "next_buffer (api (np_system p')) < 2 ^ 64"
  shows "process_ok L J p'"
proof -
  have threads: "np_chat p' \<noteq> Panicked \<and> (np_stop p' \<longleftrightarrow> np_main p' \<noteq> Serving) \<and>
      (np_chat p' = Left_Loop \<longrightarrow> np_stop p') \<and> (np_main p' = Returned \<longrightarrow> np_chat p' = Left_Loop)"
    using assms(1)
  proof cases
    case body
    obtain s st where "chat_turn (api (np_system p), loop (np_system p)) = Some (s, st)"
      using turn_possible assms(3) unfolding process_ok_def by blast
    then show ?thesis using body assms(3) by (auto simp: chat_body_def process_ok_def split: if_splits)
  qed (use assms(3) in \<open>auto simp: process_ok_def test_flag_def server_returns_def main_joins_def split: if_splits\<close>)
  have "server_ok L J (api (np_system p')) \<and> chat_inv (np_system p')"
    using main_step_node [OF assms(1)] threads assms(3,4) node_step_keeps [OF _ assms(2)]
    unfolding process_ok_def by metis
  with threads show ?thesis by (auto simp: process_ok_def)
qed

lemma process_ok_run:
  assumes "main_run L J E decode pk json p es p'" "encrypted_local L" "process_ok L J p"
    and "next_buffer (api (np_system p')) < 2 ^ 64"
  shows "process_ok L J p'"
  using assms(1,4)
proof (induction rule: main_run.induct)
  case start
  show ?case by (rule assms(3))
next
  case (next_event es p' e p'')
  have "next_buffer (api (np_system p')) < 2 ^ 64"
    using main_step_buffers [OF next_event.hyps(2)] next_event.prems by simp
  with next_event show ?case using process_ok_step [OF _ assms(2)] by blast
qed

section \<open>The end of \<open>main\<close>\<close>

text \<open>The turns of the chat loop since the server returned, the one that is under way included.\<close>

definition late_turns :: "process_event list \<Rightarrow> chat_thread \<Rightarrow> nat" where
  "late_turns es chat =
     length (filter (\<lambda>e. e = Chat_Body) (dropWhile (\<lambda>e. e \<noteq> Server_Returns) es)) +
     (if chat = In_Body then 1 else 0)"

lemma late_turns_run:
  assumes "main_run L J E decode pk json (main_start c) es p"
  shows "(np_main p = Serving \<longleftrightarrow> Server_Returns \<notin> set es) \<and> (np_stop p \<longleftrightarrow> Server_Returns \<in> set es) \<and>
    (Server_Returns \<in> set es \<longrightarrow> late_turns es (np_chat p) \<le> 1)"
  using assms
proof (induction rule: main_run.induct)
  case start
  show ?case by (simp add: main_start_def)
next
  case (next_event es p e p')
  have since: "dropWhile (\<lambda>e. e \<noteq> Server_Returns) (es @ [e']) =
      (if Server_Returns \<in> set es then dropWhile (\<lambda>e. e \<noteq> Server_Returns) es @ [e']
       else if e' = Server_Returns then [e'] else [])" for e'
    by (auto simp: dropWhile_append)
  from next_event.hyps(2) show ?case
  proof cases
    case body
    then show ?thesis using next_event.IH
      by (auto simp: since late_turns_def chat_body_def split: if_splits option.splits)
  qed (use next_event.IH in \<open>auto simp: since late_turns_def test_flag_def server_returns_def main_joins_def
      split: if_splits\<close>)
qed

lemma main_run_extend:
  "main_run L J E decode pk json p es p' \<Longrightarrow> main_step L J E decode pk json p' e p'' \<Longrightarrow>
   main_run L J E decode pk json p (es @ [e]) p''"
  by (rule main_run.next_event)

text \<open>The chat thread and \<open>main\<close> alone bring the process to its end.\<close>

lemma chat_thread_ends:
  assumes ok: "process_ok L J p" and joining: "np_main p = In_Join"
  shows "\<exists>es p'. set es \<subseteq> {Test_Flag, Chat_Body, Main_Joins} \<and> length es \<le> 3 \<and>
    main_run L J E decode pk json p es p' \<and> np_main p' = Returned"
proof -
  let ?run = "main_run L J E decode pk json"
  have stop: "np_stop p" using ok joining by (simp add: process_ok_def)
  have join: "main_step L J E decode pk json q Main_Joins (q\<lparr>np_main := Returned\<rparr>)"
    if "np_main q = In_Join" "np_chat q = Left_Loop" for q
    using that by (intro main_step.joins) (simp add: main_joins_def)
  have test: "main_step L J E decode pk json q Test_Flag (q\<lparr>np_chat := Left_Loop\<rparr>)"
    if "np_main q = In_Join" "np_chat q = At_Test" "np_stop q" for q
    using that by (intro main_step.test) (simp_all add: test_flag_def)
  have at_test: "?run q [Test_Flag, Main_Joins] (q\<lparr>np_chat := Left_Loop, np_main := Returned\<rparr>)"
    if "np_main q = In_Join" "np_chat q = At_Test" "np_stop q" for q
    using main_run.next_event [OF main_run.next_event [OF main_run.start test [OF that]] join] that by simp
  consider "np_chat p = At_Test" | "np_chat p = Left_Loop" | "np_chat p = In_Body"
    using ok by (cases "np_chat p") (simp_all add: process_ok_def)
  then show ?thesis
  proof cases
    case 1
    then show ?thesis using at_test [OF joining 1 stop] by force
  next
    case 2
    then show ?thesis using main_run.next_event [OF main_run.start join [OF joining 2]] by force
  next
    case 3
    obtain s st where turn: "chat_turn (api (np_system p), loop (np_system p)) = Some (s, st)"
      using turn_possible ok unfolding process_ok_def by blast
    let ?p = "p\<lparr>np_system := (np_system p)\<lparr>api := s, loop := st\<rparr>, np_chat := At_Test\<rparr>"
    let ?q = "?p\<lparr>np_chat := Left_Loop\<rparr>"
    have "main_step L J E decode pk json p Chat_Body ?p"
      using 3 joining turn by (intro main_step.body) (simp_all add: chat_body_def)
    note run = main_run.next_event [OF main_run.start this]
    have "?run p ([Chat_Body] @ [Test_Flag]) ?q"
      using main_run.next_event [OF run test [of ?p]] joining stop by simp
    then have "?run p (([Chat_Body] @ [Test_Flag]) @ [Main_Joins]) (?q\<lparr>np_main := Returned\<rparr>)"
      using joining by (intro main_run.next_event [OF _ join]) simp_all
    then show ?thesis by (intro exI [of _ "[Chat_Body, Test_Flag, Main_Joins]"]) (force simp: joining)
  qed
qed

text \<open>C7: The node shuts down in order under friendly events: after \<open>main\<close> has started it, under every
  interleaving of its threads with requests that do not write under the sign-up counters,
  announcements of nodes with an address and values of the chat rooms, and in whatever order the DHT
  delivers the entries of the counters, the chat thread never panics (a hostile request or
  announcement can make it panic, by way of a poisoned lock);
  when the server has returned, it makes at most one more turn, the one that is under way; \<open>main\<close>
  never returns before it has left its loop, and once the server has returned, three steps of these
  two threads are enough for \<open>main\<close> to return, whatever happened before.\<close>

theorem node_shuts_down:
  assumes "dht_store L" "no_collisions L" "codec_laws J" "encrypted_local L" "utf8_valid uk" "utf8_valid us"
    and "joins_clean L J join i"
    and "node_start from_str to_cors L J encode join import_cert import_key opt i pk0 query ipv4 ipv6 uk us =
      Some (Some c0)"
    and "main_run L J E decode pk json (main_start c0) es p" "next_buffer (api (np_system p)) < 2 ^ 64"
  shows "np_chat p \<noteq> Panicked \<and> (np_main p = Returned \<longrightarrow> np_chat p = Left_Loop) \<and>
    length (filter (\<lambda>e. e = Chat_Body) (dropWhile (\<lambda>e. e \<noteq> Server_Returns) es)) \<le> 1 \<and>
    (np_main p = In_Join \<longrightarrow>
       (\<exists>es' p'. set es' \<subseteq> {Test_Flag, Chat_Body, Main_Joins} \<and> length es' \<le> 3 \<and>
          main_run L J E decode pk json p es' p' \<and> np_main p' = Returned))"
proof -
  have "process_ok L J (main_start c0)"
    using node_start_ok [OF assms(1-3,5-8)] by (simp add: process_ok_def main_start_def)
  then have ok: "process_ok L J p" using process_ok_run [OF assms(9,4) _ assms(10)] by simp
  have "length (filter (\<lambda>e. e = Chat_Body) (dropWhile (\<lambda>e. e \<noteq> Server_Returns) es)) \<le> 1"
  proof (cases "Server_Returns \<in> set es")
    case True
    then show ?thesis using late_turns_run [OF assms(9)] by (simp add: late_turns_def)
  next
    case False
    then have "dropWhile (\<lambda>e. e \<noteq> Server_Returns) es = []" by auto
    then show ?thesis by (simp only:) simp
  qed
  then show ?thesis using ok chat_thread_ends [OF ok] by (auto simp: process_ok_def)
qed

text \<open>The server returns while the chat loop is in a turn.\<close>

theorem node_shuts_down_witness:
  "\<exists>c0 p. sample_start = Some (Some c0) \<and>
     main_run log_dht esc_codecs sample_env (\<lambda>_. None) ''pk1'' plain_json (main_start c0)
       [Test_Flag, Server_Returns] p \<and>
     (\<exists>es' p'. length es' \<le> 3 \<and> main_run log_dht esc_codecs sample_env (\<lambda>_. None) ''pk1'' plain_json p es' p' \<and>
        np_main p' = Returned)"
proof -
  let ?step = "main_step log_dht esc_codecs sample_env (\<lambda>_. None) ''pk1'' plain_json"
  let ?run = "main_run log_dht esc_codecs sample_env (\<lambda>_. None) ''pk1'' plain_json"
  have local: "encrypted_local log_dht" by (simp add: encrypted_local_def log_dht_def)
  have utf8: "utf8_valid ''k''" "utf8_valid ''s''" by (simp_all add: in_range_def)
  obtain c0 where c0: "sample_start = Some (Some c0)" "next_buffer (api c0) = 0" by (rule sample_started)
  let ?p1 = "(main_start c0)\<lparr>np_chat := In_Body\<rparr>"
  let ?p2 = "?p1\<lparr>np_stop := True, np_main := In_Join\<rparr>"
  have "?step (main_start c0) Test_Flag ?p1"
    by (rule main_step.test) (simp_all add: test_flag_def main_start_def)
  note run = main_run.next_event [OF main_run.start this]
  have "?step ?p1 Server_Returns ?p2"
    by (rule main_step.returns) (simp add: server_returns_def main_start_def)
  from main_run.next_event [OF run this]
  have run: "?run (main_start c0) [Test_Flag, Server_Returns] ?p2" by simp
  have "next_buffer (api (np_system ?p2)) < 2 ^ 64" using c0(2) by (simp add: main_start_def)
  from node_shuts_down [OF log_dht_store esc_codec_laws local utf8 sample_joins_clean c0(1) run this]
  obtain es' p' where "length es' \<le> 3" "?run ?p2 es' p'" "np_main p' = Returned" by auto
  then show ?thesis using c0(1) run by blast
qed

end
