(* ===== verification/Client.thy ===== *)
theory Client
  imports Signup_Correct
begin

text \<open>
  The client side of the board, shared by \<open>src/vDexNode/mpt/src/bin/generate_key.rs\<close> and
  \<open>src/vDexNode/mpt/src/bin/sign.rs\<close>: \<open>postb\<close> with its retries, sign-up, broadcasts and
  point-to-point messages, the polling loops, and the loops that merge what was read with the
  party's own value. The HTTP client and the decoders of the answers are parameters (\<open>net\<close>).
\<close>

section \<open>Programs over a world\<close>

text \<open>A client program may panic (the inner \<open>None\<close>) and, since it polls, may never return (the
  outer \<open>None\<close>).\<close>

type_synonym ('w, 'a) prog = "'w \<Rightarrow> ('a option \<times> 'w) option"

definition ret :: "'a \<Rightarrow> ('w, 'a) prog" where
  "ret a w = Some (Some a, w)"

definition bind_prog :: "('w, 'a) prog \<Rightarrow> ('a \<Rightarrow> ('w, 'b) prog) \<Rightarrow> ('w, 'b) prog" where
  "bind_prog m k w =
     (case m w of None \<Rightarrow> None | Some (None, w') \<Rightarrow> Some (None, w') | Some (Some a, w') \<Rightarrow> k a w')"

definition act_prog :: "('w, 'a) act \<Rightarrow> ('w, 'a) prog" where
  "act_prog m w = Some (m w)"

definition try_prog :: "'a option \<Rightarrow> ('w, 'a) prog" where
  "try_prog x w = Some (x, w)"

section \<open>Requests\<close>

datatype body = Body_Key tuple_key | Body_Entry entry | Body_Index index

text \<open>\<open>client.post(path).json(body).send()\<close>, and \<open>serde_json::from_str\<close> at the three answer
  types.\<close>

record 'w net =
  post :: "string \<Rightarrow> body \<Rightarrow> 'w \<Rightarrow> http_get \<times> 'w"
  dec_signup :: "string \<Rightarrow> (unit + party_signup) option"
  dec_unit :: "string \<Rightarrow> (unit + unit) option"
  dec_entry :: "string \<Rightarrow> (unit + entry) option"

text \<open>The loop \<open>for _i in 1..retries\<close> of \<open>postb\<close>, for the rounds that are left.\<close>

fun postb_loop :: "nat \<Rightarrow> ('w \<Rightarrow> http_get \<times> 'w) \<Rightarrow> ('w, string option) act" where
  "postb_loop 0 send w = (Some None, w)"
| "postb_loop (Suc k) send w =
     (case send w of
        (Get_Ok None, w') \<Rightarrow> (None, w')
      | (Get_Ok (Some text), w') \<Rightarrow> (Some (Some text), w')
      | (Get_Err, w') \<Rightarrow> postb_loop k send w')"

definition postb :: "'w net \<Rightarrow> string \<Rightarrow> body \<Rightarrow> ('w, string option) act" where
  "postb net path body = (let retries = 3 in postb_loop (length [1..<retries]) (post net path body))"

text \<open>The common shape of the callers: both unwraps panic.\<close>

definition request_answer ::
  "'w net \<Rightarrow> string \<Rightarrow> body \<Rightarrow> (string \<Rightarrow> 'a option) \<Rightarrow> ('w, 'a) act" where
  "request_answer net path body dec =
     and_then (postb net path body) (\<lambda>res. and_then (unwrap res) (\<lambda>res_body. unwrap (dec res_body)))"

text \<open>\<open>signup\<close> of the two programs.\<close>

definition keygen_signup :: "'w net \<Rightarrow> ('w, unit + party_signup) act" where
  "keygen_signup net = request_answer net ''signupkeygen'' (Body_Key keygen_key) (dec_signup net)"

definition sign_signup :: "'w net \<Rightarrow> ('w, unit + party_signup) act" where
  "sign_signup net = request_answer net ''signupsign'' (Body_Key sign_key) (dec_signup net)"

definition party_key :: "u32 \<Rightarrow> string \<Rightarrow> string \<Rightarrow> string \<Rightarrow> tuple_key" where
  "party_key party round uuid to =
     \<lparr>key_first = u32_to_string party, key_second = round, key_third = uuid, key_fourth = to\<rparr>"

definition broadcast :: "'w net \<Rightarrow> u32 \<Rightarrow> string \<Rightarrow> string \<Rightarrow> string \<Rightarrow> ('w, unit + unit) act" where
  "broadcast net party_num round data uuid =
     request_answer net ''set''
       (Body_Entry \<lparr>en_key = party_key party_num round uuid [], en_value = data\<rparr>) (dec_unit net)"

definition sendp2p ::
  "'w net \<Rightarrow> u32 \<Rightarrow> u32 \<Rightarrow> string \<Rightarrow> string \<Rightarrow> string \<Rightarrow> ('w, unit + unit) act" where
  "sendp2p net party_from party_to round data uuid =
     request_answer net ''set''
       (Body_Entry \<lparr>en_key = party_key party_from round uuid (u32_to_string party_to), en_value = data\<rparr>)
       (dec_unit net)"

section \<open>Polling\<close>

definition get_entry :: "'w net \<Rightarrow> index \<Rightarrow> ('w, unit + entry) act" where
  "get_entry net ix = request_answer net ''get'' (Body_Index ix) (dec_entry net)"

text \<open>The inner \<open>loop\<close> of the polling functions.\<close>

partial_function (option) poll :: "'w net \<Rightarrow> index \<Rightarrow> 'w \<Rightarrow> (string option \<times> 'w) option" where
  "poll net ix w =
     (case get_entry net ix w of
        (None, w') \<Rightarrow> Some (None, w')
      | (Some answer, w') \<Rightarrow>
          (case answer of Inr e \<Rightarrow> Some (Some (en_value e), w') | Inl _ \<Rightarrow> poll net ix w'))"

fun poll_list :: "'w net \<Rightarrow> tuple_key list \<Rightarrow> ('w, string list) prog" where
  "poll_list net [] = ret []"
| "poll_list net (k # ks) =
     bind_prog (poll net \<lparr>ix_key = k\<rparr>) (\<lambda>v. bind_prog (poll_list net ks) (\<lambda>vs. ret (v # vs)))"

text \<open>The range \<open>1..n + 1\<close> of \<open>u32\<close>, and its members other than the party itself.\<close>

definition u32_range :: "u32 \<Rightarrow> u32 list" where
  "u32_range n = map of_nat [1..<unat (n + 1)]"

definition others :: "u32 \<Rightarrow> u32 \<Rightarrow> u32 list" where
  "others party_num n = filter (\<lambda>i. i \<noteq> party_num) (u32_range n)"

definition poll_for_broadcasts ::
  "'w net \<Rightarrow> u32 \<Rightarrow> u32 \<Rightarrow> string \<Rightarrow> string \<Rightarrow> ('w, string list) prog" where
  "poll_for_broadcasts net party_num n round uuid =
     poll_list net (map (\<lambda>i. party_key i round uuid []) (others party_num n))"

definition poll_for_p2p ::
  "'w net \<Rightarrow> u32 \<Rightarrow> u32 \<Rightarrow> string \<Rightarrow> string \<Rightarrow> ('w, string list) prog" where
  "poll_for_p2p net party_num n round uuid =
     poll_list net (map (\<lambda>i. party_key i round uuid (u32_to_string party_num)) (others party_num n))"

section \<open>Merging what was read with the own value\<close>

text \<open>The loops over the parties with the counter \<open>j\<close>: the own value at the own place, the next
  answer at every other one.\<close>

fun merge_loop ::
  "(string \<Rightarrow> 'a option) \<Rightarrow> 'i \<Rightarrow> 'a \<Rightarrow> string list \<Rightarrow> nat \<Rightarrow> 'i list \<Rightarrow> 'a list option" where
  "merge_loop parse me own ans_vec j [] = Some []"
| "merge_loop parse me own ans_vec j (i # is) =
     (if i = me then do { vs \<leftarrow> merge_loop parse me own ans_vec j is; Some (own # vs) }
      else do {
        s \<leftarrow> vec_get ans_vec j;
        v \<leftarrow> parse s;
        vs \<leftarrow> merge_loop parse me own ans_vec (Suc j) is;
        Some (v # vs)
      })"

definition read_round ::
  "(string \<Rightarrow> 'a option) \<Rightarrow> u32 \<Rightarrow> 'a \<Rightarrow> u32 \<Rightarrow> string list \<Rightarrow> 'a list option" where
  "read_round parse party_num own n ans_vec = merge_loop parse party_num own ans_vec 0 (u32_range n)"

text \<open>\<open>format_vec_from_reads\<close> of \<open>sign.rs\<close> works with \<open>usize\<close>.\<close>

definition format_vec_from_reads ::
  "(string \<Rightarrow> 'a option) \<Rightarrow> string list \<Rightarrow> nat \<Rightarrow> 'a \<Rightarrow> 'a list option" where
  "format_vec_from_reads parse ans_vec party_num value_i =
     merge_loop parse party_num value_i ans_vec 0 [1..<length ans_vec + 2]"

section \<open>Lemmas\<close>

named_theorems prog_simps \<open>running client programs\<close>

lemma ret_bind [prog_simps]: "bind_prog (ret a) k = k a"
  by (simp add: bind_prog_def ret_def fun_eq_iff)

lemma bind_progI [prog_simps]: "m w = Some (Some a, w') \<Longrightarrow> bind_prog m k w = k a w'"
  by (simp add: bind_prog_def)

lemma prog_runs [prog_simps]:
  "ret a w = Some (Some a, w)" "try_prog (Some a) w = Some (Some a, w)"
  by (simp_all add: ret_def try_prog_def)

text \<open>C40: \<open>postb\<close> makes at most two attempts (its constant \<open>retries = 3\<close> bounds the open range
  \<open>1..retries\<close>): it returns the text of the first one that gets a response, and gives up when two
  fail.\<close>

theorem postb_two_attempts:
  "postb net path body w =
     (case post net path body w of
        (Get_Ok t, w1) \<Rightarrow> (map_option Some t, w1)
      | (Get_Err, w1) \<Rightarrow>
          (case post net path body w1 of
             (Get_Ok t, w2) \<Rightarrow> (map_option Some t, w2)
           | (Get_Err, w2) \<Rightarrow> (Some None, w2)))"
proof -
  have "length [1..<3] = Suc (Suc 0)" by simp
  then show ?thesis
    by (simp add: postb_def numeral_2_eq_2 split: http_get.split prod.split option.split)
qed

lemma merge_loop_reads:
  assumes "\<forall>i\<in>set is. i \<noteq> me \<longrightarrow> parse (enc i) = Some (val i)"
  shows "merge_loop parse me (val me) (pre @ map enc (filter (\<lambda>i. i \<noteq> me) is)) (length pre) is =
    Some (map val is)"
  using assms
proof (induction "is" arbitrary: pre)
  case (Cons i "is")
  show ?case
  proof (cases "i = me")
    case True
    then show ?thesis using Cons.IH [of pre] Cons.prems by simp
  next
    case False
    have "merge_loop parse me (val me) ((pre @ [enc i]) @ map enc (filter (\<lambda>i. i \<noteq> me) is))
        (length (pre @ [enc i])) is = Some (map val is)"
      using Cons.prems by (intro Cons.IH) simp
    then show ?thesis using False Cons.prems by (simp add: nth_append)
  qed
qed simp

lemma read_round_reads:
  assumes "\<forall>i\<in>set (others me n). parse (enc i) = Some (val i)"
  shows "read_round parse me (val me) n (map enc (others me n)) = Some (map val (u32_range n))"
  using merge_loop_reads [of "u32_range n" me parse enc val "[]"] assms
  by (simp add: read_round_def others_def)

lemma length_u32_range: "unat (n + 1) = Suc (unat n) \<Longrightarrow> length (u32_range n) = unat n"
  by (simp add: u32_range_def)

lemma set_u32_range: "n < - 1 \<Longrightarrow> set (u32_range n) = {i. 1 \<le> i \<and> i \<le> n}"
proof -
  assume "n < - 1"
  then have n: "unat (n + 1) = Suc (unat n)" by (rule unat_plus_one)
  have "i \<in> set (u32_range n) \<longleftrightarrow> 1 \<le> i \<and> i \<le> n" for i
  proof
    assume "i \<in> set (u32_range n)"
    then obtain k where k: "1 \<le> k" "k \<le> unat n" "i = of_nat k" by (auto simp: u32_range_def n)
    have "unat n < 2 ^ 32" by (rule order_less_le_trans [OF unsigned_less]) simp
    then have "unat i = k" using k by (simp add: unat_of_nat)
    then show "1 \<le> i \<and> i \<le> n" using k by (simp add: word_le_nat_alt)
  next
    assume "1 \<le> i \<and> i \<le> n"
    then have "unat i \<in> set [1..<unat (n + 1)]" by (auto simp: n word_le_nat_alt)
    moreover have "i = of_nat (unat i)" by simp
    ultimately show "i \<in> set (u32_range n)" unfolding u32_range_def by (metis imageI list.set_map)
  qed
  then show ?thesis by blast
qed

lemma distinct_u32_range: "distinct (u32_range n)"
proof -
  have "inj_on (of_nat :: nat \<Rightarrow> u32) (set [1..<unat (n + 1)])"
  proof (rule inj_onI)
    fix j k assume "j \<in> set [1..<unat (n + 1)]" "k \<in> set [1..<unat (n + 1)]"
      "(of_nat j :: u32) = of_nat k"
    moreover have "unat (n + 1) < 2 ^ 32" by (rule order_less_le_trans [OF unsigned_less]) simp
    ultimately have "j < 2 ^ 32" "k < 2 ^ 32" "unat (of_nat j :: u32) = unat (of_nat k :: u32)"
      by auto
    then show "j = k" by (simp add: unat_of_nat)
  qed
  then show ?thesis by (simp add: u32_range_def distinct_map)
qed

lemma u32_range_nth:
  assumes "n < - 1" "l < unat n"
  shows "unat (u32_range n ! l) = Suc l"
proof -
  have "unat n < 2 ^ 32" by (rule order_less_le_trans [OF unsigned_less]) simp
  then have l: "Suc l < 2 ^ 32" using assms(2) by linarith
  have "u32_range n ! l = of_nat (Suc l)"
    using assms by (simp add: u32_range_def unat_plus_one del: of_nat_Suc upt_Suc)
  then show ?thesis using l by (simp add: unat_of_nat del: of_nat_Suc)
qed

lemma u32_range_index:
  assumes "n < - 1" "i \<in> set (u32_range n)"
  shows "unat (i - 1) = unat i - 1" "unat i - 1 < unat n" "u32_range n ! (unat i - 1) = i"
proof -
  have i: "1 \<le> i" "i \<le> n" using assms set_u32_range by blast+
  then show "unat (i - 1) = unat i - 1" by (simp add: unat_sub)
  show lt: "unat i - 1 < unat n" using i by (simp add: word_le_nat_alt)
  have "unat (u32_range n ! (unat i - 1)) = unat i"
    using u32_range_nth [OF assms(1) lt] i by (simp add: word_le_nat_alt)
  then show "u32_range n ! (unat i - 1) = i" by (simp add: word_unat_eq_iff)
qed

lemma party_key_inject [simp]:
  "party_key i round uuid to = party_key i' round' uuid' to' \<longleftrightarrow>
     i = i' \<and> round = round' \<and> uuid = uuid' \<and> to = to'"
  by (simp add: party_key_def)

end
