(* ===== verification/Client_Correct.thy ===== *)
theory Client_Correct
  imports Client
begin

text \<open>
  The client protocol over the board. The locale \<open>board_reader\<close> is what the client sees of a read over
  HTTP, and \<open>board_client\<close> joins it with \<open>kv_board\<close>; both are interpreted on the endpoints of \<open>Server\<close>,
  with a transport that encodes their answers, so the rounds of the clients are theorems about the
  clients and the server together.
\<close>

section \<open>Rounds over an abstract board\<close>

definition put_round :: "('w \<Rightarrow> tuple_key \<Rightarrow> string \<Rightarrow> 'w) \<Rightarrow> (tuple_key \<times> string) list \<Rightarrow> 'w \<Rightarrow> 'w" where
  "put_round put kvs w = foldl (\<lambda>w (k, v). put w k v) w kvs"

lemma request_answer_ok:
  "post net path body w = (Get_Ok (Some t), w') \<Longrightarrow> dec t = Some a \<Longrightarrow>
   request_answer net path body dec w = (Some a, w')"
  by (simp add: request_answer_def postb_def numeral_2_eq_2 and_then_def unwrap_def done_with_def)

text \<open>A read leaves the world as it is.\<close>

locale board_reader =
  fixes inv :: "'w \<Rightarrow> bool"
    and look :: "'w \<Rightarrow> tuple_key \<Rightarrow> string option"
    and net :: "'w net"
  assumes post_get: "inv w \<Longrightarrow>
      \<exists>t. post net ''get'' (Body_Index \<lparr>ix_key = k\<rparr>) w = (Get_Ok (Some t), w) \<and>
        dec_entry net t =
          Some (case look w k of Some v \<Rightarrow> Inr \<lparr>en_key = k, en_value = v\<rparr> | None \<Rightarrow> Inl ())"
begin

lemma net_get: "inv w \<Longrightarrow> get_entry net \<lparr>ix_key = k\<rparr> w =
    (Some (case look w k of Some v \<Rightarrow> Inr \<lparr>en_key = k, en_value = v\<rparr> | None \<Rightarrow> Inl ()), w)"
  unfolding get_entry_def using post_get [of w k] by (auto intro: request_answer_ok)

lemma poll_present:
  "inv w \<Longrightarrow> look w k = Some v \<Longrightarrow> poll net \<lparr>ix_key = k\<rparr> w = Some (Some v, w)"
  by (subst poll.simps) (simp add: net_get)

text \<open>On a board that nobody else writes, polling for a missing key does not return.\<close>

lemma poll_absent:
  assumes "inv w" "look w k = None"
  shows "poll net \<lparr>ix_key = k\<rparr> w = None"
proof -
  have "\<not> (net = net \<and> \<lparr>ix_key = k\<rparr> = \<lparr>ix_key = k\<rparr> \<and> w = w)" if "poll net \<lparr>ix_key = k\<rparr> w = Some y" for y
  proof (rule poll.raw_induct
      [where P = "\<lambda>net' ix w' y. \<not> (net' = net \<and> ix = \<lparr>ix_key = k\<rparr> \<and> w' = w)", OF _ that])
    fix poll' :: "'w net \<Rightarrow> index \<Rightarrow> 'w \<Rightarrow> (string option \<times> 'w) option" and net' ix w' y'
    assume IH: "\<And>net' ix w' y. poll' net' ix w' = Some y \<Longrightarrow>
        \<not> (net' = net \<and> ix = \<lparr>ix_key = k\<rparr> \<and> w' = w)"
      and run: "(case get_entry net' ix w' of
          (None, w') \<Rightarrow> Some (None, w')
        | (Some (Inl x), w') \<Rightarrow> poll' net' ix w'
        | (Some (Inr e), w') \<Rightarrow> Some (Some (en_value e), w')) = Some y'"
    show "\<not> (net' = net \<and> ix = \<lparr>ix_key = k\<rparr> \<and> w' = w)"
    proof
      assume here: "net' = net \<and> ix = \<lparr>ix_key = k\<rparr> \<and> w' = w"
      then have "poll' net' ix w' = Some y'" using run net_get [OF assms(1), of k] assms(2) by simp
      then show False using IH [of net' ix w' y'] here by simp
    qed
  qed
  then show ?thesis by (cases "poll net \<lparr>ix_key = k\<rparr> w") auto
qed

lemma poll_list_present:
  "inv w \<Longrightarrow> \<forall>k\<in>set ks. look w k = Some (f k) \<Longrightarrow> poll_list net ks w = Some (Some (map f ks), w)"
  by (induction ks) (simp_all add: prog_simps poll_present bind_progI [of _ w _ w])

lemma poll_for_broadcasts_present:
  assumes "inv w" "\<And>i. i \<in> set (others me n) \<Longrightarrow> look w (party_key i round uuid []) = Some (f i)"
  shows "poll_for_broadcasts net me n round uuid w = Some (Some (map f (others me n)), w)"
proof -
  let ?k = "\<lambda>i. party_key i round uuid []"
  have "map (\<lambda>k. the (look w k)) (map ?k (others me n)) = map f (others me n)"
    using assms(2) by simp
  moreover have "\<forall>k\<in>set (map ?k (others me n)). look w k = Some (the (look w k))"
    using assms(2) by auto
  ultimately show ?thesis
    unfolding poll_for_broadcasts_def
    using poll_list_present [OF assms(1), of "map ?k (others me n)" "\<lambda>k. the (look w k)"] by simp
qed

end

locale board_client = kv_board inv put look vals storable + board_reader inv look net
  for inv :: "'w \<Rightarrow> bool"
    and put :: "'w \<Rightarrow> tuple_key \<Rightarrow> string \<Rightarrow> 'w"
    and look :: "'w \<Rightarrow> tuple_key \<Rightarrow> string option"
    and vals :: "'w \<Rightarrow> tuple_key \<Rightarrow> string set"
    and storable :: "string \<Rightarrow> bool"
    and net :: "'w net" +
  assumes post_set: "inv w \<Longrightarrow> storable v \<Longrightarrow>
      \<exists>t. post net ''set'' (Body_Entry \<lparr>en_key = k, en_value = v\<rparr>) w = (Get_Ok (Some t), put w k v) \<and>
        dec_unit net t = Some (Inr ())"
begin

lemma net_set: "inv w \<Longrightarrow> storable v \<Longrightarrow>
    request_answer net ''set'' (Body_Entry \<lparr>en_key = k, en_value = v\<rparr>) (dec_unit net) w =
    (Some (Inr ()), put w k v)"
  using post_set [of w v k] by (auto intro: request_answer_ok)

text \<open>Everybody broadcasts, in any order, under keys that were not used before; then everybody reads the
  same vector.\<close>

lemma round_agreement:
  fixes round uuid :: string
  assumes "inv w" "distinct order" "set (others me n) \<subseteq> set order"
    and "\<forall>i\<in>set order. look w (party_key i round uuid []) = None"
    and "\<forall>i\<in>set order. storable (enc (val i)) \<and> parse (enc (val i)) = Some (val i)"
  defines "w' \<equiv> put_round put (map (\<lambda>i. (party_key i round uuid [], enc (val i))) order) w"
  shows "\<exists>ans. poll_for_broadcasts net me n round uuid w' = Some (Some ans, w') \<and>
    read_round parse me (val me) n ans = Some (map val (u32_range n))"
proof -
  let ?kvs = "map (\<lambda>i. (party_key i round uuid [], enc (val i))) order"
  have ok: "\<forall>(k, v)\<in>set ?kvs. storable v" using assms(5) by auto
  have inv: "inv w'" unfolding w'_def put_round_def by (rule inv_put_all [OF assms(1) ok])
  have "distinct (map fst ?kvs)"
    using assms(2) by (simp add: distinct_map comp_def inj_on_def)
  then have "look w' (party_key i round uuid []) = Some (enc (val i))" if "i \<in> set order" for i
    unfolding w'_def put_round_def using that assms(4) by (intro look_distinct [OF assms(1) ok]) auto
  then have "poll_for_broadcasts net me n round uuid w' =
      Some (Some (map (\<lambda>i. enc (val i)) (others me n)), w')"
    using assms(3) by (intro poll_for_broadcasts_present [OF inv]) auto
  moreover have "read_round parse me (val me) n (map (\<lambda>i. enc (val i)) (others me n)) =
      Some (map val (u32_range n))"
    using assms(3,5) by (intro read_round_reads) auto
  ultimately show ?thesis by blast
qed

end

section \<open>The board of the server\<close>

text \<open>How Rocket and the client turn the answers into text and back; a lawful codec loses nothing.\<close>

record answer_codec =
  put_signup :: "unit + party_signup \<Rightarrow> string"
  get_signup :: "string \<Rightarrow> (unit + party_signup) option"
  put_unit :: "unit + unit \<Rightarrow> string"
  get_unit :: "string \<Rightarrow> (unit + unit) option"
  put_entry :: "unit + entry \<Rightarrow> string"
  get_entry_text :: "string \<Rightarrow> (unit + entry) option"

definition answer_laws :: "answer_codec \<Rightarrow> bool" where
  "answer_laws A \<longleftrightarrow>
     (\<forall>x. get_signup A (put_signup A x) = Some x) \<and>
     (\<forall>x. get_unit A (put_unit A x) = Some x) \<and>
     (\<forall>x. get_entry_text A (put_entry A x) = Some x)"

text \<open>A request over HTTP: a panic of the endpoint is an error of the client's request.\<close>

definition reply_text :: "('a \<Rightarrow> string) \<Rightarrow> 'a option \<times> 'd api_state \<Rightarrow> http_get \<times> 'd api_state" where
  "reply_text put r = (case r of (Some a, s) \<Rightarrow> (Get_Ok (Some (put a)), s) | (None, s) \<Rightarrow> (Get_Err, s))"

definition server_post ::
  "answer_codec \<Rightarrow> ('d, 'h) dht_lib \<Rightarrow> codecs \<Rightarrow> string option \<Rightarrow> string \<Rightarrow> string \<Rightarrow> body \<Rightarrow>
   'd api_state \<Rightarrow> http_get \<times> 'd api_state" where
  "server_post A L J conf fresh path body s =
     (case body of
        Body_Key _ \<Rightarrow>
          if path = ''signupkeygen'' then reply_text (put_signup A) (signup_keygen L J conf fresh s)
          else if path = ''signupsign'' then reply_text (put_signup A) (signup_sign L J conf fresh s)
          else (Get_Err, s)
      | Body_Entry e \<Rightarrow>
          if path = ''set'' then reply_text (put_unit A) (set_endpoint L J e s) else (Get_Err, s)
      | Body_Index i \<Rightarrow>
          if path = ''get'' then reply_text (put_entry A) (get_endpoint L J i s) else (Get_Err, s))"

definition server_net ::
  "answer_codec \<Rightarrow> string option \<Rightarrow> string \<Rightarrow> ('d, 'h) api_world net" where
  "server_net A conf fresh =
     \<lparr>post = (\<lambda>path body w. case w of (L, J, s) \<Rightarrow>
        let (r, s') = server_post A L J conf fresh path body s in (r, (L, J, s'))),
      dec_signup = get_signup A, dec_unit = get_unit A, dec_entry = get_entry_text A\<rparr>"

lemma server_post_set:
  assumes "answer_laws A" "api_ok w"
  shows "\<exists>t. post (server_net A conf fresh) ''set'' (Body_Entry \<lparr>en_key = k, en_value = v\<rparr>) w =
      (Get_Ok (Some t), api_put w k v) \<and> dec_unit (server_net A conf fresh) t = Some (Inr ())"
proof -
  obtain L J s where w: "w = (L, J, s)" by (cases w)
  have "codec_laws J" "unlocked s" using assms(2) by (simp_all add: w api_ok_def)
  then show ?thesis
    using assms(1)
    by (simp add: w server_net_def server_post_def reply_text_def set_endpoint_eq api_put_eq
        answer_laws_def)
qed

text \<open>A read needs no law of the DHT.\<close>

definition api_free :: "('d, 'h) api_world \<Rightarrow> bool" where
  "api_free w \<longleftrightarrow> (case w of (L, J, s) \<Rightarrow> codec_laws J \<and> unlocked s)"

lemma api_ok_free: "api_ok w \<Longrightarrow> api_free w"
  by (auto simp: api_ok_def api_free_def)

lemma server_post_get:
  assumes "answer_laws A" "api_free w"
  shows "\<exists>t. post (server_net A conf fresh) ''get'' (Body_Index \<lparr>ix_key = k\<rparr>) w =
      (Get_Ok (Some t), w) \<and>
    dec_entry (server_net A conf fresh) t =
      Some (case api_look w k of Some v \<Rightarrow> Inr \<lparr>en_key = k, en_value = v\<rparr> | None \<Rightarrow> Inl ())"
proof -
  obtain L J s where w: "w = (L, J, s)" by (cases w)
  have "codec_laws J" "unlocked s" using assms(2) by (simp_all add: w api_free_def)
  then show ?thesis
    using assms(1)
    by (simp add: w server_net_def server_post_def reply_text_def get_endpoint_eq api_look_eq
        answer_laws_def split: option.splits)
qed

text \<open>A plain codec, and the lawful codecs as a type, so that the interpretation has no premise.\<close>

fun unescape :: "string \<Rightarrow> (string \<times> string) option" where
  "unescape (x # xs) =
     (if x = CHR ''0'' then Some ([], xs)
      else if x = CHR ''1'' then
        (case xs of c # ys \<Rightarrow> map_option (\<lambda>(s, t). (c # s, t)) (unescape ys) | [] \<Rightarrow> None)
      else None)"
| "unescape [] = None"

lemma unescape_escape [simp]: "unescape (escape s @ t) = Some (s, t)"
  by (induction s) simp_all

lemma escape_nonempty [simp]: "escape s \<noteq> []"
  by (cases s) simp_all

definition plain_entry :: "entry \<Rightarrow> string" where
  "plain_entry e = the (esc_key (en_key e)) @ escape (en_value e)"

definition parse_plain_entry :: "string \<Rightarrow> entry option" where
  "parse_plain_entry t =
     do { (a, t) \<leftarrow> unescape t; (b, t) \<leftarrow> unescape t; (c, t) \<leftarrow> unescape t; (d, t) \<leftarrow> unescape t;
          (v, t) \<leftarrow> unescape t;
          Some \<lparr>en_key = \<lparr>key_first = a, key_second = b, key_third = c, key_fourth = d\<rparr>, en_value = v\<rparr> }"

definition plain_answers :: answer_codec where
  "plain_answers =
     \<lparr>put_signup = (\<lambda>x. case x of Inl _ \<Rightarrow> [] | Inr p \<Rightarrow> the (colon_signup p)),
      get_signup = (\<lambda>t. if t = [] then Some (Inl ()) else map_option Inr (parse_colon_signup t)),
      put_unit = (\<lambda>x. case x of Inl _ \<Rightarrow> ''0'' | Inr _ \<Rightarrow> ''1''),
      get_unit = (\<lambda>t. if t = ''0'' then Some (Inl ()) else if t = ''1'' then Some (Inr ()) else None),
      put_entry = (\<lambda>x. case x of Inl _ \<Rightarrow> [] | Inr e \<Rightarrow> plain_entry e),
      get_entry_text = (\<lambda>t. if t = [] then Some (Inl ()) else map_option Inr (parse_plain_entry t))\<rparr>"

lemma parse_plain_entry [simp]: "parse_plain_entry (plain_entry e) = Some e"
  using unescape_escape [of "en_value e" "[]"]
  by (simp add: parse_plain_entry_def plain_entry_def esc_key_def)

lemma plain_answers_laws: "answer_laws plain_answers"
proof -
  have "get_signup plain_answers (put_signup plain_answers x) = Some x" for x
    by (cases x) (simp_all add: plain_answers_def colon_signup_def)
  moreover have "get_unit plain_answers (put_unit plain_answers x) = Some x" for x
    by (cases x) (simp_all add: plain_answers_def)
  moreover have "get_entry_text plain_answers (put_entry plain_answers x) = Some x" for x
    by (cases x) (simp_all add: plain_answers_def, simp add: plain_entry_def esc_key_def)
  ultimately show ?thesis by (simp add: answer_laws_def)
qed

typedef lawful_codec = "{A. answer_laws A}"
  using plain_answers_laws by blast

setup_lifting type_definition_lawful_codec

definition http_net :: "lawful_codec \<Rightarrow> string option \<Rightarrow> string \<Rightarrow> ('d, 'h) api_world net" where
  "http_net A conf fresh = server_net (Rep_lawful_codec A) conf fresh"

definition plain_codec :: lawful_codec where
  "plain_codec = Abs_lawful_codec plain_answers"

lemma lawful_codec: "answer_laws (Rep_lawful_codec A)"
  using Rep_lawful_codec [of A] by simp

interpretation http_read: board_reader api_free api_look "http_net A conf fresh"
  for A conf fresh
  by unfold_locales (simp add: http_net_def server_post_get lawful_codec)

interpretation http: board_client api_ok api_put api_look api_values utf8_valid "http_net A conf fresh"
  for A conf fresh
  by unfold_locales
    (simp_all add: http_net_def server_post_set server_post_get lawful_codec api_ok_free)

text \<open>C18: A broadcast round works through the server: when every party of a session has broadcast its
  value under its own key, which nobody had used before, in whatever order the values are written
  and in whatever order the DHT delivers what it holds, the polling of each party ends, and merging the answers with the
  party's own value gives every party the same vector, with the value of party \<open>i\<close> at place
  \<open>i\<close>.\<close>

theorem broadcast_round_agrees:
  assumes "api_ok w" "distinct order" "set order = set (u32_range n)" "me \<in> set order"
    and "\<forall>i\<in>set order. api_look w (party_key i round uuid []) = None"
    and "\<forall>i\<in>set order. utf8_valid (enc (val i)) \<and> parse (enc (val i)) = Some (val i)"
  shows "let w' = put_round api_put (map (\<lambda>i. (party_key i round uuid [], enc (val i))) order) w in
    \<exists>ans. poll_for_broadcasts (http_net A conf fresh) me n round uuid w' = Some (Some ans, w') \<and>
      read_round parse me (val me) n ans = Some (map val (u32_range n))"
proof -
  have "set (others me n) \<subseteq> set order" using assms(3) by (auto simp: others_def)
  from http.round_agreement [OF assms(1,2) this assms(5,6)] show ?thesis by (simp add: Let_def)
qed

theorem broadcast_round_agrees_witness:
  "\<exists>(w :: (log, string) api_world) ans. poll_for_broadcasts (http_net plain_codec None []) 2 3 ''round1'' ''u'' w = Some (Some ans, w) \<and>
     read_round parse_u32 2 20 3 ans = Some [10, 20, 30]"
proof -
  have "unat (3 + 1 :: u32) = 4" by simp
  then have range: "u32_range 3 = [1, 2, 3]" by (simp add: u32_range_def upt_rec)
  have vals: "\<forall>i\<in>set [3, 1, 2 :: u32]. utf8_valid (u32_to_string (10 * i)) \<and>
      parse_u32 (u32_to_string (10 * i)) = Some (10 * i)"
    by simp
  have perm: "set [3, 1, 2 :: u32] = set (u32_range 3)" by (auto simp: range)
  note run = broadcast_round_agrees [where val = "\<lambda>i. 10 * i" and enc = u32_to_string
      and parse = parse_u32 and me = 2 and round = "''round1''" and uuid = "''u''",
      OF fresh_ok _ perm _ _ vals, of plain_codec None "[]"]
  have unused: "api_look (log_dht, esc_codecs, fresh_state) k = None" for k
    using api_look_values(1) [OF fresh_ok] by simp
  let ?w = "put_round api_put (map (\<lambda>i. (party_key i ''round1'' ''u'' [], u32_to_string (10 * i)))
    [3, 1, 2]) (log_dht, esc_codecs, fresh_state)"
  have "\<exists>ans. poll_for_broadcasts (http_net plain_codec None []) 2 3 ''round1'' ''u'' ?w = Some (Some ans, ?w) \<and>
      read_round parse_u32 2 20 3 ans = Some [10, 20, 30]"
    using run by (simp only: Let_def range unused) simp
  then show ?thesis by blast
qed

text \<open>C19: Polling never makes anything up and never skips: whatever the DHT is, on the server's board the
  loop returns the last string that the DHT delivers for the key when it delivers anything, and
  does not return as long as it delivers nothing.\<close>

theorem poll_outcome:
  assumes "codec_laws J" "unlocked s"
  shows "poll (http_net A conf fresh) \<lparr>ix_key = k\<rparr> (L, J, s) =
    (case d_get L (dht s) (key_hash L J s k) of
       [] \<Rightarrow> None
     | v # vs \<Rightarrow> Some (Some (from_utf8_or_empty (last (v # vs))), (L, J, s)))"
proof -
  have "api_free (L, J, s)" using assms by (simp add: api_free_def)
  note poll = http_read.poll_present [OF this, of k] http_read.poll_absent [OF this, of k]
  show ?thesis
    using poll api_look_eq [OF assms, of L k]
    by (cases "d_get L (dht s) (key_hash L J s k)") (simp_all add: stored_def)
qed

theorem poll_outcome_witness:
  "poll (http_net plain_codec None []) \<lparr>ix_key = sign_key\<rparr> (log_dht, esc_codecs, fresh_state) = None"
proof -
  have "unlocked fresh_state" "dht fresh_state = []" by (simp_all add: unlocked_def fresh_state_def)
  moreover have "d_get log_dht [] h = []" for h by (simp add: log_dht_def)
  ultimately show ?thesis using poll_outcome [OF esc_codec_laws, of fresh_state plain_codec None "[]" sign_key log_dht] by simp
qed

end
