(* ===== verification/Crypto_Lib.thy ===== *)
theory Crypto_Lib
  imports Prelude
begin

text \<open>
  The third-party cryptography the sources call, as parameters: the record \<open>curv\<close> holds the
  operations of the crate \<open>curv\<close> (curve, hash commitments, discrete-log and ElGamal proofs,
  Feldman secret sharing), the record \<open>paillier\<close> those of \<open>paillier\<close> and \<open>zk_paillier\<close>.
  Nothing is defined about them. A routine that draws randomness takes it as an integer seed.

  Scalars (\<open>FE\<close>) have the arithmetic of a type of class \<open>field\<close> and points (\<open>GE\<close>) that of
  a type of class \<open>ab_group_add\<close>, which is what \<open>+\<close>, \<open>-\<close> and \<open>*\<close> on these Rust types
  are documented to be. Everything else the code relies on is stated in the predicates
  \<open>curve_laws\<close>, \<open>proof_laws\<close>, \<open>vss_laws\<close> and \<open>paillier_laws\<close>; they are hypotheses of the
  theorems that need them, and \<open>Small_Curve\<close> has an instance that satisfies all of them.
\<close>

section \<open>The crate \<open>curv\<close>\<close>

text \<open>\<open>HomoElGamalWitness\<close> and \<open>HomoElGamalStatement\<close>, whose fields the sources fill in.\<close>

record 'fe elgamal_witness =
  ew_r :: 'fe
  ew_x :: 'fe

record 'ge elgamal_statement =
  es_G :: 'ge
  es_H :: 'ge
  es_Y :: 'ge
  es_D :: 'ge
  es_E :: 'ge

text \<open>
  \<open>'dlp\<close> is \<open>DLogProof\<close>, \<open>'egp\<close> is \<open>HomoELGamalProof\<close>, \<open>'vss\<close> is \<open>VerifiableSS\<close>.
  \<open>x_coor\<close> is an \<open>Option\<close> in the crate's trait.
\<close>

record ('fe, 'ge, 'dlp, 'egp, 'vss) curv =
  generator :: 'ge
  smul :: "'ge \<Rightarrow> 'fe \<Rightarrow> 'ge"
  x_coor :: "'ge \<Rightarrow> int option"
  compressed :: "'ge \<Rightarrow> int"
  fe_from :: "int \<Rightarrow> 'fe"
  to_big_int :: "'fe \<Rightarrow> int"
  fe_q :: int
  invert :: "'fe \<Rightarrow> 'fe"
  create_commitment :: "int \<Rightarrow> int \<Rightarrow> int"
  hash_from_ge :: "'ge list \<Rightarrow> int"
  dlog_prove :: "'fe \<Rightarrow> int \<Rightarrow> 'dlp"
  dlog_verify :: "'dlp \<Rightarrow> bool"
  dlog_pk :: "'dlp \<Rightarrow> 'ge"
  elgamal_prove :: "'fe elgamal_witness \<Rightarrow> 'ge elgamal_statement \<Rightarrow> int \<Rightarrow> 'egp"
  elgamal_verify :: "'egp \<Rightarrow> 'ge elgamal_statement \<Rightarrow> bool"
  vss_share :: "nat \<Rightarrow> nat \<Rightarrow> 'fe \<Rightarrow> int \<Rightarrow> 'vss \<times> 'fe list"
  vss_validate :: "'vss \<Rightarrow> 'fe \<Rightarrow> nat \<Rightarrow> bool"
  vss_commitments :: "'vss \<Rightarrow> 'ge list"
  vss_point :: "'vss \<Rightarrow> nat \<Rightarrow> 'ge"
  vss_map_share :: "'vss \<Rightarrow> nat \<Rightarrow> nat list \<Rightarrow> 'fe"

text \<open>
  Scalar multiplication is the action of the scalar field on the points, the generator has
  the order of that field, conversion from big integers is reduction modulo \<open>q\<close>, and
  \<open>invert\<close> is the multiplicative inverse of every scalar but zero.
\<close>

definition curve_laws ::
  "('fe::field, 'ge::ab_group_add, 'dlp, 'egp, 'vss) curv \<Rightarrow> bool" where
  "curve_laws C \<longleftrightarrow>
     (\<forall>P a b. smul C P (a + b) = smul C P a + smul C P b) \<and>
     (\<forall>P Q a. smul C (P + Q) a = smul C P a + smul C Q a) \<and>
     (\<forall>P a b. smul C (smul C P a) b = smul C P (a * b)) \<and>
     (\<forall>P. smul C P 1 = P) \<and>
     (\<forall>a. smul C (generator C) a = 0 \<longrightarrow> a = 0) \<and>
     (\<forall>x y. fe_from C (x + y) = fe_from C x + fe_from C y) \<and>
     (\<forall>x y. fe_from C (x * y) = fe_from C x * fe_from C y) \<and>
     (\<forall>x. fe_from C x = 0 \<longleftrightarrow> fe_q C dvd x) \<and>
     (\<forall>a. fe_from C (to_big_int C a) = a) \<and>
     (\<forall>a. 0 \<le> to_big_int C a \<and> to_big_int C a < fe_q C) \<and>
     (\<forall>a. a \<noteq> 0 \<longrightarrow> a * invert C a = 1)"

text \<open>Completeness of the two proof systems, and the statement a discrete-log proof carries.\<close>

definition proof_laws ::
  "('fe::field, 'ge::ab_group_add, 'dlp, 'egp, 'vss) curv \<Rightarrow> bool" where
  "proof_laws C \<longleftrightarrow>
     (\<forall>x s. dlog_verify C (dlog_prove C x s)) \<and>
     (\<forall>x s. dlog_pk C (dlog_prove C x s) = smul C (generator C) x) \<and>
     (\<forall>w st s. es_D st = smul C (es_H st) (ew_x w) + smul C (es_Y st) (ew_r w) \<and>
        es_E st = smul C (es_G st) (ew_r w) \<longrightarrow>
        elgamal_verify C (elgamal_prove C w st s) st)"

text \<open>
  Feldman sharing with threshold \<open>t\<close> among \<open>n\<close>: the shares of the parties \<open>1 \<dots> n\<close>
  validate, the first commitment is to the secret, validation is the check against the point
  commitment, the coefficients of \<open>map_share_to_new_params\<close> depend on the parameters only
  (not on the shared secret), and \<open>t + 1\<close> shares weighted by them add up to the secret.
\<close>

definition vss_laws ::
  "('fe::field, 'ge::ab_group_add, 'dlp, 'egp, 'vss) curv \<Rightarrow> nat \<Rightarrow> nat \<Rightarrow> bool" where
  "vss_laws C t n \<longleftrightarrow>
     (\<forall>u s. length (snd (vss_share C t n u s)) = n) \<and>
     (\<forall>u s. \<exists>cs. vss_commitments C (fst (vss_share C t n u s)) = smul C (generator C) u # cs) \<and>
     (\<forall>u s i. i < n \<longrightarrow>
        vss_validate C (fst (vss_share C t n u s)) (snd (vss_share C t n u s) ! i) (Suc i)) \<and>
     (\<forall>v x i. vss_commitments C v \<noteq> [] \<longrightarrow>
        vss_validate C v x i = (smul C (generator C) x = vss_point C v i)) \<and>
     (\<forall>u s u' s' i S. vss_map_share C (fst (vss_share C t n u s)) i S =
        vss_map_share C (fst (vss_share C t n u' s')) i S) \<and>
     (\<forall>u s S. distinct S \<and> length S = Suc t \<and> (\<forall>i\<in>set S. i < n) \<longrightarrow>
        (\<Sum>i\<leftarrow>S. vss_map_share C (fst (vss_share C t n u s)) i S *
           snd (vss_share C t n u s) ! i) = u)"

section \<open>The crates \<open>paillier\<close> and \<open>zk_paillier\<close>\<close>

text \<open>
  \<open>'ek\<close> and \<open>'dk\<close> are the key types, \<open>'ckp\<close> is \<open>NICorrectKeyProof\<close>; plaintexts and
  ciphertexts are big integers. \<open>ek_n\<close> is the public field \<open>n\<close> of an encryption key.
\<close>

record ('ek, 'dk, 'ckp) paillier =
  keypair :: "int \<Rightarrow> 'ek \<times> 'dk"
  ek_n :: "'ek \<Rightarrow> int"
  p_encrypt :: "'ek \<Rightarrow> int \<Rightarrow> int \<Rightarrow> int"
  p_decrypt :: "'dk \<Rightarrow> int \<Rightarrow> int"
  p_add :: "'ek \<Rightarrow> int \<Rightarrow> int \<Rightarrow> int"
  p_mul :: "'ek \<Rightarrow> int \<Rightarrow> int \<Rightarrow> int"
  correct_key_prove :: "'dk \<Rightarrow> 'ckp"
  correct_key_verify :: "'ckp \<Rightarrow> 'ek \<Rightarrow> bool"

text \<open>
  Additive homomorphism modulo the public modulus, for the ciphertexts (a set \<open>cts\<close> that holds
  every encryption and is closed under the homomorphic operations).
\<close>

definition paillier_key_laws ::
  "('ek, 'dk, 'ckp) paillier \<Rightarrow> 'ek \<Rightarrow> 'dk \<Rightarrow> bool" where
  "paillier_key_laws P ek dk \<longleftrightarrow>
     0 < ek_n P ek \<and> correct_key_verify P (correct_key_prove P dk) ek \<and>
     (\<exists>cts. (\<forall>m r. p_encrypt P ek m r \<in> cts) \<and>
        (\<forall>m r. p_decrypt P dk (p_encrypt P ek m r) = m mod ek_n P ek) \<and>
        (\<forall>c\<in>cts. \<forall>d\<in>cts. p_add P ek c d \<in> cts \<and>
           p_decrypt P dk (p_add P ek c d) =
             (p_decrypt P dk c + p_decrypt P dk d) mod ek_n P ek) \<and>
        (\<forall>c\<in>cts. \<forall>k\<ge>0. p_mul P ek c k \<in> cts \<and>
           p_decrypt P dk (p_mul P ek c k) = p_decrypt P dk c * k mod ek_n P ek))"

definition paillier_laws :: "('ek, 'dk, 'ckp) paillier \<Rightarrow> bool" where
  "paillier_laws P \<longleftrightarrow>
     (\<forall>s. paillier_key_laws P (fst (keypair P s)) (snd (keypair P s)))"

section \<open>Consequences used by the components\<close>

named_theorems curve_simps \<open>scalar multiplication and conversion under the curve laws\<close>

lemma curve_lawsD:
  assumes "curve_laws C"
  shows smul_add [curve_simps]: "smul C P (a + b) = smul C P a + smul C P b"
    and smul_point_add [curve_simps]: "smul C (P + Q) a = smul C P a + smul C Q a"
    and smul_smul [curve_simps]: "smul C (smul C P a) b = smul C P (a * b)"
    and smul_one [curve_simps]: "smul C P 1 = P"
    and smul_gen_zero: "smul C (generator C) a = 0 \<Longrightarrow> a = 0"
    and fe_from_add [curve_simps]: "fe_from C (x + y) = fe_from C x + fe_from C y"
    and fe_from_mult [curve_simps]: "fe_from C (x * y) = fe_from C x * fe_from C y"
    and fe_from_zero_iff: "fe_from C x = 0 \<longleftrightarrow> fe_q C dvd x"
    and fe_from_to [curve_simps]: "fe_from C (to_big_int C a) = a"
    and to_big_int_nonneg: "0 \<le> to_big_int C a"
    and to_big_int_less: "to_big_int C a < fe_q C"
    and invert_right: "a \<noteq> 0 \<Longrightarrow> a * invert C a = 1"
  using assms unfolding curve_laws_def by blast+

lemma smul_zero [curve_simps]: "curve_laws C \<Longrightarrow> smul C P 0 = 0"
  by (metis add_cancel_right_left smul_add)

lemma smul_zero_point [curve_simps]: "curve_laws C \<Longrightarrow> smul C 0 a = 0"
  by (metis add_cancel_right_left smul_point_add)

lemma smul_uminus [curve_simps]: "curve_laws C \<Longrightarrow> smul C P (- a) = - smul C P a"
  by (metis add.right_inverse add_eq_0_iff smul_add smul_zero)

lemma smul_diff [curve_simps]: "curve_laws C \<Longrightarrow> smul C P (a - b) = smul C P a - smul C P b"
  by (metis add_uminus_conv_diff smul_add smul_uminus)

lemma smul_gen_eq_iff:
  assumes "curve_laws C"
  shows "smul C (generator C) a = smul C (generator C) b \<longleftrightarrow> a = b"
proof
  assume "smul C (generator C) a = smul C (generator C) b"
  then have "smul C (generator C) (a - b) = 0" using assms by (simp add: smul_diff)
  then show "a = b" using smul_gen_zero [OF assms] by force
qed simp

lemma smul_eq_zeroD: "curve_laws C \<Longrightarrow> smul C P a = 0 \<Longrightarrow> a \<noteq> 0 \<Longrightarrow> P = 0"
  by (metis invert_right smul_one smul_smul smul_zero_point)

lemma smul_sum_list:
  assumes "curve_laws C"
  shows "smul C P (\<Sum>x\<leftarrow>xs. f x) = (\<Sum>x\<leftarrow>xs. smul C P (f x))"
  by (induction xs) (simp_all add: assms curve_simps)

lemma fe_from_uminus [curve_simps]: "curve_laws C \<Longrightarrow> fe_from C (- x) = - fe_from C x"
  by (metis add.right_inverse add_eq_0_iff dvd_0_right fe_from_add fe_from_zero_iff)

lemma fe_from_diff [curve_simps]: "curve_laws C \<Longrightarrow> fe_from C (x - y) = fe_from C x - fe_from C y"
  by (metis add_uminus_conv_diff fe_from_add fe_from_uminus)

lemma fe_from_eq_iff:
  assumes "curve_laws C"
  shows "fe_from C x = fe_from C y \<longleftrightarrow> fe_q C dvd (x - y)"
  using fe_from_zero_iff [OF assms, of "x - y"] by (simp add: fe_from_diff [OF assms])

lemma fe_from_mod_q [curve_simps]: "curve_laws C \<Longrightarrow> fe_from C (x mod fe_q C) = fe_from C x"
  by (metis fe_from_eq_iff dvd_minus_mod dvd_diff_commute)

lemma proof_lawsD:
  assumes "proof_laws C"
  shows dlog_complete: "dlog_verify C (dlog_prove C x s)"
    and dlog_pk_prove: "dlog_pk C (dlog_prove C x s) = smul C (generator C) x"
    and elgamal_complete: "es_D st = smul C (es_H st) (ew_x w) + smul C (es_Y st) (ew_r w) \<Longrightarrow>
      es_E st = smul C (es_G st) (ew_r w) \<Longrightarrow> elgamal_verify C (elgamal_prove C w st s) st"
  using assms unfolding proof_laws_def by blast+

lemma vss_lawsD:
  assumes "vss_laws C t n"
  shows vss_share_length: "length (snd (vss_share C t n u s)) = n"
    and vss_share_commitments:
      "\<exists>cs. vss_commitments C (fst (vss_share C t n u s)) = smul C (generator C) u # cs"
    and vss_share_validates:
      "i < n \<Longrightarrow>
       vss_validate C (fst (vss_share C t n u s)) (snd (vss_share C t n u s) ! i) (Suc i)"
    and vss_validate_iff: "vss_commitments C v \<noteq> [] \<Longrightarrow>
      vss_validate C v x i \<longleftrightarrow> smul C (generator C) x = vss_point C v i"
    and vss_map_share_indep:
      "vss_map_share C (fst (vss_share C t n u s)) i S =
       vss_map_share C (fst (vss_share C t n u' s')) i S"
    and vss_reconstruct:
      "distinct S \<Longrightarrow> length S = Suc t \<Longrightarrow> \<forall>i\<in>set S. i < n \<Longrightarrow>
       (\<Sum>i\<leftarrow>S. vss_map_share C (fst (vss_share C t n u s)) i S * snd (vss_share C t n u s) ! i) = u"
  using assms unfolding vss_laws_def by blast+

lemma vss_share_point:
  assumes "vss_laws C t n" "i < n"
  shows "vss_point C (fst (vss_share C t n u s)) (Suc i) =
    smul C (generator C) (snd (vss_share C t n u s) ! i)"
proof -
  have "vss_commitments C (fst (vss_share C t n u s)) \<noteq> []"
    using vss_share_commitments [OF assms(1), of u s] by auto
  then show ?thesis
    using vss_share_validates [OF assms, of u s] vss_validate_iff [OF assms(1)] by metis
qed

end
