(* ===== verification/Key_Gen.thy ===== *)
theory Key_Gen
  imports Crypto_Lib
begin

text \<open>
  Key generation of the threshold scheme: the types and the \<open>impl Keys\<close> and
  \<open>impl PartyPrivate\<close> blocks of \<open>src/vDexNode/mpt/src/utils/key_gen_utils.rs\<close>, one definition
  per function. Random draws (\<open>new_random\<close>, \<open>keypair\<close>, \<open>BigInt::sample\<close>, the randomness of
  \<open>DLogProof::prove\<close> and \<open>VerifiableSS::share\<close>) are arguments.
\<close>

section \<open>Data\<close>

text \<open>\<open>enum Error\<close> of \<open>lib.rs\<close>.\<close>

datatype error = InvalidKey | InvalidSS | InvalidCom | InvalidSig

record ('fe, 'ge, 'ek, 'dk) keys =
  k_u_i :: 'fe
  k_y_i :: 'ge
  k_dk :: 'dk
  k_ek :: 'ek
  party_index :: nat

record ('fe, 'dk) party_private =
  pp_u_i :: 'fe
  pp_x_i :: 'fe
  pp_dk :: 'dk

record ('ek, 'ckp) keygen_broadcast1 =
  bc_e :: 'ek
  bc_com :: int
  bc_correct_key_proof :: 'ckp

record 'ge keygen_decommit1 =
  de_blind_factor :: int
  de_y_i :: 'ge

record parameters =
  threshold :: nat
  share_count :: nat

record ('fe, 'ge) shared_keys =
  sh_y :: 'ge
  sh_x_i :: 'fe

section \<open>\<open>impl Keys\<close>\<close>

definition keys_create_from ::
  "('fe::field, 'ge::ab_group_add, 'dlp, 'egp, 'vss) curv \<Rightarrow> ('ek, 'dk, 'ckp) paillier \<Rightarrow>
   int \<Rightarrow> 'fe \<Rightarrow> nat \<Rightarrow> ('fe, 'ge, 'ek, 'dk) keys" where
  "keys_create_from C P kp_seed u index =
     (let y = smul C (generator C) u; (ek, dk) = keypair P kp_seed
      in \<lparr>k_u_i = u, k_y_i = y, k_dk = dk, k_ek = ek, party_index = index\<rparr>)"

text \<open>\<open>Keys::create\<close>; the argument \<open>u\<close> is the scalar that \<open>ECScalar::new_random\<close> draws.\<close>

definition keys_create ::
  "('fe::field, 'ge::ab_group_add, 'dlp, 'egp, 'vss) curv \<Rightarrow> ('ek, 'dk, 'ckp) paillier \<Rightarrow>
   'fe \<Rightarrow> int \<Rightarrow> nat \<Rightarrow> ('fe, 'ge, 'ek, 'dk) keys" where
  "keys_create C P u kp_seed index =
     (let y = smul C (generator C) u; (ek, dk) = keypair P kp_seed
      in \<lparr>k_u_i = u, k_y_i = y, k_dk = dk, k_ek = ek, party_index = index\<rparr>)"

definition phase1_broadcast_phase3_proof_of_correct_key ::
  "('fe::field, 'ge::ab_group_add, 'dlp, 'egp, 'vss) curv \<Rightarrow> ('ek, 'dk, 'ckp) paillier \<Rightarrow>
   ('fe, 'ge, 'ek, 'dk) keys \<Rightarrow> int \<Rightarrow> ('ek, 'ckp) keygen_broadcast1 \<times> 'ge keygen_decommit1" where
  "phase1_broadcast_phase3_proof_of_correct_key C P k blind_factor =
     (let correct_key_proof = correct_key_prove P (k_dk k);
          com = create_commitment C (compressed C (k_y_i k)) blind_factor
      in (\<lparr>bc_e = k_ek k, bc_com = com, bc_correct_key_proof = correct_key_proof\<rparr>,
          \<lparr>de_blind_factor = blind_factor, de_y_i = k_y_i k\<rparr>))"

text \<open>One element of the check over all parties: the decommitment opens the commitment and the
  Paillier key proof verifies.\<close>

definition decommit_ok ::
  "('fe::field, 'ge::ab_group_add, 'dlp, 'egp, 'vss) curv \<Rightarrow> ('ek, 'dk, 'ckp) paillier \<Rightarrow>
   'ge keygen_decommit1 \<Rightarrow> ('ek, 'ckp) keygen_broadcast1 \<Rightarrow> bool" where
  "decommit_ok C P d b \<longleftrightarrow>
     create_commitment C (compressed C (de_y_i d)) (de_blind_factor d) = bc_com b \<and>
     correct_key_verify P (bc_correct_key_proof b) (bc_e b)"

definition phase1_verify_com_phase3_verify_correct_key_phase2_distribute ::
  "('fe::field, 'ge::ab_group_add, 'dlp, 'egp, 'vss) curv \<Rightarrow> ('ek, 'dk, 'ckp) paillier \<Rightarrow>
   ('fe, 'ge, 'ek, 'dk) keys \<Rightarrow> parameters \<Rightarrow> 'ge keygen_decommit1 list \<Rightarrow>
   ('ek, 'ckp) keygen_broadcast1 list \<Rightarrow> int \<Rightarrow> (error + 'vss \<times> 'fe list \<times> nat) option" where
  "phase1_verify_com_phase3_verify_correct_key_phase2_distribute C P k params decom_vec bc1_vec seed =
     (if length decom_vec \<noteq> share_count params then None
      else if length bc1_vec \<noteq> share_count params then None
      else do {
        correct_key_correct_decom_all \<leftarrow>
          all_lazy (\<lambda>i. do { d \<leftarrow> vec_get decom_vec i; b \<leftarrow> vec_get bc1_vec i;
                              Some (decommit_ok C P d b) })
            [0..<length bc1_vec];
        let (vss_scheme, secret_shares) =
          vss_share C (threshold params) (share_count params) (k_u_i k) seed;
        Some (if correct_key_correct_decom_all
              then Inr (vss_scheme, secret_shares, party_index k) else Inl InvalidKey)
      })"

definition share_ok ::
  "('fe::field, 'ge::ab_group_add, 'dlp, 'egp, 'vss) curv \<Rightarrow> 'vss \<Rightarrow> 'fe \<Rightarrow> 'ge \<Rightarrow> nat \<Rightarrow>
   bool option" where
  "share_ok C v share y index =
     and_lazy (Some (vss_validate C v share index))
       (do { c0 \<leftarrow> vec_get (vss_commitments C v) 0; Some (c0 = y) })"

definition phase2_verify_vss_construct_keypair_phase3_pok_dlog ::
  "('fe::field, 'ge::ab_group_add, 'dlp, 'egp, 'vss) curv \<Rightarrow> parameters \<Rightarrow> 'ge list \<Rightarrow> 'fe list \<Rightarrow>
   'vss list \<Rightarrow> nat \<Rightarrow> int \<Rightarrow> (error + ('fe, 'ge) shared_keys \<times> 'dlp) option" where
  "phase2_verify_vss_construct_keypair_phase3_pok_dlog C params y_vec secret_shares_vec
       vss_scheme_vec index seed =
     (if length y_vec \<noteq> share_count params then None
      else if length secret_shares_vec \<noteq> share_count params then None
      else if length vss_scheme_vec \<noteq> share_count params then None
      else do {
        correct_ss_verify \<leftarrow>
          all_lazy (\<lambda>i. do { v \<leftarrow> vec_get vss_scheme_vec i; s \<leftarrow> vec_get secret_shares_vec i;
                              y \<leftarrow> vec_get y_vec i; share_ok C v s y index })
            [0..<length y_vec];
        if correct_ss_verify then do {
          y0 \<leftarrow> vec_get y_vec 0;
          let y = foldl (\<lambda>acc x. acc + x) y0 (tl y_vec);
          let x_i = foldl (\<lambda>acc x. acc + x) 0 secret_shares_vec;
          let dlog_proof = dlog_prove C x_i seed;
          Some (Inr (\<lparr>sh_y = y, sh_x_i = x_i\<rparr>, dlog_proof))
        } else Some (Inl InvalidSS)
      })"

definition get_commitments_to_xi ::
  "('fe::field, 'ge::ab_group_add, 'dlp, 'egp, 'vss) curv \<Rightarrow> 'vss list \<Rightarrow> 'ge list option" where
  "get_commitments_to_xi C vss_scheme_vec =
     (let len = length vss_scheme_vec
      in map_panic (\<lambda>i. do {
           let xij_points_vec = map (\<lambda>v. vss_point C v i) vss_scheme_vec;
           first \<leftarrow> vec_get xij_points_vec 0;
           Some (foldl (\<lambda>acc x. acc + x) first (tl xij_points_vec))
         }) [1..<len + 1])"

definition update_commitments_to_xi ::
  "('fe::field, 'ge::ab_group_add, 'dlp, 'egp, 'vss) curv \<Rightarrow> 'ge \<Rightarrow> 'vss \<Rightarrow> nat \<Rightarrow> nat list \<Rightarrow> 'ge" where
  "update_commitments_to_xi C comm vss_scheme index s =
     (let li = vss_map_share C vss_scheme index s in smul C comm li)"

definition verify_dlog_proofs ::
  "('fe::field, 'ge::ab_group_add, 'dlp, 'egp, 'vss) curv \<Rightarrow> parameters \<Rightarrow> 'dlp list \<Rightarrow> 'ge list \<Rightarrow>
   (error + unit) option" where
  "verify_dlog_proofs C params dlog_proofs_vec y_vec =
     (if length y_vec \<noteq> share_count params then None
      else if length dlog_proofs_vec \<noteq> share_count params then None
      else do {
        xi_dlog_verify \<leftarrow>
          all_lazy (\<lambda>i. do { p \<leftarrow> vec_get dlog_proofs_vec i; Some (dlog_verify C p) })
            [0..<length y_vec];
        Some (if xi_dlog_verify then Inr () else Inl InvalidKey)
      })"

section \<open>\<open>impl PartyPrivate\<close>\<close>

definition set_private ::
  "('fe, 'ge, 'ek, 'dk) keys \<Rightarrow> ('fe, 'ge) shared_keys \<Rightarrow> ('fe, 'dk) party_private" where
  "set_private key shared_key =
     \<lparr>pp_u_i = k_u_i key, pp_x_i = sh_x_i shared_key, pp_dk = k_dk key\<rparr>"

definition private_y_i ::
  "('fe::field, 'ge::ab_group_add, 'dlp, 'egp, 'vss) curv \<Rightarrow> ('fe, 'dk) party_private \<Rightarrow> 'ge" where
  "private_y_i C p = smul C (generator C) (pp_u_i p)"

definition private_decrypt ::
  "('ek, 'dk, 'ckp) paillier \<Rightarrow> ('fe, 'dk) party_private \<Rightarrow> int \<Rightarrow> int" where
  "private_decrypt P p ciphertext = p_decrypt P (pp_dk p) ciphertext"

definition refresh_private_key ::
  "('fe::field, 'ge::ab_group_add, 'dlp, 'egp, 'vss) curv \<Rightarrow> ('ek, 'dk, 'ckp) paillier \<Rightarrow>
   ('fe, 'dk) party_private \<Rightarrow> 'fe \<Rightarrow> int \<Rightarrow> nat \<Rightarrow> ('fe, 'ge, 'ek, 'dk) keys" where
  "refresh_private_key C P p factor kp_seed index =
     (let u = pp_u_i p + factor; y = smul C (generator C) u; (ek, dk) = keypair P kp_seed
      in \<lparr>k_u_i = u, k_y_i = y, k_dk = dk, k_ek = ek, party_index = index\<rparr>)"

text \<open>\<open>to_encrypted_segment\<close> forwards to the crate \<open>centipede\<close>: \<open>segments\<close> is
  \<open>Msegmentation::to_encrypted_segments\<close>.\<close>

definition to_encrypted_segment ::
  "('fe \<Rightarrow> nat \<Rightarrow> nat \<Rightarrow> 'ge \<Rightarrow> 'ge \<Rightarrow> 'witness \<times> 'segments) \<Rightarrow> ('fe, 'dk) party_private \<Rightarrow> nat \<Rightarrow> nat \<Rightarrow>
   'ge \<Rightarrow> 'ge \<Rightarrow> 'witness \<times> 'segments" where
  "to_encrypted_segment segments p segment_size num_of_segments pub_ke_y g =
     segments (pp_u_i p) segment_size num_of_segments pub_ke_y g"

definition update_private_key ::
  "('fe::field, 'dk) party_private \<Rightarrow> 'fe \<Rightarrow> 'fe \<Rightarrow> ('fe, 'dk) party_private" where
  "update_private_key p factor_u_i factor_x_i =
     \<lparr>pp_u_i = pp_u_i p + factor_u_i, pp_x_i = pp_x_i p + factor_x_i, pp_dk = pp_dk p\<rparr>"

end
