(* ===== verification/Keygen_Run.thy ===== *)
theory Keygen_Run
  imports Client Key_Gen
begin

text \<open>
  The program \<open>src/vDexNode/mpt/src/bin/generate_key.rs\<close>: one party's run of the five rounds of
  key generation over the board, from the sign-up to the tuple that it writes into its key file.
  AES-GCM, the byte form of big integers and the JSON codec of the messages are parameters, the
  random draws are arguments. Arguments and the configuration file are read before the run.
\<close>

section \<open>Libraries\<close>

record aead =
  ae_ciphertext :: string
  ae_tag :: string

text \<open>\<open>AesGcm::new\<close> panics on keys it does not support: the outer \<open>None\<close>. A wrong tag is the inner
  \<open>None\<close> of decryption. \<open>to_vec\<close> and \<open>from_vec\<close> are \<open>BigInt::to_vec\<close> and \<open>BigInt::from\<close> on
  bytes.\<close>

record gcm_lib =
  gcm_encrypt :: "string \<Rightarrow> string \<Rightarrow> string \<Rightarrow> aead option"
  gcm_decrypt :: "string \<Rightarrow> string \<Rightarrow> aead \<Rightarrow> string option option"
  to_vec :: "int \<Rightarrow> string"
  from_vec :: "string \<Rightarrow> int"

text \<open>\<open>serde_json\<close> at the message types.\<close>

record ('ge, 'ek, 'ckp, 'vss, 'dlp) keygen_json =
  enc_bc :: "('ek, 'ckp) keygen_broadcast1 \<Rightarrow> string"
  dec_bc :: "string \<Rightarrow> ('ek, 'ckp) keygen_broadcast1 option"
  enc_de :: "'ge keygen_decommit1 \<Rightarrow> string"
  dec_de :: "string \<Rightarrow> 'ge keygen_decommit1 option"
  enc_aead :: "aead \<Rightarrow> string"
  dec_aead :: "string \<Rightarrow> aead option"
  enc_vss :: "'vss \<Rightarrow> string"
  dec_vss :: "string \<Rightarrow> 'vss option"
  enc_dlog :: "'dlp \<Rightarrow> string"
  dec_dlog :: "string \<Rightarrow> 'dlp option"

text \<open>The random draws of one run.\<close>

record 'fe keygen_rnd =
  kr_u :: 'fe
  kr_kp :: int
  kr_blind :: int
  kr_vss :: int
  kr_dlog :: int

section \<open>The loops between the rounds\<close>

text \<open>\<open>assert!(\<dots>.is_ok())\<close> on the answer of the board.\<close>

definition assert_ok :: "('w, unit + unit) act \<Rightarrow> ('w, unit) prog" where
  "assert_ok m = act_prog (and_then m (\<lambda>r. case r of Inl _ \<Rightarrow> panic | Inr _ \<Rightarrow> done_with ()))"

text \<open>The symmetric key between two parties: the \<open>x\<close> coordinate of the sum of their points.\<close>

definition enc_key ::
  "('fe::field, 'ge::ab_group_add, 'dlp, 'egp, 'vss) curv \<Rightarrow> 'ge \<Rightarrow> 'ge \<Rightarrow> int option" where
  "enc_key C y_i y_j = x_coor C (y_i + y_j)"

text \<open>Round 2: the points, the decommitments, and the symmetric keys with the other parties.\<close>

fun round2_loop ::
  "('fe::field, 'ge::ab_group_add, 'dlp, 'egp, 'vss) curv \<Rightarrow> (string \<Rightarrow> 'ge keygen_decommit1 option) \<Rightarrow>
   u32 \<Rightarrow> 'ge \<Rightarrow> 'ge keygen_decommit1 \<Rightarrow> string list \<Rightarrow> nat \<Rightarrow> u32 list \<Rightarrow>
   ('ge list \<times> 'ge keygen_decommit1 list \<times> int list) option" where
  "round2_loop C parse me y_i decom_i ans j [] = Some ([], [], [])"
| "round2_loop C parse me y_i decom_i ans j (i # is) =
     (if i = me then do {
        (ys, ds, ks) \<leftarrow> round2_loop C parse me y_i decom_i ans j is;
        Some (y_i # ys, decom_i # ds, ks)
      } else do {
        s \<leftarrow> vec_get ans j;
        decom_j \<leftarrow> parse s;
        k \<leftarrow> enc_key C y_i (de_y_i decom_j);
        (ys, ds, ks) \<leftarrow> round2_loop C parse me y_i decom_i ans (Suc j) is;
        Some (de_y_i decom_j # ys, decom_j # ds, k # ks)
      })"

definition y_sum_of :: "'ge::ab_group_add list \<Rightarrow> 'ge option" where
  "y_sum_of y_vec = do { head \<leftarrow> vec_get y_vec 0; Some (foldl (\<lambda>acc x. acc + x) head (tl y_vec)) }"

text \<open>\<open>repeat(round).take(12)\<close> with \<open>round = 3\<close>.\<close>

definition round_nonce :: string where
  "round_nonce = replicate 12 (char_of (3::nat))"

definition seal_share ::
  "('fe::field, 'ge::ab_group_add, 'dlp, 'egp, 'vss) curv \<Rightarrow> gcm_lib \<Rightarrow> int \<Rightarrow> 'fe \<Rightarrow> aead option" where
  "seal_share C G k share = gcm_encrypt G (to_vec G k) round_nonce (to_vec G (to_big_int C share))"

definition open_share ::
  "('fe::field, 'ge::ab_group_add, 'dlp, 'egp, 'vss) curv \<Rightarrow> gcm_lib \<Rightarrow> int \<Rightarrow> aead \<Rightarrow> 'fe option" where
  "open_share C G k pack =
     (case gcm_decrypt G (to_vec G k) round_nonce pack of
        None \<Rightarrow> None | Some None \<Rightarrow> None
      | Some (Some out) \<Rightarrow> Some (fe_from C (from_vec G out)))"

text \<open>Round 3: \<open>j\<close> counts the symmetric keys, \<open>k\<close> the shares.\<close>

fun send_shares ::
  "('fe::field, 'ge::ab_group_add, 'dlp, 'egp, 'vss) curv \<Rightarrow> gcm_lib \<Rightarrow> (aead \<Rightarrow> string) \<Rightarrow> 'w net \<Rightarrow>
   u32 \<Rightarrow> string \<Rightarrow> int list \<Rightarrow> 'fe list \<Rightarrow> nat \<Rightarrow> nat \<Rightarrow> u32 list \<Rightarrow> ('w, unit) prog" where
  "send_shares C G enc net me uuid enc_keys secret_shares j k [] = ret ()"
| "send_shares C G enc net me uuid enc_keys secret_shares j k (i # is) =
     (if i \<noteq> me then
        bind_prog (try_prog (vec_get enc_keys j)) (\<lambda>key.
        bind_prog (try_prog (vec_get secret_shares k)) (\<lambda>share.
        bind_prog (try_prog (seal_share C G key share)) (\<lambda>pack.
        bind_prog (assert_ok (sendp2p net me i ''round3'' (enc pack) uuid)) (\<lambda>_.
        send_shares C G enc net me uuid enc_keys secret_shares (Suc j) (Suc k) is))))
      else send_shares C G enc net me uuid enc_keys secret_shares j (Suc k) is)"

fun read_shares ::
  "('fe::field, 'ge::ab_group_add, 'dlp, 'egp, 'vss) curv \<Rightarrow> gcm_lib \<Rightarrow> (string \<Rightarrow> aead option) \<Rightarrow>
   u32 \<Rightarrow> int list \<Rightarrow> 'fe list \<Rightarrow> string list \<Rightarrow> nat \<Rightarrow> u32 list \<Rightarrow> 'fe list option" where
  "read_shares C G parse me enc_keys secret_shares ans j [] = Some []"
| "read_shares C G parse me enc_keys secret_shares ans j (i # is) =
     (if i = me then do {
        own \<leftarrow> vec_get secret_shares (unat (i - 1));
        xs \<leftarrow> read_shares C G parse me enc_keys secret_shares ans j is;
        Some (own # xs)
      } else do {
        s \<leftarrow> vec_get ans j;
        pack \<leftarrow> parse s;
        key \<leftarrow> vec_get enc_keys j;
        share \<leftarrow> open_share C G key pack;
        xs \<leftarrow> read_shares C G parse me enc_keys secret_shares ans (Suc j) is;
        Some (share # xs)
      })"

section \<open>The run\<close>

text \<open>The tuple that is written into the key file.\<close>

record ('fe, 'ge, 'ek, 'dk, 'vss) key_file =
  kf_keys :: "('fe, 'ge, 'ek, 'dk) keys"
  kf_shared :: "('fe, 'ge) shared_keys"
  kf_party :: u32
  kf_vss :: "'vss list"
  kf_paillier :: "'ek list"
  kf_y_sum :: 'ge

text \<open>Rounds 1 to 3: the commitments, the points, and the shares that the others dealt.\<close>

definition keygen_deal ::
  "('fe::field, 'ge::ab_group_add, 'dlp, 'egp, 'vss) curv \<Rightarrow> ('ek, 'dk, 'ckp) paillier \<Rightarrow> gcm_lib \<Rightarrow>
   ('ge, 'ek, 'ckp, 'vss, 'dlp) keygen_json \<Rightarrow> 'w net \<Rightarrow> u32 \<Rightarrow> parameters \<Rightarrow> u32 \<Rightarrow> string \<Rightarrow>
   'fe keygen_rnd \<Rightarrow> ('fe, 'ge, 'ek, 'dk) keys \<Rightarrow>
   ('w, ('ek, 'ckp) keygen_broadcast1 list \<times> 'ge list \<times> 'ge \<times> 'vss \<times> 'fe list) prog" where
  "keygen_deal C P G J net parties params me uuid rnd party_keys =
     (let (bc_i, decom_i) = phase1_broadcast_phase3_proof_of_correct_key C P party_keys (kr_blind rnd)
      in
      bind_prog (assert_ok (broadcast net me ''round1'' (enc_bc J bc_i) uuid)) (\<lambda>_.
      bind_prog (poll_for_broadcasts net me parties ''round1'' uuid) (\<lambda>round1_ans.
      bind_prog (try_prog (read_round (dec_bc J) me bc_i parties round1_ans)) (\<lambda>bc1_vec.
      bind_prog (assert_ok (broadcast net me ''round2'' (enc_de J decom_i) uuid)) (\<lambda>_.
      bind_prog (poll_for_broadcasts net me parties ''round2'' uuid) (\<lambda>round2_ans.
      bind_prog (try_prog (round2_loop C (dec_de J) me (k_y_i party_keys) decom_i round2_ans 0
        (u32_range parties))) (\<lambda>(y_vec, decom_vec, enc_keys).
      bind_prog (try_prog (y_sum_of y_vec)) (\<lambda>y_sum.
      bind_prog (try_prog (Option.bind
          (phase1_verify_com_phase3_verify_correct_key_phase2_distribute C P party_keys params
             decom_vec bc1_vec (kr_vss rnd)) expect)) (\<lambda>(vss_scheme, secret_shares, _).
      bind_prog (send_shares C G (enc_aead J) net me uuid enc_keys secret_shares 0 0
        (u32_range parties)) (\<lambda>_.
      bind_prog (poll_for_p2p net me parties ''round3'' uuid) (\<lambda>round3_ans.
      bind_prog (try_prog (read_shares C G (dec_aead J) me enc_keys secret_shares round3_ans 0
        (u32_range parties))) (\<lambda>party_shares.
      ret (bc1_vec, y_vec, y_sum, vss_scheme, party_shares)))))))))))))"

text \<open>Rounds 4 and 5: the shares are checked, the proofs of knowledge exchanged.\<close>

definition keygen_confirm ::
  "('fe::field, 'ge::ab_group_add, 'dlp, 'egp, 'vss) curv \<Rightarrow>
   ('ge, 'ek, 'ckp, 'vss, 'dlp) keygen_json \<Rightarrow> 'w net \<Rightarrow> u32 \<Rightarrow> parameters \<Rightarrow> u32 \<Rightarrow> string \<Rightarrow>
   'fe keygen_rnd \<Rightarrow> ('ek, 'ckp) keygen_broadcast1 list \<Rightarrow> 'ge list \<Rightarrow> 'vss \<Rightarrow> 'fe list \<Rightarrow>
   ('w, ('fe, 'ge) shared_keys \<times> 'vss list \<times> 'ek list) prog" where
  "keygen_confirm C J net parties params me uuid rnd bc1_vec y_vec vss_scheme party_shares =
     bind_prog (assert_ok (broadcast net me ''round4'' (enc_vss J vss_scheme) uuid)) (\<lambda>_.
     bind_prog (poll_for_broadcasts net me parties ''round4'' uuid) (\<lambda>round4_ans.
     bind_prog (try_prog (read_round (dec_vss J) me vss_scheme parties round4_ans)) (\<lambda>vss_scheme_vec.
     bind_prog (try_prog (Option.bind
         (phase2_verify_vss_construct_keypair_phase3_pok_dlog C params y_vec party_shares
            vss_scheme_vec (unat me) (kr_dlog rnd)) expect)) (\<lambda>(shared_keys, dlog_proof).
     bind_prog (assert_ok (broadcast net me ''round5'' (enc_dlog J dlog_proof) uuid)) (\<lambda>_.
     bind_prog (poll_for_broadcasts net me parties ''round5'' uuid) (\<lambda>round5_ans.
     bind_prog (try_prog (read_round (dec_dlog J) me dlog_proof parties round5_ans)) (\<lambda>dlog_proof_vec.
     bind_prog (try_prog (Option.bind (verify_dlog_proofs C params dlog_proof_vec y_vec) expect)) (\<lambda>_.
     bind_prog (try_prog (map_panic (\<lambda>i. map_option bc_e (vec_get bc1_vec i)) [0..<unat parties]))
       (\<lambda>paillier_key_vec.
     ret (shared_keys, vss_scheme_vec, paillier_key_vec))))))))))"

definition keygen_session ::
  "('fe::field, 'ge::ab_group_add, 'dlp, 'egp, 'vss) curv \<Rightarrow> ('ek, 'dk, 'ckp) paillier \<Rightarrow> gcm_lib \<Rightarrow>
   ('ge, 'ek, 'ckp, 'vss, 'dlp) keygen_json \<Rightarrow> 'w net \<Rightarrow> u32 \<Rightarrow> u32 \<Rightarrow> u32 \<Rightarrow> string \<Rightarrow> 'fe keygen_rnd \<Rightarrow>
   ('w, ('fe, 'ge, 'ek, 'dk, 'vss) key_file) prog" where
  "keygen_session C P G J net parties thr me uuid rnd =
     (let params = \<lparr>threshold = unat thr, share_count = unat parties\<rparr>;
          party_keys = keys_create C P (kr_u rnd) (kr_kp rnd) (unat me)
      in
      bind_prog (keygen_deal C P G J net parties params me uuid rnd party_keys)
        (\<lambda>(bc1_vec, y_vec, y_sum, vss_scheme, party_shares).
      bind_prog (keygen_confirm C J net parties params me uuid rnd bc1_vec y_vec vss_scheme party_shares)
        (\<lambda>(shared_keys, vss_scheme_vec, paillier_key_vec).
      ret \<lparr>kf_keys = party_keys, kf_shared = shared_keys, kf_party = me, kf_vss = vss_scheme_vec,
        kf_paillier = paillier_key_vec, kf_y_sum = y_sum\<rparr>)))"

section \<open>The program\<close>

text \<open>What a program sees of the operating system: its arguments (with the program's name at position
  0), the files that it can read, and the paths that it can write. A program ends with the path and
  the contents of the file that it writes.\<close>

record os =
  os_args :: "string list"
  os_files :: "string \<Rightarrow> string option"
  os_writable :: "string \<Rightarrow> bool"

definition arg_panic :: "os \<Rightarrow> nat \<Rightarrow> ('w, unit) prog" where
  "arg_panic sys n = (if n + 1 < length (os_args sys) \<or> length (os_args sys) \<le> n then try_prog None else ret ())"

definition write_file :: "os \<Rightarrow> string \<Rightarrow> 'a \<Rightarrow> ('w, string \<times> 'a) prog" where
  "write_file sys path contents = (if os_writable sys path then ret (path, contents) else try_prog None)"

definition config_file :: "os \<Rightarrow> string option" where
  "config_file sys = os_files sys ''config/server.conf''"

text \<open>\<open>main\<close>: the parameters of \<open>config/server.conf\<close>, the sign-up, the rounds, and the key file, which
  is written to the path of the second argument.\<close>

definition generate_key_main ::
  "('fe::field, 'ge::ab_group_add, 'dlp, 'egp, 'vss) curv \<Rightarrow> ('ek, 'dk, 'ckp) paillier \<Rightarrow> gcm_lib \<Rightarrow>
   ('ge, 'ek, 'ckp, 'vss, 'dlp) keygen_json \<Rightarrow> 'w net \<Rightarrow> (string \<Rightarrow> params option) \<Rightarrow> os \<Rightarrow>
   'fe keygen_rnd \<Rightarrow> ('w, string \<times> ('fe, 'ge, 'ek, 'dk, 'vss) key_file) prog" where
  "generate_key_main C P G J net parse_conf sys rnd =
     bind_prog (arg_panic sys 2) (\<lambda>_.
     bind_prog (try_prog (config_file sys)) (\<lambda>data.
     bind_prog (try_prog (parse_conf data)) (\<lambda>params.
     bind_prog (try_prog (parse_u32 (pa_parties params))) (\<lambda>parties.
     bind_prog (try_prog (parse_u32 (pa_threshold params))) (\<lambda>thr.
     bind_prog (act_prog (keygen_signup net)) (\<lambda>r.
     case r of Inl _ \<Rightarrow> try_prog None
     | Inr party_i_signup \<Rightarrow>
         bind_prog (keygen_session C P G J net parties thr (ps_number party_i_signup)
           (ps_uuid party_i_signup) rnd) (\<lambda>kf. write_file sys (os_args sys ! 2) kf)))))))"

end
