(* ===== verification/Rounds.thy ===== *)
theory Rounds
  imports Client_Correct Keygen_Run
begin

text \<open>
  Whole client programs, round by round. \<open>runs G I m a K\<close> says that a program ends from every
  world in which \<open>I\<close> holds: with result \<open>a\<close>, and then \<open>K\<close> holds afterwards, or without one, and
  then the program has given up in a world in which \<open>G\<close> holds (nowhere, for a board on which every
  message arrives). A \<open>script\<close>
  lists the messages of the rounds of a protocol; the locale \<open>session_board\<close> is what a program
  needs of its board to play its part in a script, however the messages of the others get there.
\<close>

section \<open>Programs that end\<close>

definition runs ::
  "('w \<Rightarrow> bool) \<Rightarrow> ('w \<Rightarrow> bool) \<Rightarrow> ('w, 'a) prog \<Rightarrow> 'a \<Rightarrow> ('w \<Rightarrow> bool) \<Rightarrow> bool" where
  "runs G I m a K \<longleftrightarrow>
     (\<forall>w. I w \<longrightarrow> (\<exists>w'. m w = Some (Some a, w') \<and> K w') \<or> (\<exists>w'. m w = Some (None, w') \<and> G w'))"

lemma runsE:
  "runs G I m a K \<Longrightarrow> I w \<Longrightarrow>
   (\<exists>w'. m w = Some (Some a, w') \<and> K w') \<or> (\<exists>w'. m w = Some (None, w') \<and> G w')"
  by (simp add: runs_def)

lemma runs_endE: "runs (\<lambda>_. False) I m a K \<Longrightarrow> I w \<Longrightarrow> \<exists>w'. m w = Some (Some a, w') \<and> K w'"
  by (simp add: runs_def)

lemma runs_ret: "runs G I (ret a) a I"
  by (simp add: runs_def ret_def)

lemma runs_try: "x = Some a \<Longrightarrow> runs G I (try_prog x) a I"
  by (simp add: runs_def try_prog_def)

lemma runs_bind: "runs G I m a I' \<Longrightarrow> runs G I' (k a) b K \<Longrightarrow> runs G I (bind_prog m k) b K"
  unfolding runs_def bind_prog_def by fastforce

lemma runs_bind2:
  "runs G I m (a, b) I' \<Longrightarrow> runs G I' (k a b) c K \<Longrightarrow> runs G I (bind_prog m (\<lambda>(x, y). k x y)) c K"
  by (erule runs_bind) simp

lemma runs_bind3:
  "runs G I m (a, b, c) I' \<Longrightarrow> runs G I' (k a b c) d K \<Longrightarrow> runs G I (bind_prog m (\<lambda>(x, y, z). k x y z)) d K"
  by (erule runs_bind) simp

section \<open>Scripts\<close>

text \<open>The messages of a round, by sender, and by sender and receiver.\<close>

datatype messages = Cast "u32 \<Rightarrow> string" | Direct "u32 \<Rightarrow> u32 \<Rightarrow> string"

type_synonym script = "(string \<times> messages) list"

text \<open>What party \<open>i\<close> of \<open>n\<close> writes and reads in a round.\<close>

fun sends :: "u32 \<Rightarrow> string \<Rightarrow> u32 \<Rightarrow> string \<times> messages \<Rightarrow> (tuple_key \<times> string) list" where
  "sends n uuid i (round, Cast f) = [(party_key i round uuid [], f i)]"
| "sends n uuid i (round, Direct f) =
     map (\<lambda>j. (party_key i round uuid (u32_to_string j), f i j)) (others i n)"

fun reads :: "u32 \<Rightarrow> string \<Rightarrow> u32 \<Rightarrow> string \<times> messages \<Rightarrow> (tuple_key \<times> string) list" where
  "reads n uuid i (round, Cast f) = map (\<lambda>j. (party_key j round uuid [], f j)) (others i n)"
| "reads n uuid i (round, Direct f) =
     map (\<lambda>j. (party_key j round uuid (u32_to_string i), f j i)) (others i n)"

text \<open>The entries that party \<open>i\<close> has written after \<open>r\<close> rounds, and all of them as a map.\<close>

definition written :: "u32 \<Rightarrow> string \<Rightarrow> script \<Rightarrow> u32 \<Rightarrow> nat \<Rightarrow> (tuple_key \<times> string) list" where
  "written n uuid script i r = concat (map (sends n uuid i) (take r script))"

definition board_of :: "(tuple_key \<times> string) list \<Rightarrow> tuple_key \<rightharpoonup> string" where
  "board_of kvs = map_of (rev kvs)"

lemma board_of_simps [simp]:
  "board_of [] = Map.empty" "board_of (kvs @ [(k, v)]) = (board_of kvs)(k \<mapsto> v)"
  by (simp_all add: board_of_def)

lemma board_of_distinct: "distinct (map fst kvs) \<Longrightarrow> (k, v) \<in> set kvs \<Longrightarrow> board_of kvs k = Some v"
  by (simp add: board_of_def distinct_map rev_map [symmetric])

lemma written_0 [simp]: "written n uuid script i 0 = []"
  by (simp add: written_def)

lemma written_Suc:
  "r < length script \<Longrightarrow>
   written n uuid script i (Suc r) = written n uuid script i r @ sends n uuid i (script ! r)"
  by (simp add: written_def take_Suc_conv_app_nth)

lemma sends_key:
  "(k, v) \<in> set (sends n uuid i (round, ms)) \<Longrightarrow> key_first k = u32_to_string i \<and> key_second k = round"
  by (cases ms) (auto simp: party_key_def)

text \<open>The loops that send the messages of a round one by one.\<close>

definition sent_to :: "u32 \<Rightarrow> string \<Rightarrow> string \<Rightarrow> (u32 \<Rightarrow> string) \<Rightarrow> u32 list \<Rightarrow> (tuple_key \<times> string) list" where
  "sent_to me round uuid msg is = map (\<lambda>i. (party_key me round uuid (u32_to_string i), msg i)) is"

lemma in_others [simp]: "j \<in> set (others i n) \<longleftrightarrow> j \<in> set (u32_range n) \<and> j \<noteq> i"
  by (auto simp: others_def)

lemma distinct_others_u32 [simp]: "distinct (others i n)"
  by (simp add: others_def distinct_u32_range)

lemma distinct_sends: "distinct (map fst (sends n uuid i rd))"
  by (cases rd rule: sends.cases [of "(n, uuid, i, rd)" for rd, simplified])
    (auto simp: distinct_map inj_on_def comp_def)

lemma sent_to_Cons:
  "board_of (kvs @ sent_to me round uuid msg (i # is)) =
   board_of ((kvs @ [(party_key me round uuid (u32_to_string i), msg i)]) @ sent_to me round uuid msg is)"
  by (simp add: sent_to_def)

lemma distinct_written:
  assumes "distinct (map fst script)"
  shows "distinct (map fst (written n uuid script i r))"
proof -
  have "distinct (map fst (concat (map (sends n uuid i) script)))" if "distinct (map fst script)"
    for script
    using that
  proof (induction script)
    case (Cons rd script)
    have "False" if mem: "k \<in> fst ` set (sends n uuid i rd)" "rd' \<in> set script"
      "k \<in> fst ` set (sends n uuid i rd')" for k rd'
    proof -
      have "key_second k = fst rd" "key_second k = fst rd'"
        using mem sends_key [of k _ n uuid i "fst rd" "snd rd"]
          sends_key [of k _ n uuid i "fst rd'" "snd rd'"] by auto
      moreover have "fst rd' \<in> fst ` set script" using mem(2) by simp
      ultimately show False using Cons.prems by auto
    qed
    then have "fst ` set (sends n uuid i rd) \<inter> fst ` set (concat (map (sends n uuid i) script)) = {}"
      by auto
    then show ?case using Cons by (simp only: list.map concat.simps map_append distinct_append
        distinct_sends set_map distinct.simps)
  qed simp
  from this [of "take r script"] show ?thesis
    using assms by (simp add: written_def take_map [symmetric])
qed

lemma written_sends:
  assumes "s < r" "s < length script" "(k, v) \<in> set (sends n uuid i (script ! s))"
  shows "(k, v) \<in> set (written n uuid script i r)"
proof -
  have "script ! s \<in> set (take r script)" using assms(1,2) by (auto simp: in_set_conv_nth)
  then show ?thesis using assms(3) by (auto simp: written_def)
qed

lemma reads_sends:
  assumes "i \<in> set (u32_range n)" "(k, v) \<in> set (reads n uuid i rd)"
  shows "\<exists>j\<in>set (others i n). (k, v) \<in> set (sends n uuid j rd)"
proof (cases "snd rd")
  case (Cast f)
  then show ?thesis using assms by (cases rd) auto
next
  case (Direct f)
  then obtain j where "j \<in> set (others i n)" "(k, v) = (party_key j (fst rd) uuid (u32_to_string i), f j i)"
    using assms by (cases rd) auto
  then show ?thesis using Direct assms(1) by (cases rd) (auto intro!: bexI [of _ j])
qed

text \<open>A script over valid strings, with a name of its own for every round.\<close>

definition script_ok :: "script \<Rightarrow> bool" where
  "script_ok script \<longleftrightarrow>
     distinct (map fst script) \<and>
     (\<forall>rd\<in>set script. case snd rd of Cast f \<Rightarrow> \<forall>i. utf8_valid (f i) | Direct f \<Rightarrow> \<forall>i j. utf8_valid (f i j))"

lemma written_key: "(k, v) \<in> set (written n uuid script i r) \<Longrightarrow> key_first k = u32_to_string i"
  unfolding written_def by (force dest: sends_key [of k v n uuid i "fst rd" "snd rd" for rd, simplified])

lemma written_utf8:
  assumes "script_ok script" "(k, v) \<in> set (written n uuid script i r)"
  shows "utf8_valid v"
proof -
  obtain rd where rd: "rd \<in> set script" "(k, v) \<in> set (sends n uuid i rd)"
    using assms(2) by (auto simp: written_def dest: in_set_takeD)
  have ok: "case snd rd of Cast f \<Rightarrow> \<forall>i. utf8_valid (f i) | Direct f \<Rightarrow> \<forall>i j. utf8_valid (f i j)"
    using assms(1) rd(1) by (simp add: script_ok_def)
  show ?thesis
  proof (cases "snd rd")
    case (Cast f)
    then show ?thesis using ok rd(2) by (cases rd) auto
  next
    case (Direct f)
    then show ?thesis using ok rd(2) by (cases rd) auto
  qed
qed

section \<open>Playing a part\<close>

text \<open>
  The client's requests at a board: \<open>knows K w\<close> holds when all entries of \<open>K\<close> are there, and
  \<open>avail K k v\<close> when a program that has written \<open>K\<close> can wait for the entry \<open>v\<close> at \<open>k\<close>; it may then
  find itself in a world in which \<open>quits\<close> holds and give up.
\<close>

locale session_board =
  fixes net :: "'w net"
    and writable :: "tuple_key \<Rightarrow> string \<Rightarrow> bool"
    and knows :: "(tuple_key \<rightharpoonup> string) \<Rightarrow> 'w \<Rightarrow> bool"
    and avail :: "(tuple_key \<rightharpoonup> string) \<Rightarrow> tuple_key \<Rightarrow> string \<Rightarrow> bool"
    and quits :: "'w \<Rightarrow> bool"
  assumes write_entry: "writable k v \<Longrightarrow>
      runs quits (knows K) (assert_ok (request_answer net ''set''
        (Body_Entry \<lparr>en_key = k, en_value = v\<rparr>) (dec_unit net))) () (knows (K(k \<mapsto> v)))"
    and read_entry: "avail K k v \<Longrightarrow> runs quits (knows K) (poll net \<lparr>ix_key = k\<rparr>) v (knows K)"
begin

lemma runs_poll_list:
  assumes "\<And>k v. (k, v) \<in> set kvs \<Longrightarrow> avail K k v"
  shows "runs quits (knows K) (poll_list net (map fst kvs)) (map snd kvs) (knows K)"
  using assms
proof (induction kvs)
  case Nil
  show ?case by (simp add: runs_ret)
next
  case (Cons kv kvs)
  from Cons.prems have "avail K (fst kv) (snd kv)" by (cases kv) auto
  moreover have "runs quits (knows K) (poll_list net (map fst kvs)) (map snd kvs) (knows K)"
    using Cons by auto
  ultimately show ?case
    by (auto intro!: runs_bind read_entry runs_ret)
qed

text \<open>What a party needs to play its part: it may write its messages, and those of the others are
  available in every round once it has written its own.\<close>

definition plays :: "u32 \<Rightarrow> string \<Rightarrow> script \<Rightarrow> u32 \<Rightarrow> bool" where
  "plays n uuid script me \<longleftrightarrow>
     (\<forall>(k, v)\<in>set (written n uuid script me (length script)). writable k v) \<and>
     (\<forall>r < length script. \<forall>(k, v)\<in>set (reads n uuid me (script ! r)).
        avail (board_of (written n uuid script me (Suc r))) k v)"

definition after :: "u32 \<Rightarrow> string \<Rightarrow> script \<Rightarrow> u32 \<Rightarrow> nat \<Rightarrow> 'w \<Rightarrow> bool" where
  "after n uuid script me r = knows (board_of (written n uuid script me r))"

lemma runs_broadcast_round:
  assumes "plays n uuid script me" "r < length script" "script ! r = (round, Cast f)"
  shows "runs quits (after n uuid script me r) (assert_ok (broadcast net me round (f me) uuid)) ()
    (after n uuid script me (Suc r))"
proof -
  have "(party_key me round uuid [], f me) \<in> set (written n uuid script me (length script))"
    using written_sends [OF assms(2,2)] assms(3) by simp
  then have "writable (party_key me round uuid []) (f me)"
    using assms(1) by (auto simp: plays_def)
  from write_entry [OF this] show ?thesis
    using assms(2,3) by (simp add: broadcast_def after_def written_Suc)
qed

lemma runs_poll_round:
  assumes "plays n uuid script me" "r < length script"
  shows "script ! r = (round, Cast f) \<Longrightarrow>
      runs quits (after n uuid script me (Suc r)) (poll_for_broadcasts net me n round uuid)
        (map f (others me n)) (after n uuid script me (Suc r))"
    and "script ! r = (round, Direct g) \<Longrightarrow>
      runs quits (after n uuid script me (Suc r)) (poll_for_p2p net me n round uuid)
        (map (\<lambda>i. g i me) (others me n)) (after n uuid script me (Suc r))"
proof -
  have avail: "avail (board_of (written n uuid script me (Suc r))) k v"
    if "(k, v) \<in> set (reads n uuid me (script ! r))" for k v
    using assms that by (auto simp: plays_def)
  note polls = runs_poll_list [of "reads n uuid me (script ! r)", OF avail, folded after_def]
  show "script ! r = (round, Cast f) \<Longrightarrow>
      runs quits (after n uuid script me (Suc r)) (poll_for_broadcasts net me n round uuid)
        (map f (others me n)) (after n uuid script me (Suc r))"
    using polls by (simp add: poll_for_broadcasts_def comp_def)
  show "script ! r = (round, Direct g) \<Longrightarrow>
      runs quits (after n uuid script me (Suc r)) (poll_for_p2p net me n round uuid)
        (map (\<lambda>i. g i me) (others me n)) (after n uuid script me (Suc r))"
    using polls by (simp add: poll_for_p2p_def comp_def)
qed

lemma runs_sendp2p:
  assumes "writable (party_key me round uuid (u32_to_string to)) data"
  shows "runs quits (knows K) (assert_ok (sendp2p net me to round data uuid)) ()
    (knows (K(party_key me round uuid (u32_to_string to) \<mapsto> data)))"
  using write_entry [OF assms] by (simp add: sendp2p_def)

end

end
