(* ===== verification/Small_Curve.thy ===== *)
theory Small_Curve
  imports Crypto_Lib
begin

text \<open>
  A concrete instance of the third-party cryptography, for the witnesses: the curve
  \<open>y\<^sup>2 = x\<^sup>3 + 7\<close> (the equation of secp256k1) over the field of 13 elements, whose group has
  the prime order 7. Scalars are integers modulo 7; a point is represented by its discrete
  logarithm to the base point \<open>(7, 5)\<close>, and \<open>x_coor\<close> is the table of the abscissas of the
  multiples of that point. Secret sharing is Shamir's with Feldman commitments; the
  commitments, hashes, proofs and the homomorphic encryption are transparent ones (they keep
  no secret), which is all the laws ask for.
\<close>

section \<open>The field of seven elements\<close>

datatype gf7 = Z0 | Z1 | Z2 | Z3 | Z4 | Z5 | Z6

fun gf_to :: "gf7 \<Rightarrow> int" where
  "gf_to Z0 = 0" | "gf_to Z1 = 1" | "gf_to Z2 = 2" | "gf_to Z3 = 3"
| "gf_to Z4 = 4" | "gf_to Z5 = 5" | "gf_to Z6 = 6"

definition gf_of :: "int \<Rightarrow> gf7" where
  "gf_of x = (let r = x mod 7 in
     if r = 0 then Z0 else if r = 1 then Z1 else if r = 2 then Z2 else if r = 3 then Z3
     else if r = 4 then Z4 else if r = 5 then Z5 else Z6)"

lemma gf_to_range: "0 \<le> gf_to a \<and> gf_to a < 7"
  by (cases a) simp_all

lemma gf_to_inject: "gf_to a = gf_to b \<longleftrightarrow> a = b"
  by (cases a; cases b) simp_all

lemma gf_to_of [simp]: "gf_to (gf_of x) = x mod 7"
proof -
  have "0 \<le> x mod 7" "x mod 7 < 7" by simp_all
  then consider "x mod 7 = 0" | "x mod 7 = 1" | "x mod 7 = 2" | "x mod 7 = 3" | "x mod 7 = 4"
    | "x mod 7 = 5" | "x mod 7 = 6"
    by linarith
  then show ?thesis by cases (simp_all add: gf_of_def)
qed

lemma gf_of_to [simp]: "gf_of (gf_to a) = a"
  by (cases a) (simp_all add: gf_of_def)

instantiation gf7 :: field
begin

definition zero_gf7 :: gf7 where "0 = Z0"

definition one_gf7 :: gf7 where "1 = Z1"

definition plus_gf7 :: "gf7 \<Rightarrow> gf7 \<Rightarrow> gf7" where "a + b = gf_of (gf_to a + gf_to b)"

definition uminus_gf7 :: "gf7 \<Rightarrow> gf7" where "- a = gf_of (- gf_to a)"

definition minus_gf7 :: "gf7 \<Rightarrow> gf7 \<Rightarrow> gf7" where "a - b = gf_of (gf_to a - gf_to b)"

definition times_gf7 :: "gf7 \<Rightarrow> gf7 \<Rightarrow> gf7" where "a * b = gf_of (gf_to a * gf_to b)"

definition inverse_gf7 :: "gf7 \<Rightarrow> gf7" where "inverse a = gf_of (gf_to a ^ 5)"

definition divide_gf7 :: "gf7 \<Rightarrow> gf7 \<Rightarrow> gf7" where "a div b = a * inverse (b :: gf7)"

lemmas gf7_defs = zero_gf7_def one_gf7_def plus_gf7_def uminus_gf7_def minus_gf7_def
  times_gf7_def inverse_gf7_def divide_gf7_def

instance
proof
  fix a b c :: gf7
  note inj = gf_to_inject [symmetric]
  show "a + b + c = a + (b + c)"
    by (simp add: inj gf7_defs mod_simps add.assoc)
  show "a + b = b + a"
    by (simp add: gf7_defs add.commute)
  show "0 + a = a"
    by (simp add: gf7_defs)
  show "- a + a = 0"
    by (cases a) (simp_all add: gf7_defs gf_of_def)
  show "a - b = a + - b"
    by (simp add: inj gf7_defs mod_simps)
  show "a * b * c = a * (b * c)"
    by (simp add: inj gf7_defs mod_simps mult.assoc)
  show "a * b = b * a"
    by (simp add: gf7_defs mult.commute)
  show "1 * a = a"
    by (simp add: gf7_defs)
  show "(a + b) * c = a * c + b * c"
    by (simp add: inj gf7_defs mod_simps distrib_right)
  show "(0 :: gf7) \<noteq> 1"
    by (simp add: gf7_defs)
  show "a \<noteq> 0 \<Longrightarrow> inverse a * a = 1"
    by (cases a) (simp_all add: gf7_defs gf_of_def)
  show "a div b = a * inverse b"
    by (simp add: gf7_defs)
  show "inverse (0 :: gf7) = 0"
    by (simp add: gf7_defs gf_of_def)
qed

end

lemma gf_of_add: "gf_of (x + y) = gf_of x + gf_of y"
  by (simp add: gf_to_inject [symmetric] plus_gf7_def mod_simps)

lemma gf_of_diff: "gf_of (x - y) = gf_of x - gf_of y"
  by (simp add: gf_to_inject [symmetric] minus_gf7_def mod_simps)

lemma gf_of_mult: "gf_of (x * y) = gf_of x * gf_of y"
  by (simp add: gf_to_inject [symmetric] times_gf7_def mod_simps)

lemma gf_of_zero_iff: "gf_of x = 0 \<longleftrightarrow> 7 dvd x"
  by (simp add: gf_to_inject [symmetric] zero_gf7_def dvd_eq_mod_eq_0)

section \<open>Shamir sharing over the field\<close>

fun poly_eval :: "gf7 list \<Rightarrow> gf7 \<Rightarrow> gf7" where
  "poly_eval [] x = 0"
| "poly_eval (c # cs) x = c + x * poly_eval cs x"

definition shamir_share :: "nat \<Rightarrow> nat \<Rightarrow> gf7 \<Rightarrow> int \<Rightarrow> gf7 list \<times> gf7 list" where
  "shamir_share t n u s =
     (let cs = u # map (\<lambda>k. gf_of (s + int k)) [0..<t]
      in (cs, map (\<lambda>i. poly_eval cs (gf_of (int i + 1))) [0..<n]))"

definition lagrange :: "nat \<Rightarrow> nat list \<Rightarrow> gf7" where
  "lagrange i S =
     foldr (\<lambda>j acc. if j = i then acc
        else acc * (gf_of (int j + 1) * inverse (gf_of (int j - int i)))) S 1"

section \<open>The instance\<close>

type_synonym curv7 = "(gf7, gf7, gf7, gf7 elgamal_witness, gf7 list) curv"

fun x_table :: "gf7 \<Rightarrow> int option" where
  "x_table Z0 = None"
| "x_table Z1 = Some 7" | "x_table Z6 = Some 7"
| "x_table Z2 = Some 8" | "x_table Z5 = Some 8"
| "x_table Z3 = Some 11" | "x_table Z4 = Some 11"

definition C7 :: curv7 where
  "C7 = \<lparr>generator = 1, smul = (\<lambda>P a. P * a), x_coor = x_table, compressed = gf_to,
     fe_from = gf_of, to_big_int = gf_to, fe_q = 7, invert = inverse,
     create_commitment = (\<lambda>m r. m + 1000 * r),
     hash_from_ge = (\<lambda>ps. foldl (\<lambda>h p. 7 * h + gf_to p) 1 ps),
     dlog_prove = (\<lambda>x s. x), dlog_verify = (\<lambda>p. True), dlog_pk = (\<lambda>p. p),
     elgamal_prove = (\<lambda>w st s. w),
     elgamal_verify = (\<lambda>w st. es_D st = es_H st * ew_x w + es_Y st * ew_r w \<and>
        es_E st = es_G st * ew_r w),
     vss_share = shamir_share, vss_validate = (\<lambda>v x i. x = poly_eval v (gf_of (int i))),
     vss_commitments = (\<lambda>v. v), vss_point = (\<lambda>v i. poly_eval v (gf_of (int i))),
     vss_map_share = (\<lambda>v i S. lagrange i S)\<rparr>"

definition P7 :: "(int, int, unit) paillier" where
  "P7 = \<lparr>keypair = (\<lambda>s. (1000, 1000)), ek_n = (\<lambda>ek. ek),
     p_encrypt = (\<lambda>ek m r. m + ek * r), p_decrypt = (\<lambda>dk c. c mod dk),
     p_add = (\<lambda>ek c d. c + d), p_mul = (\<lambda>ek c k. c * k),
     correct_key_prove = (\<lambda>dk. ()), correct_key_verify = (\<lambda>p ek. True)\<rparr>"

lemma C7_simps [simp]:
  "generator C7 = 1" "smul C7 P a = P * a" "x_coor C7 = x_table" "compressed C7 = gf_to"
  "fe_from C7 = gf_of" "to_big_int C7 = gf_to" "fe_q C7 = 7" "invert C7 = inverse"
  "create_commitment C7 m r = m + 1000 * r"
  "hash_from_ge C7 ps = foldl (\<lambda>h p. 7 * h + gf_to p) 1 ps"
  "dlog_prove C7 x s = x" "dlog_verify C7 p = True" "dlog_pk C7 p = p"
  "elgamal_prove C7 w st s = w"
  "elgamal_verify C7 w st \<longleftrightarrow> es_D st = es_H st * ew_x w + es_Y st * ew_r w \<and>
     es_E st = es_G st * ew_r w"
  "vss_share C7 = shamir_share" "vss_validate C7 v x i \<longleftrightarrow> x = poly_eval v (gf_of (int i))"
  "vss_commitments C7 v = v" "vss_point C7 v i = poly_eval v (gf_of (int i))"
  "vss_map_share C7 v i S = lagrange i S"
  by (simp_all add: C7_def)

lemma P7_simps [simp]:
  "keypair P7 s = (1000, 1000)" "ek_n P7 ek = ek" "p_encrypt P7 ek m r = m + ek * r"
  "p_decrypt P7 dk c = c mod dk" "p_add P7 ek c d = c + d" "p_mul P7 ek c k = c * k"
  "correct_key_verify P7 p ek = True"
  by (simp_all add: P7_def)

section \<open>The instance satisfies the laws\<close>

lemma curve_laws_C7: "curve_laws C7"
  by (simp add: curve_laws_def gf_of_add gf_of_mult gf_of_zero_iff gf_to_range algebra_simps)

lemma proof_laws_C7: "proof_laws C7"
  by (simp add: proof_laws_def)

lemma paillier_laws_P7: "paillier_laws P7"
proof -
  have "paillier_key_laws P7 1000 1000"
    unfolding paillier_key_laws_def
    by (intro conjI exI [of _ UNIV]) (simp_all add: mod_simps)
  then show ?thesis by (simp add: paillier_laws_def)
qed

lemma lagrange_pair:
  assumes "a < 6" "b < 6" "a \<noteq> b"
  shows "lagrange a [a, b] * (c0 + gf_of (int a + 1) * c1) +
    lagrange b [a, b] * (c0 + gf_of (int b + 1) * c1) = c0"
proof -
  define A B where "A = gf_of (int a + 1)" and "B = gf_of (int b + 1)"
  have diff: "gf_of (int b - int a) = B - A" "gf_of (int a - int b) = A - B"
    by (simp_all add: A_def B_def gf_of_diff gf_of_add)
  have "\<not> 7 dvd (int b - int a)" using assms by presburger
  then have "B - A \<noteq> 0" by (simp flip: diff add: gf_of_zero_iff)
  then have ne: "A \<noteq> B" "B \<noteq> A" by auto
  have "lagrange a [a, b] = B / (B - A)" "lagrange b [a, b] = A / (A - B)"
    using assms(3) by (simp_all add: lagrange_def diff divide_inverse flip: A_def B_def)
  moreover have "A / (A - B) = - (A / (B - A))"
    by (metis minus_diff_eq minus_divide_right)
  moreover have "B / D * (c0 + A * c1) + - (A / D) * (c0 + B * c1) = (B - A) / D * c0" for D
    by (simp add: divide_inverse algebra_simps)
  moreover have "(B - A) / (B - A) = 1"
    using \<open>B - A \<noteq> 0\<close> by simp
  ultimately show ?thesis using ne by (simp flip: A_def B_def)
qed

lemma vss_laws_C7: "n \<le> 6 \<Longrightarrow> vss_laws C7 1 n"
proof -
  assume n: "n \<le> 6"
  have rec: "(\<Sum>i\<leftarrow>S. lagrange i S * snd (shamir_share 1 n u s) ! i) = u"
    if S: "distinct S" "length S = Suc 1" "\<forall>i\<in>set S. i < n" for u s S
  proof -
    obtain a b where S_eq: "S = [a, b]"
      using S(2) by (auto simp: length_Suc_conv)
    show ?thesis
      using S n lagrange_pair [of a b u "gf_of s"]
      by (simp add: S_eq shamir_share_def Let_def)
  qed
  show ?thesis
    using rec by (simp add: vss_laws_def shamir_share_def Let_def algebra_simps)
qed

end
