(* ===== verification/Key_Gen_Correct.thy ===== *)
theory Key_Gen_Correct
  imports Key_Gen Small_Curve
begin

text \<open>
  Correctness of key generation (\<open>Key_Gen\<close>): the outcome of every check on every input, what
  an accepted share says whatever the dealers did, and the joint result when all parties follow
  the protocol: one public key for the group, whose secret \<open>t + 1\<close> key shares determine.
\<close>

section \<open>Phase 1\<close>

lemma all_lazy_decommit:
  assumes "length ds = n" "length bs = n"
  shows "all_lazy (\<lambda>i. do { d \<leftarrow> vec_get ds i; b \<leftarrow> vec_get bs i; Some (decommit_ok C P d b) })
      [0..<n] = Some (\<forall>i<n. decommit_ok C P (ds ! i) (bs ! i))"
  using assms by (intro all_lazy_range) simp

lemma honest_decommit_ok:
  assumes "paillier_key_laws P (k_ek k) (k_dk k)"
  shows "decommit_ok C P (snd (phase1_broadcast_phase3_proof_of_correct_key C P k r))
      (fst (phase1_broadcast_phase3_proof_of_correct_key C P k r))"
  using assms
  by (simp add: decommit_ok_def phase1_broadcast_phase3_proof_of_correct_key_def Let_def
      paillier_key_laws_def)

lemma keys_create_fields [simp]:
  "k_u_i (keys_create C P u s i) = u"
  "k_y_i (keys_create C P u s i) = smul C (generator C) u"
  "k_ek (keys_create C P u s i) = fst (keypair P s)"
  "k_dk (keys_create C P u s i) = snd (keypair P s)"
  "party_index (keys_create C P u s i) = i"
  by (simp_all add: keys_create_def Let_def split: prod.splits)

text \<open>The outcome on every input: a panic when one of the two message vectors does not have one entry per
  party, this party's fresh sharing when all checks pass, and \<open>InvalidKey\<close> otherwise.\<close>

lemma phase1_total:
  "phase1_verify_com_phase3_verify_correct_key_phase2_distribute C P k params ds bs seed =
     (if length ds = share_count params \<and> length bs = share_count params
      then if list_all2 (decommit_ok C P) ds bs
        then let (v, shares) = vss_share C (threshold params) (share_count params) (k_u_i k) seed
             in Some (Inr (v, shares, party_index k))
        else Some (Inl InvalidKey)
      else None)"
  unfolding phase1_verify_com_phase3_verify_correct_key_phase2_distribute_def
  by (auto simp: all_lazy_decommit list_all2_conv_all_nth split: prod.splits)

section \<open>Phase 2\<close>

lemma share_ok_True_iff:
  "share_ok C v x y i = Some True \<longleftrightarrow>
     vss_validate C v x i \<and> vss_commitments C v \<noteq> [] \<and> hd (vss_commitments C v) = y"
  by (cases "vss_commitments C v")
    (auto simp: share_ok_def and_lazy_def bind_eq_Some_conv vec_get_Some_iff)

lemma all_lazy_share_ok:
  assumes "length ys = n" "length xs = n" "length vs = n"
    and "\<forall>i<n. vss_commitments C (vs ! i) \<noteq> []"
  shows "all_lazy (\<lambda>i. do { v \<leftarrow> vec_get vs i; s \<leftarrow> vec_get xs i; y \<leftarrow> vec_get ys i;
             share_ok C v s y j }) [0..<n] =
     Some (\<forall>i<n. vss_validate C (vs ! i) (xs ! i) j \<and> hd (vss_commitments C (vs ! i)) = ys ! i)"
proof (rule all_lazy_range)
  fix i assume i: "i < n"
  then have "vss_commitments C (vs ! i) \<noteq> []" using assms(4) by simp
  then show "do { v \<leftarrow> vec_get vs i; s \<leftarrow> vec_get xs i; y \<leftarrow> vec_get ys i; share_ok C v s y j } =
      Some (vss_validate C (vs ! i) (xs ! i) j \<and> hd (vss_commitments C (vs ! i)) = ys ! i)"
    using i assms(1-3) by (cases "vss_commitments C (vs ! i)") (auto simp: share_ok_def and_lazy_def)
qed

lemma phase2_Inr:
  assumes "phase2_verify_vss_construct_keypair_phase3_pok_dlog C params ys xs vs j seed =
      Some (Inr (sk, pf))"
  shows "length ys = share_count params \<and> length xs = share_count params \<and>
    length vs = share_count params \<and> ys \<noteq> [] \<and>
    (\<forall>i < share_count params. share_ok C (vs ! i) (xs ! i) (ys ! i) j = Some True) \<and>
    sk = \<lparr>sh_y = sum_list ys, sh_x_i = sum_list xs\<rparr> \<and> pf = dlog_prove C (sum_list xs) seed"
  using assms
  by (auto simp: phase2_verify_vss_construct_keypair_phase3_pok_dlog_def Let_def head_plus_tail
      foldl_add_sum all_lazy_True_iff bind_eq_Some_conv vec_get_head split: if_splits)

lemma get_commitments_to_xi_eq:
  "get_commitments_to_xi C vs =
     Some (map (\<lambda>i. \<Sum>v\<leftarrow>vs. vss_point C v i) [1..<length vs + 1])"
  unfolding get_commitments_to_xi_def Let_def
proof (rule map_panic_total)
  fix i assume "i \<in> set [1..<length vs + 1]"
  then have "vs \<noteq> []" by auto
  then show "do { first \<leftarrow> vec_get (map (\<lambda>v. vss_point C v i) vs) 0;
      Some (foldl (\<lambda>acc x. acc + x) first (tl (map (\<lambda>v. vss_point C v i) vs))) } =
      Some (\<Sum>v\<leftarrow>vs. vss_point C v i)"
    by (cases vs) (simp_all add: foldl_add_sum)
qed

text \<open>What phase 2 has checked when it accepts.\<close>

lemma phase2_commits:
  assumes "curve_laws C" "vss_laws C (threshold params) (share_count params)"
    and "phase2_verify_vss_construct_keypair_phase3_pok_dlog C params ys xs vs j seed = Some (Inr (sk, pf))"
  shows "length vs = share_count params" "sh_y sk = sum_list ys"
    and "map (\<lambda>v. hd (vss_commitments C v)) vs = ys"
    and "smul C (generator C) (sh_x_i sk) = (\<Sum>v\<leftarrow>vs. vss_point C v j)"
proof -
  let ?n = "share_count params"
  note facts = phase2_Inr [OF assms(3)]
  show "length vs = ?n" "sh_y sk = sum_list ys" using facts by simp_all
  show "map (\<lambda>v. hd (vss_commitments C v)) vs = ys"
    using facts by (intro nth_equalityI) (simp_all add: share_ok_True_iff)
  have pt: "smul C (generator C) (xs ! i) = vss_point C (vs ! i) j" if "i < ?n" for i
    using that facts vss_validate_iff [OF assms(2)] by (metis share_ok_True_iff)
  have "smul C (generator C) (sum_list xs) = (\<Sum>x\<leftarrow>xs. smul C (generator C) x)"
    using smul_sum_list [OF assms(1), of _ "\<lambda>x. x"] by simp
  also have "map (smul C (generator C)) xs = map (\<lambda>v. vss_point C v j) vs"
    using pt facts by (intro nth_equalityI) simp_all
  finally show "smul C (generator C) (sh_x_i sk) = (\<Sum>v\<leftarrow>vs. vss_point C v j)"
    using facts by simp
qed

text \<open>C12: What acceptance means, whatever the other parties sent: if phase 2 accepts the shares a
  party received, then the group key it computes is the sum of the announced points, each dealer's
  first commitment is to that announced point, and the key share \<open>x_i\<close> is the discrete logarithm
  of the public commitment that \<open>get_commitments_to_xi\<close> lists for the party. A dealer cannot make
  a party accept a share that disagrees with the dealer's broadcast commitments.\<close>

theorem phase2_accepts_only_committed_shares:
  assumes "curve_laws C" "vss_laws C (threshold params) (share_count params)"
    and "phase2_verify_vss_construct_keypair_phase3_pok_dlog C params ys xs vs (Suc j) seed =
      Some (Inr (sk, pf))"
    and "j < share_count params" "get_commitments_to_xi C vs = Some xi_points"
  shows "sh_y sk = sum_list ys \<and> smul C (generator C) (sh_x_i sk) = xi_points ! j \<and>
    (\<forall>i < share_count params. hd (vss_commitments C (vs ! i)) = ys ! i)"
proof -
  note facts = phase2_commits [OF assms(1-3)]
  have "(\<Sum>v\<leftarrow>vs. vss_point C v (Suc j)) = xi_points ! j"
    using assms(4,5) facts(1) by (auto simp: get_commitments_to_xi_eq simp del: upt_Suc)
  moreover have "hd (vss_commitments C (vs ! i)) = ys ! i" if "i < share_count params" for i
    using that facts(1) by (simp flip: facts(3))
  ultimately show ?thesis using facts by simp
qed

theorem phase2_accepts_only_committed_shares_witness:
  "let params = \<lparr>threshold = 1, share_count = 2\<rparr>; vs = [[Z3, Z4], [Z5, Z1]] in
   phase2_verify_vss_construct_keypair_phase3_pok_dlog C7 params [Z3, Z5] [Z0, Z6] vs (Suc 0) 9 =
     Some (Inr (\<lparr>sh_y = Z1, sh_x_i = Z6\<rparr>, Z6)) \<and>
   sh_y \<lparr>sh_y = Z1, sh_x_i = Z6\<rparr> = sum_list [Z3, Z5] \<and>
   smul C7 (generator C7) Z6 = the (get_commitments_to_xi C7 vs) ! 0"
proof -
  let ?params = "\<lparr>threshold = 1, share_count = 2\<rparr>" and ?vs = "[[Z3, Z4], [Z5, Z1]]"
  let ?sk = "\<lparr>sh_y = Z1, sh_x_i = Z6\<rparr>"
  have run: "phase2_verify_vss_construct_keypair_phase3_pok_dlog C7 ?params [Z3, Z5] [Z0, Z6] ?vs
      (Suc 0) 9 = Some (Inr (?sk, Z6))"
    by (simp add: phase2_verify_vss_construct_keypair_phase3_pok_dlog_def share_ok_def Let_def
        upt_conv_Cons gf7_defs gf_of_def)
  have laws: "vss_laws C7 (threshold ?params) (share_count ?params)"
    using vss_laws_C7 [of 2] by simp
  have "get_commitments_to_xi C7 ?vs = Some (the (get_commitments_to_xi C7 ?vs))"
    by (simp add: get_commitments_to_xi_eq)
  from phase2_accepts_only_committed_shares [OF curve_laws_C7 laws run _ this] run
  show ?thesis by simp
qed

lemma phase2_total:
  assumes "length ys = share_count params" "length xs = share_count params"
    and "length vs = share_count params" "ys \<noteq> []"
    and "\<forall>i < share_count params. vss_commitments C (vs ! i) \<noteq> []"
  shows "phase2_verify_vss_construct_keypair_phase3_pok_dlog C params ys xs vs j seed =
    Some (if \<forall>i < share_count params. vss_validate C (vs ! i) (xs ! i) j \<and>
               hd (vss_commitments C (vs ! i)) = ys ! i
          then Inr (\<lparr>sh_y = sum_list ys, sh_x_i = sum_list xs\<rparr>, dlog_prove C (sum_list xs) seed)
          else Inl InvalidSS)"
  using assms(1-4) unfolding phase2_verify_vss_construct_keypair_phase3_pok_dlog_def
  by (auto simp: all_lazy_share_ok [OF _ _ _ assms(5)] Let_def foldl_add_sum head_plus_tail)

text \<open>A share that does not lie on its dealer's committed polynomial, or a dealer whose first
  commitment is not to the point it announced, is always caught: with well-formed inputs phase 2
  then returns \<open>InvalidSS\<close> and no key share.\<close>

theorem phase2_rejects_bad_share:
  assumes "vss_laws C t n" "length ys = n" "length xs = n" "length vs = n"
    and "\<forall>i<n. vss_commitments C (vs ! i) \<noteq> []" "i < n"
    and "smul C (generator C) (xs ! i) \<noteq> vss_point C (vs ! i) j \<or>
      hd (vss_commitments C (vs ! i)) \<noteq> ys ! i"
  shows "phase2_verify_vss_construct_keypair_phase3_pok_dlog C \<lparr>threshold = t, share_count = n\<rparr>
    ys xs vs j seed = Some (Inl InvalidSS)"
proof -
  have "ys \<noteq> []" using assms(2,6) by auto
  moreover have "\<not> (vss_validate C (vs ! i) (xs ! i) j \<and> hd (vss_commitments C (vs ! i)) = ys ! i)"
    using assms(5-7) vss_validate_iff [OF assms(1)] by blast
  ultimately show ?thesis
    using assms(2-6) by (subst phase2_total) auto
qed

theorem phase2_rejects_bad_share_witness:
  "phase2_verify_vss_construct_keypair_phase3_pok_dlog C7 \<lparr>threshold = 1, share_count = 2\<rparr>
    [Z3, Z5] [Z0, Z5] [[Z3, Z4], [Z5, Z1]] 1 9 = Some (Inl InvalidSS)"
  by (rule phase2_rejects_bad_share [where i = 1])
    (use vss_laws_C7 [of 2] in \<open>auto simp: less_2_cases_iff gf7_defs gf_of_def\<close>)

text \<open>C22: The first round of key generation binds the parties to one group key. When two parties
  have read the same commitments, and both accept whatever decommitments each of them was sent in
  phase 1 and whatever shares and sharings it was sent in phase 2, then every Paillier key comes
  with a valid proof and both have the same group key, although a dealer may have sent them
  different points; unless two openings of one commitment to different points are among the
  messages that they read, that is, someone has broken the commitment scheme.\<close>

theorem phase1_commitments_bind:
  assumes "phase1_verify_com_phase3_verify_correct_key_phase2_distribute C P k params ds bs seed = Some (Inr out)"
    and "phase1_verify_com_phase3_verify_correct_key_phase2_distribute C P k' params ds' bs seed' = Some (Inr out')"
    and "phase2_verify_vss_construct_keypair_phase3_pok_dlog C params (map de_y_i ds) xs vs j t =
      Some (Inr (sk, pf))"
    and "phase2_verify_vss_construct_keypair_phase3_pok_dlog C params (map de_y_i ds') xs' vs' j' t' =
      Some (Inr (sk', pf'))"
  shows "(\<forall>b\<in>set bs. correct_key_verify P (bc_correct_key_proof b) (bc_e b)) \<and>
    (map de_y_i ds' = map de_y_i ds \<and> sh_y sk' = sh_y sk \<or>
     (\<exists>i < share_count params. de_y_i (ds' ! i) \<noteq> de_y_i (ds ! i) \<and>
        create_commitment C (compressed C (de_y_i (ds' ! i))) (de_blind_factor (ds' ! i)) =
        create_commitment C (compressed C (de_y_i (ds ! i))) (de_blind_factor (ds ! i))))"
proof -
  have l: "length ds = share_count params" "length ds' = share_count params" "length bs = share_count params"
    and ok: "list_all2 (decommit_ok C P) ds bs" "list_all2 (decommit_ok C P) ds' bs"
    using assms(1,2) by (auto simp: phase1_total split: if_splits prod.splits)
  have open_i: "create_commitment C (compressed C (de_y_i (ds ! i))) (de_blind_factor (ds ! i)) = bc_com (bs ! i)"
    "create_commitment C (compressed C (de_y_i (ds' ! i))) (de_blind_factor (ds' ! i)) = bc_com (bs ! i)"
    if "i < share_count params" for i
    using ok that l by (auto simp: list_all2_conv_all_nth decommit_ok_def)
  have "\<forall>b\<in>set bs. correct_key_verify P (bc_correct_key_proof b) (bc_e b)"
    using ok(1) by (auto simp: list_all2_conv_all_nth decommit_ok_def in_set_conv_nth)
  moreover have "map de_y_i ds' = map de_y_i ds \<and> sh_y sk' = sh_y sk"
    if "\<forall>i < share_count params. de_y_i (ds' ! i) = de_y_i (ds ! i)"
  proof -
    have "map de_y_i ds' = map de_y_i ds" using that l by (intro nth_equalityI) auto
    then show ?thesis using phase2_Inr [OF assms(3)] phase2_Inr [OF assms(4)] by simp
  qed
  ultimately show ?thesis using open_i by (cases "\<forall>i < share_count params. de_y_i (ds' ! i) = de_y_i (ds ! i)") auto
qed

theorem phase1_commitments_bind_witness:
  "let params = \<lparr>threshold = 1, share_count = 2\<rparr>; vs = [[Z3, Z4], [Z5, Z1]];
     ks = map (\<lambda>i. keys_create C7 P7 ([Z3, Z5] ! i) 0 (Suc i)) [0, 1];
     bs = map (\<lambda>k. fst (phase1_broadcast_phase3_proof_of_correct_key C7 P7 k 6)) ks;
     ds = map (\<lambda>k. snd (phase1_broadcast_phase3_proof_of_correct_key C7 P7 k 6)) ks in
   (\<exists>out sk pf. phase1_verify_com_phase3_verify_correct_key_phase2_distribute C7 P7 (ks ! 0) params ds bs 4 =
       Some (Inr out) \<and>
     phase2_verify_vss_construct_keypair_phase3_pok_dlog C7 params (map de_y_i ds) [Z0, Z6] vs (Suc 0) 9 =
       Some (Inr (sk, pf)) \<and>
     (\<forall>b\<in>set bs. correct_key_verify P7 (bc_correct_key_proof b) (bc_e b)) \<and>
     (\<exists>out' sk' pf'. phase1_verify_com_phase3_verify_correct_key_phase2_distribute C7 P7 (ks ! 1) params ds bs 8 =
         Some (Inr out') \<and>
       phase2_verify_vss_construct_keypair_phase3_pok_dlog C7 params (map de_y_i ds) [Z4, Z0] vs (Suc (Suc 0)) 9 =
         Some (Inr (sk', pf')) \<and>
       sh_y sk' = sh_y sk))"
proof -
  let ?params = "\<lparr>threshold = 1, share_count = 2\<rparr>" and ?vs = "[[Z3, Z4], [Z5, Z1]]"
  let ?ks = "map (\<lambda>i. keys_create C7 P7 ([Z3, Z5] ! i) 0 (Suc i)) [0, 1]"
  let ?bs = "map (\<lambda>k. fst (phase1_broadcast_phase3_proof_of_correct_key C7 P7 k 6)) ?ks"
  let ?ds = "map (\<lambda>k. snd (phase1_broadcast_phase3_proof_of_correct_key C7 P7 k 6)) ?ks"
  have y: "map de_y_i ?ds = [Z3, Z5]"
    by (simp add: phase1_broadcast_phase3_proof_of_correct_key_def gf7_defs gf_of_def)
  have "list_all2 (decommit_ok C7 P7) ?ds ?bs"
    by (simp add: phase1_broadcast_phase3_proof_of_correct_key_def decommit_ok_def)
  then have p1: "\<exists>out. phase1_verify_com_phase3_verify_correct_key_phase2_distribute C7 P7 k ?params ?ds ?bs seed =
      Some (Inr out)" for k seed
    by (simp add: phase1_total split: prod.splits)
  obtain out where o: "phase1_verify_com_phase3_verify_correct_key_phase2_distribute C7 P7 (?ks ! 0) ?params ?ds ?bs 4 =
      Some (Inr out)" using p1 by blast
  obtain out' where o': "phase1_verify_com_phase3_verify_correct_key_phase2_distribute C7 P7 (?ks ! 1) ?params ?ds ?bs 8 =
      Some (Inr out')" using p1 by blast
  have r: "phase2_verify_vss_construct_keypair_phase3_pok_dlog C7 ?params (map de_y_i ?ds) [Z0, Z6] ?vs
      (Suc 0) 9 = Some (Inr (\<lparr>sh_y = Z1, sh_x_i = Z6\<rparr>, Z6))" unfolding y
    by (simp add: phase2_verify_vss_construct_keypair_phase3_pok_dlog_def share_ok_def Let_def
        upt_conv_Cons gf7_defs gf_of_def)
  have r': "phase2_verify_vss_construct_keypair_phase3_pok_dlog C7 ?params (map de_y_i ?ds) [Z4, Z0] ?vs
      (Suc (Suc 0)) 9 = Some (Inr (\<lparr>sh_y = Z1, sh_x_i = Z4\<rparr>, Z4))" unfolding y
    by (simp add: phase2_verify_vss_construct_keypair_phase3_pok_dlog_def share_ok_def Let_def
        upt_conv_Cons gf7_defs gf_of_def)
  from phase1_commitments_bind [OF o o' r r'] o o' r r' show ?thesis
    unfolding Let_def by blast
qed

section \<open>The joint run of honest parties\<close>

text \<open>What party \<open>j\<close> (from 1) receives when dealer \<open>i\<close> shares \<open>us ! i\<close>.\<close>

definition dealt ::
  "('fe::field, 'ge::ab_group_add, 'dlp, 'egp, 'vss) curv \<Rightarrow> nat \<Rightarrow> nat \<Rightarrow> 'fe list \<Rightarrow> int list \<Rightarrow>
   ('vss \<times> 'fe list) list" where
  "dealt C t n us seeds = map (\<lambda>i. vss_share C t n (us ! i) (seeds ! i)) [0..<length us]"

definition shares_for :: "('vss \<times> 'fe list) list \<Rightarrow> nat \<Rightarrow> 'fe list" where
  "shares_for ds j = map (\<lambda>d. snd d ! (j - 1)) ds"

lemma length_dealt [simp]: "length (dealt C t n us seeds) = length us"
  by (simp add: dealt_def)

lemma length_shares_for [simp]: "length (shares_for ds j) = length ds"
  by (simp add: shares_for_def)

lemma sum_weighted_swap:
  fixes l :: "'a \<Rightarrow> 'b::comm_semiring_0"
  shows "(\<Sum>j\<leftarrow>S. l j * (\<Sum>d\<leftarrow>ds. f d j)) = (\<Sum>d\<leftarrow>ds. \<Sum>j\<leftarrow>S. l j * f d j)"
proof (induction ds)
  case (Cons d ds)
  have "(\<Sum>j\<leftarrow>S. l j * (f d j + (\<Sum>d\<leftarrow>ds. f d j))) =
      (\<Sum>j\<leftarrow>S. l j * f d j) + (\<Sum>j\<leftarrow>S. l j * (\<Sum>d\<leftarrow>ds. f d j))"
    by (simp add: distrib_left sum_list_addf)
  then show ?case using Cons by simp
qed simp

lemma honest_key_shares_interpolate:
  assumes "vss_laws C t n" "length us = n" "length seeds = n"
    and "distinct S" "length S = Suc t" "\<forall>j\<in>set S. j < n"
  shows "(\<Sum>j\<leftarrow>S. vss_map_share C (fst (vss_share C t n u s)) j S *
      sum_list (shares_for (dealt C t n us seeds) (Suc j))) = sum_list us"
proof -
  let ?l = "\<lambda>j. vss_map_share C (fst (vss_share C t n u s)) j S"
  have "(\<Sum>j\<leftarrow>S. ?l j * sum_list (shares_for (dealt C t n us seeds) (Suc j))) =
      (\<Sum>d\<leftarrow>dealt C t n us seeds. \<Sum>j\<leftarrow>S. ?l j * snd d ! j)"
    by (simp add: shares_for_def sum_weighted_swap)
  also have "map (\<lambda>d. \<Sum>j\<leftarrow>S. ?l j * snd d ! j) (dealt C t n us seeds) = us"
  proof (rule nth_equalityI)
    fix i assume "i < length (map (\<lambda>d. \<Sum>j\<leftarrow>S. ?l j * snd d ! j) (dealt C t n us seeds))"
    then have "map (\<lambda>d. \<Sum>j\<leftarrow>S. ?l j * snd d ! j) (dealt C t n us seeds) ! i =
        (\<Sum>j\<leftarrow>S. ?l j * snd (vss_share C t n (us ! i) (seeds ! i)) ! j)"
      by (simp add: dealt_def)
    also have "\<dots> = (\<Sum>j\<leftarrow>S. vss_map_share C (fst (vss_share C t n (us ! i) (seeds ! i))) j S *
        snd (vss_share C t n (us ! i) (seeds ! i)) ! j)"
      by (intro arg_cong [where f = sum_list] map_cong refl arg_cong2 [where f = times])
        (rule vss_map_share_indep [OF assms(1)])
    also have "\<dots> = us ! i" by (rule vss_reconstruct [OF assms(1,4-6)])
    finally show "map (\<lambda>d. \<Sum>j\<leftarrow>S. ?l j * snd d ! j) (dealt C t n us seeds) ! i = us ! i" .
  qed simp
  finally show ?thesis .
qed

lemma honest_phase2:
  assumes "curve_laws C" "vss_laws C t n" "length us = n" "0 < n" "j < n"
  shows "phase2_verify_vss_construct_keypair_phase3_pok_dlog C \<lparr>threshold = t, share_count = n\<rparr>
      (map (smul C (generator C)) us) (shares_for (dealt C t n us seeds) (Suc j))
      (map fst (dealt C t n us seeds)) (Suc j) seed =
    Some (Inr (\<lparr>sh_y = smul C (generator C) (sum_list us),
      sh_x_i = sum_list (shares_for (dealt C t n us seeds) (Suc j))\<rparr>,
      dlog_prove C (sum_list (shares_for (dealt C t n us seeds) (Suc j))) seed))"
proof -
  have com: "vss_commitments C (fst (dealt C t n us seeds ! i)) \<noteq> [] \<and>
      hd (vss_commitments C (fst (dealt C t n us seeds ! i))) = smul C (generator C) (us ! i)"
    if "i < n" for i
    using vss_share_commitments [OF assms(2), of "us ! i" "seeds ! i"] that assms(3)
    by (auto simp: dealt_def)
  have "vss_validate C (fst (dealt C t n us seeds ! i))
      (shares_for (dealt C t n us seeds) (Suc j) ! i) (Suc j)" if "i < n" for i
    using vss_share_validates [OF assms(2,5), of "us ! i" "seeds ! i"] that assms(3)
    by (simp add: dealt_def shares_for_def)
  moreover have "(\<Sum>u\<leftarrow>us. smul C (generator C) u) = smul C (generator C) (sum_list us)"
    using smul_sum_list [OF assms(1), of _ "\<lambda>x. x" us] by simp
  ultimately show ?thesis
    using com assms(3,4) by (subst phase2_total) auto
qed

text \<open>C10: Key generation with honest dealers is correct: every party's phase 2 succeeds, all parties
  obtain the same public key \<open>G * (u_1 + \<dots> + u_n)\<close>, and for any \<open>t + 1\<close> distinct parties the key
  shares they obtained, weighted by \<open>map_share_to_new_params\<close>, add up to its secret key, which no
  party ever holds.\<close>

theorem honest_keygen_agrees:
  assumes "curve_laws C" "vss_laws C t n" "length us = n" "length seeds = n" "0 < n"
  shows "\<exists>sks. length sks = n \<and>
    (\<forall>j<n. \<exists>pf. phase2_verify_vss_construct_keypair_phase3_pok_dlog C
         \<lparr>threshold = t, share_count = n\<rparr> (map (smul C (generator C)) us)
         (shares_for (dealt C t n us seeds) (Suc j)) (map fst (dealt C t n us seeds)) (Suc j) seed =
         Some (Inr (sks ! j, pf)) \<and>
       sh_y (sks ! j) = smul C (generator C) (sum_list us)) \<and>
    (\<forall>S. distinct S \<and> length S = Suc t \<and> (\<forall>j\<in>set S. j < n) \<longrightarrow>
       (\<Sum>j\<leftarrow>S. vss_map_share C (fst (dealt C t n us seeds ! j)) j S * sh_x_i (sks ! j)) =
         sum_list us)"
proof -
  let ?sk = "\<lambda>j. \<lparr>sh_y = smul C (generator C) (sum_list us),
    sh_x_i = sum_list (shares_for (dealt C t n us seeds) (Suc j))\<rparr>"
  have "(\<Sum>j\<leftarrow>S. vss_map_share C (fst (dealt C t n us seeds ! j)) j S * sh_x_i (map ?sk [0..<n] ! j))
      = sum_list us" if S: "distinct S" "length S = Suc t" "\<forall>j\<in>set S. j < n" for S
  proof -
    have "vss_map_share C (fst (dealt C t n us seeds ! j)) j S * sh_x_i (map ?sk [0..<n] ! j) =
        vss_map_share C (fst (vss_share C t n 0 0)) j S *
          sum_list (shares_for (dealt C t n us seeds) (Suc j))" if "j \<in> set S" for j
      using S(3) that assms(3) vss_map_share_indep [OF assms(2)] by (simp add: dealt_def)
    then have "map (\<lambda>j. vss_map_share C (fst (dealt C t n us seeds ! j)) j S *
          sh_x_i (map ?sk [0..<n] ! j)) S =
        map (\<lambda>j. vss_map_share C (fst (vss_share C t n 0 0)) j S *
          sum_list (shares_for (dealt C t n us seeds) (Suc j))) S"
      by simp
    from arg_cong [OF this, of sum_list] show ?thesis
      using honest_key_shares_interpolate [OF assms(2-4) S] by (rule trans)
  qed
  then show ?thesis
    using assms by (intro exI [of _ "map ?sk [0..<n]"]) (auto simp: honest_phase2)
qed

theorem honest_keygen_agrees_witness:
  "\<exists>sks. length sks = 2 \<and>
    (\<forall>j<2. \<exists>pf. phase2_verify_vss_construct_keypair_phase3_pok_dlog C7
         \<lparr>threshold = 1, share_count = 2\<rparr> (map (smul C7 (generator C7)) [Z3, Z5])
         (shares_for (dealt C7 1 2 [Z3, Z5] [4, 8]) (Suc j))
         (map fst (dealt C7 1 2 [Z3, Z5] [4, 8])) (Suc j) 9 = Some (Inr (sks ! j, pf)) \<and>
       sh_y (sks ! j) = smul C7 (generator C7) (sum_list [Z3, Z5])) \<and>
    (\<forall>S. distinct S \<and> length S = Suc 1 \<and> (\<forall>j\<in>set S. j < 2) \<longrightarrow>
       (\<Sum>j\<leftarrow>S. vss_map_share C7 (fst (dealt C7 1 2 [Z3, Z5] [4, 8] ! j)) j S * sh_x_i (sks ! j)) =
         sum_list [Z3, Z5])"
  by (rule honest_keygen_agrees [OF curve_laws_C7 vss_laws_C7]) simp_all

section \<open>Discrete-log proofs and refresh\<close>

text \<open>C23: The last check of key generation, \<open>verify_dlog_proofs\<close>, does not tie the proofs to the
  parties: any vector of the right length of proofs of knowledge, of scalars that have nothing to
  do with the announced points or with anyone's key share, is accepted.\<close>

theorem dlog_check_accepts_unrelated_proofs:
  assumes "proof_laws C" "length ys = n" "length zs = n"
  shows "verify_dlog_proofs C \<lparr>threshold = t, share_count = n\<rparr>
    (map (\<lambda>(z, s). dlog_prove C z s) zs) ys = Some (Inr ())"
proof -
  have "all_lazy (\<lambda>i. do { p \<leftarrow> vec_get (map (\<lambda>(z, s). dlog_prove C z s) zs) i;
      Some (dlog_verify C p) }) [0..<n] = Some (\<forall>i<n. True)"
    using assms by (intro all_lazy_range) (simp add: dlog_complete split: prod.splits)
  then show ?thesis using assms by (simp add: verify_dlog_proofs_def)
qed

theorem dlog_check_accepts_unrelated_proofs_witness:
  "verify_dlog_proofs C7 \<lparr>threshold = 1, share_count = 2\<rparr>
    (map (\<lambda>(z, s). dlog_prove C7 z s) [(Z6, 1), (Z6, 2)]) [Z3, Z5] = Some (Inr ())"
  by (rule dlog_check_accepts_unrelated_proofs [OF proof_laws_C7]) simp_all

text \<open>C24: Refreshing keys with factors that add up to zero keeps the group key: the sum of the new
  public points is the sum of the old ones, and each new key is well formed (its point is the
  generator times its scalar).\<close>

theorem refresh_keeps_group_key:
  assumes "curve_laws C" "length fs = length ps" "sum_list fs = 0"
  shows "let ks = map (\<lambda>i. refresh_private_key C P (ps ! i) (fs ! i) (seeds i) (Suc i))
           [0..<length ps]
    in (\<Sum>k\<leftarrow>ks. k_y_i k) = (\<Sum>p\<leftarrow>ps. private_y_i C p) \<and>
       (\<forall>k\<in>set ks. k_y_i k = smul C (generator C) (k_u_i k))"
proof -
  let ?g = "smul C (generator C)"
  let ?ks = "map (\<lambda>i. refresh_private_key C P (ps ! i) (fs ! i) (seeds i) (Suc i)) [0..<length ps]"
  have "map k_y_i ?ks = map (\<lambda>i. private_y_i C (ps ! i) + ?g (fs ! i)) [0..<length ps]"
    by (simp add: refresh_private_key_def private_y_i_def Let_def smul_add [OF assms(1)]
        split: prod.splits)
  then have "(\<Sum>k\<leftarrow>?ks. k_y_i k) =
      (\<Sum>i\<leftarrow>[0..<length ps]. private_y_i C (ps ! i)) + (\<Sum>i\<leftarrow>[0..<length ps]. ?g (fs ! i))"
    by (metis (no_types) sum_list_addf)
  also have "map (\<lambda>i. private_y_i C (ps ! i)) [0..<length ps] = map (private_y_i C) ps"
    by (rule nth_equalityI) simp_all
  also have "map (\<lambda>i. ?g (fs ! i)) [0..<length ps] = map ?g fs"
    using assms(2) by (intro nth_equalityI) simp_all
  also have "(\<Sum>f\<leftarrow>fs. ?g f) = 0"
    using smul_sum_list [OF assms(1), of "generator C" "\<lambda>x. x" fs] assms(3)
    by (simp add: smul_zero [OF assms(1)])
  finally show ?thesis
    by (auto simp: refresh_private_key_def Let_def split: prod.splits)
qed

theorem refresh_keeps_group_key_witness:
  "let ps = [\<lparr>pp_u_i = Z3, pp_x_i = Z1, pp_dk = (1000::int)\<rparr>, \<lparr>pp_u_i = Z5, pp_x_i = Z2, pp_dk = 1000\<rparr>];
       ks = map (\<lambda>i. refresh_private_key C7 P7 (ps ! i) ([Z2, Z5] ! i) 0 (Suc i)) [0..<length ps]
   in (\<Sum>k\<leftarrow>ks. k_y_i k) = (\<Sum>p\<leftarrow>ps. private_y_i C7 p) \<and>
      (\<forall>k\<in>set ks. k_y_i k = smul C7 (generator C7) (k_u_i k))"
proof -
  let ?ps = "[\<lparr>pp_u_i = Z3, pp_x_i = Z1, pp_dk = (1000::int)\<rparr>, \<lparr>pp_u_i = Z5, pp_x_i = Z2, pp_dk = 1000\<rparr>]"
  have "length [Z2, Z5] = length ?ps" "sum_list [Z2, Z5] = 0"
    by (simp_all add: gf7_defs gf_of_def)
  from refresh_keeps_group_key [OF curve_laws_C7 this, of P7 "\<lambda>_. 0"]
  show ?thesis unfolding Let_def .
qed

end
