(* ===== verification/Keygen_Run_Correct.thy ===== *)
theory Keygen_Run_Correct
  imports Rounds Key_Gen_Correct
begin

text \<open>
  The whole session of \<open>generate_key.rs\<close> is correct: on every board on which it can play its part and
  the messages of honest peers arrive (\<open>session_board\<close>), it ends and returns a key file with the group
  key and a share of its secret. And what its third round does not protect.
\<close>

section \<open>Honest parties\<close>

text \<open>\<open>R i\<close> are the random draws of party \<open>i\<close>.\<close>

definition honest_keys ::
  "('fe::field, 'ge::ab_group_add, 'dlp, 'egp, 'vss) curv \<Rightarrow> ('ek, 'dk, 'ckp) paillier \<Rightarrow>
   (u32 \<Rightarrow> 'fe keygen_rnd) \<Rightarrow> u32 \<Rightarrow> ('fe, 'ge, 'ek, 'dk) keys" where
  "honest_keys C P R i = keys_create C P (kr_u (R i)) (kr_kp (R i)) (unat i)"

definition honest_phase1 ::
  "('fe::field, 'ge::ab_group_add, 'dlp, 'egp, 'vss) curv \<Rightarrow> ('ek, 'dk, 'ckp) paillier \<Rightarrow>
   (u32 \<Rightarrow> 'fe keygen_rnd) \<Rightarrow> u32 \<Rightarrow> ('ek, 'ckp) keygen_broadcast1 \<times> 'ge keygen_decommit1" where
  "honest_phase1 C P R i =
     phase1_broadcast_phase3_proof_of_correct_key C P (honest_keys C P R i) (kr_blind (R i))"

definition honest_deal ::
  "('fe::field, 'ge::ab_group_add, 'dlp, 'egp, 'vss) curv \<Rightarrow> u32 \<Rightarrow> u32 \<Rightarrow>
   (u32 \<Rightarrow> 'fe keygen_rnd) \<Rightarrow> u32 \<Rightarrow> 'vss \<times> 'fe list" where
  "honest_deal C thr n R i = vss_share C (unat thr) (unat n) (kr_u (R i)) (kr_vss (R i))"

definition honest_point ::
  "('fe::field, 'ge::ab_group_add, 'dlp, 'egp, 'vss) curv \<Rightarrow> (u32 \<Rightarrow> 'fe keygen_rnd) \<Rightarrow> u32 \<Rightarrow> 'ge" where
  "honest_point C R i = smul C (generator C) (kr_u (R i))"

text \<open>The share dealt by \<open>i\<close> to \<open>j\<close>, and the key share of \<open>j\<close>.\<close>

definition honest_share ::
  "('fe::field, 'ge::ab_group_add, 'dlp, 'egp, 'vss) curv \<Rightarrow> u32 \<Rightarrow> u32 \<Rightarrow>
   (u32 \<Rightarrow> 'fe keygen_rnd) \<Rightarrow> u32 \<Rightarrow> u32 \<Rightarrow> 'fe" where
  "honest_share C thr n R i j = snd (honest_deal C thr n R i) ! (unat j - 1)"

definition honest_x_i ::
  "('fe::field, 'ge::ab_group_add, 'dlp, 'egp, 'vss) curv \<Rightarrow> u32 \<Rightarrow> u32 \<Rightarrow>
   (u32 \<Rightarrow> 'fe keygen_rnd) \<Rightarrow> u32 \<Rightarrow> 'fe" where
  "honest_x_i C thr n R j = (\<Sum>i\<leftarrow>u32_range n. honest_share C thr n R i j)"

definition honest_pack ::
  "('fe::field, 'ge::ab_group_add, 'dlp, 'egp, 'vss) curv \<Rightarrow> gcm_lib \<Rightarrow> u32 \<Rightarrow> u32 \<Rightarrow>
   (u32 \<Rightarrow> 'fe keygen_rnd) \<Rightarrow> u32 \<Rightarrow> u32 \<Rightarrow> aead" where
  "honest_pack C G thr n R i j =
     the (seal_share C G (the (enc_key C (honest_point C R i) (honest_point C R j)))
       (honest_share C thr n R i j))"

definition honest_proof ::
  "('fe::field, 'ge::ab_group_add, 'dlp, 'egp, 'vss) curv \<Rightarrow> u32 \<Rightarrow> u32 \<Rightarrow>
   (u32 \<Rightarrow> 'fe keygen_rnd) \<Rightarrow> u32 \<Rightarrow> 'dlp" where
  "honest_proof C thr n R i = dlog_prove C (honest_x_i C thr n R i) (kr_dlog (R i))"

text \<open>The messages of the five rounds.\<close>

definition keygen_script ::
  "('fe::field, 'ge::ab_group_add, 'dlp, 'egp, 'vss) curv \<Rightarrow> ('ek, 'dk, 'ckp) paillier \<Rightarrow> gcm_lib \<Rightarrow>
   ('ge, 'ek, 'ckp, 'vss, 'dlp) keygen_json \<Rightarrow> u32 \<Rightarrow> u32 \<Rightarrow> (u32 \<Rightarrow> 'fe keygen_rnd) \<Rightarrow> script" where
  "keygen_script C P G J thr n R =
     [(''round1'', Cast (\<lambda>i. enc_bc J (fst (honest_phase1 C P R i)))),
      (''round2'', Cast (\<lambda>i. enc_de J (snd (honest_phase1 C P R i)))),
      (''round3'', Direct (\<lambda>i j. enc_aead J (honest_pack C G thr n R i j))),
      (''round4'', Cast (\<lambda>i. enc_vss J (fst (honest_deal C thr n R i)))),
      (''round5'', Cast (\<lambda>i. enc_dlog J (honest_proof C thr n R i)))]"

section \<open>What the libraries promise\<close>

definition keygen_json_laws :: "('ge, 'ek, 'ckp, 'vss, 'dlp) keygen_json \<Rightarrow> bool" where
  "keygen_json_laws J \<longleftrightarrow>
     (\<forall>x. dec_bc J (enc_bc J x) = Some x \<and> utf8_valid (enc_bc J x)) \<and>
     (\<forall>x. dec_de J (enc_de J x) = Some x \<and> utf8_valid (enc_de J x)) \<and>
     (\<forall>x. dec_aead J (enc_aead J x) = Some x \<and> utf8_valid (enc_aead J x)) \<and>
     (\<forall>x. dec_vss J (enc_vss J x) = Some x \<and> utf8_valid (enc_vss J x)) \<and>
     (\<forall>x. dec_dlog J (enc_dlog J x) = Some x \<and> utf8_valid (enc_dlog J x))"

text \<open>Decryption inverts encryption under a supported key; the bytes of a number determine it.\<close>

definition gcm_key_ok :: "gcm_lib \<Rightarrow> string \<Rightarrow> bool" where
  "gcm_key_ok G key \<longleftrightarrow>
     (\<forall>m. \<exists>c. gcm_encrypt G key round_nonce m = Some c \<and> gcm_decrypt G key round_nonce c = Some (Some m))"

definition bytes_laws :: "gcm_lib \<Rightarrow> bool" where
  "bytes_laws G \<longleftrightarrow> (\<forall>x\<ge>0. from_vec G (to_vec G x) = x)"

text \<open>Both parties of a pair derive a key that the cipher supports.\<close>

definition pair_ok ::
  "('fe::field, 'ge::ab_group_add, 'dlp, 'egp, 'vss) curv \<Rightarrow> gcm_lib \<Rightarrow> 'ge \<Rightarrow> 'ge \<Rightarrow> bool" where
  "pair_ok C G y y' \<longleftrightarrow>
     (case enc_key C y y' of None \<Rightarrow> False | Some x \<Rightarrow> gcm_key_ok G (to_vec G x))"

lemma json_lawsD:
  assumes "keygen_json_laws J"
  shows "dec_bc J (enc_bc J a) = Some a" "utf8_valid (enc_bc J a)"
    "dec_de J (enc_de J b) = Some b" "utf8_valid (enc_de J b)"
    "dec_aead J (enc_aead J c) = Some c" "utf8_valid (enc_aead J c)"
    "dec_vss J (enc_vss J d) = Some d" "utf8_valid (enc_vss J d)"
    "dec_dlog J (enc_dlog J e) = Some e" "utf8_valid (enc_dlog J e)"
  using assms by (simp_all add: keygen_json_laws_def)

lemma seal_open:
  assumes "curve_laws C" "bytes_laws G" "gcm_key_ok G (to_vec G x)"
  obtains c where "seal_share C G x share = Some c" "open_share C G x c = Some share"
proof -
  obtain c where c: "gcm_encrypt G (to_vec G x) round_nonce (to_vec G (to_big_int C share)) = Some c"
    "gcm_decrypt G (to_vec G x) round_nonce c = Some (Some (to_vec G (to_big_int C share)))"
    using assms(3) unfolding gcm_key_ok_def by blast
  have "from_vec G (to_vec G (to_big_int C share)) = to_big_int C share"
    using assms(2) to_big_int_nonneg [OF assms(1)] by (simp add: bytes_laws_def)
  then have "open_share C G x c = Some share"
    using c by (simp add: open_share_def fe_from_to [OF assms(1)])
  with c show thesis by (intro that) (simp_all add: seal_share_def)
qed

section \<open>The loops\<close>

lemma round2_loop_reads:
  assumes "\<forall>i\<in>set is. i \<noteq> me \<longrightarrow> parse (enc i) = Some (d i) \<and>
      enc_key C (de_y_i (d me)) (de_y_i (d i)) = Some (x i)"
  shows "round2_loop C parse me (de_y_i (d me)) (d me)
      (pre @ map enc (filter (\<lambda>i. i \<noteq> me) is)) (length pre) is =
    Some (map (\<lambda>i. de_y_i (d i)) is, map d is, map x (filter (\<lambda>i. i \<noteq> me) is))"
  using assms
proof (induction "is" arbitrary: pre)
  case (Cons i "is")
  show ?case
  proof (cases "i = me")
    case True
    then show ?thesis using Cons.IH [of pre] Cons.prems by simp
  next
    case False
    have "round2_loop C parse me (de_y_i (d me)) (d me)
        ((pre @ [enc i]) @ map enc (filter (\<lambda>i. i \<noteq> me) is)) (length (pre @ [enc i])) is =
      Some (map (\<lambda>i. de_y_i (d i)) is, map d is, map x (filter (\<lambda>i. i \<noteq> me) is))"
      using Cons.prems by (intro Cons.IH) simp
    then show ?thesis using False Cons.prems by (simp add: nth_append)
  qed
qed simp

lemma read_shares_reads:
  assumes "\<forall>i\<in>set is. i \<noteq> me \<longrightarrow> parse (enc i) = Some (c i) \<and> open_share C G (x i) (c i) = Some (sh i)"
    and "vec_get secret_shares (unat (me - 1)) = Some (sh me)" "length prek = length pre"
  shows "read_shares C G parse me (prek @ map x (filter (\<lambda>i. i \<noteq> me) is)) secret_shares
      (pre @ map enc (filter (\<lambda>i. i \<noteq> me) is)) (length pre) is = Some (map sh is)"
  using assms(1,3)
proof (induction "is" arbitrary: pre prek)
  case (Cons i "is")
  show ?case
  proof (cases "i = me")
    case True
    then show ?thesis using Cons.IH [of prek pre] Cons.prems assms(2) by simp
  next
    case False
    have "read_shares C G parse me ((prek @ [x i]) @ map x (filter (\<lambda>i. i \<noteq> me) is)) secret_shares
        ((pre @ [enc i]) @ map enc (filter (\<lambda>i. i \<noteq> me) is)) (length (pre @ [enc i])) is =
      Some (map sh is)"
      using Cons.prems by (intro Cons.IH) simp_all
    then show ?thesis using False Cons.prems by (simp add: nth_append)
  qed
qed simp

context session_board
begin

lemma runs_send_shares:
  assumes "\<forall>i\<in>set is. i \<noteq> me \<longrightarrow> seal_share C G (x i) (sh i) = Some (pack i) \<and>
      writable (party_key me ''round3'' uuid (u32_to_string i)) (enc (pack i))"
  shows "runs quits (knows (board_of kvs))
    (send_shares C G enc net me uuid (prek @ map x (filter (\<lambda>i. i \<noteq> me) is)) (pres @ map sh is)
      (length prek) (length pres) is) ()
    (knows (board_of (kvs @ sent_to me ''round3'' uuid (\<lambda>i. enc (pack i)) (filter (\<lambda>i. i \<noteq> me) is))))"
  using assms
proof (induction "is" arbitrary: kvs prek pres)
  case Nil
  show ?case by (simp add: runs_ret sent_to_def)
next
  case (Cons i "is")
  show ?case
  proof (cases "i = me")
    case True
    then show ?thesis
      using Cons.IH [of kvs prek "pres @ [sh i]"] Cons.prems by simp
  next
    case False
    let ?kvs = "kvs @ [(party_key me ''round3'' uuid (u32_to_string i), enc (pack i))]"
    from Cons.prems False have here: "seal_share C G (x i) (sh i) = Some (pack i)"
      "writable (party_key me ''round3'' uuid (u32_to_string i)) (enc (pack i))" by auto
    have "runs quits (knows (board_of kvs)) (assert_ok (sendp2p net me i ''round3'' (enc (pack i)) uuid)) ()
        (knows (board_of ?kvs))"
      using runs_sendp2p [OF here(2)] by simp
    moreover have "runs quits (knows (board_of ?kvs))
      (send_shares C G enc net me uuid ((prek @ [x i]) @ map x (filter (\<lambda>i. i \<noteq> me) is))
        ((pres @ [sh i]) @ map sh is) (length (prek @ [x i])) (length (pres @ [sh i])) is) ()
      (knows (board_of (?kvs @ sent_to me ''round3'' uuid (\<lambda>i. enc (pack i)) (filter (\<lambda>i. i \<noteq> me) is))))"
      using Cons.prems by (intro Cons.IH) simp
    ultimately show ?thesis
      using False here(1) by (auto simp: sent_to_Cons nth_append intro!: runs_bind runs_try)
  qed
qed

end

section \<open>The local steps with honest peers\<close>

lemma honest_keys_fields [simp]:
  "k_u_i (honest_keys C P R i) = kr_u (R i)"
  "k_y_i (honest_keys C P R i) = honest_point C R i"
  "k_ek (honest_keys C P R i) = fst (keypair P (kr_kp (R i)))"
  "k_dk (honest_keys C P R i) = snd (keypair P (kr_kp (R i)))"
  "party_index (honest_keys C P R i) = unat i"
  by (simp_all add: honest_keys_def honest_point_def)

lemma honest_phase1_fields [simp]:
  "de_y_i (snd (honest_phase1 C P R i)) = honest_point C R i"
  "bc_e (fst (honest_phase1 C P R i)) = fst (keypair P (kr_kp (R i)))"
  by (simp_all add: honest_phase1_def phase1_broadcast_phase3_proof_of_correct_key_def Let_def)

lemma honest_phase1_check:
  assumes "paillier_laws P" "length (u32_range n) = unat n"
  shows "phase1_verify_com_phase3_verify_correct_key_phase2_distribute C P (honest_keys C P R me)
      \<lparr>threshold = unat thr, share_count = unat n\<rparr>
      (map (\<lambda>i. snd (honest_phase1 C P R i)) (u32_range n))
      (map (\<lambda>i. fst (honest_phase1 C P R i)) (u32_range n)) (kr_vss (R me)) =
    Some (Inr (fst (honest_deal C thr n R me), snd (honest_deal C thr n R me), unat me))"
proof -
  have ok: "decommit_ok C P (snd (honest_phase1 C P R i)) (fst (honest_phase1 C P R i))" for i
    unfolding honest_phase1_def
    using assms(1) by (intro honest_decommit_ok) (simp add: paillier_laws_def)
  then show ?thesis
    using assms(2)
    by (simp add: phase1_verify_com_phase3_verify_correct_key_phase2_distribute_def
        all_lazy_decommit honest_deal_def split: prod.splits)
qed

lemma honest_point_fun: "honest_point C R = (\<lambda>i. smul C (generator C) (kr_u (R i)))"
  by (simp add: fun_eq_iff honest_point_def)

lemma y_sum_of_eq: "ys \<noteq> [] \<Longrightarrow> y_sum_of ys = Some (sum_list ys)"
  by (cases ys) (simp_all add: y_sum_of_def foldl_add_sum)

lemma honest_dealt:
  "dealt C (unat thr) (unat n) (map (\<lambda>i. kr_u (R i)) (u32_range n)) (map (\<lambda>i. kr_vss (R i)) (u32_range n)) =
   map (honest_deal C thr n R) (u32_range n)"
  by (rule nth_equalityI) (simp_all add: dealt_def honest_deal_def)

lemma honest_phase2_check:
  assumes "curve_laws C" "vss_laws C (unat thr) (unat n)" "length (u32_range n) = unat n"
    and "1 \<le> me" "me \<le> n"
  shows "phase2_verify_vss_construct_keypair_phase3_pok_dlog C
      \<lparr>threshold = unat thr, share_count = unat n\<rparr> (map (honest_point C R) (u32_range n))
      (map (\<lambda>i. honest_share C thr n R i me) (u32_range n))
      (map (\<lambda>i. fst (honest_deal C thr n R i)) (u32_range n)) (unat me) seed =
    Some (Inr (\<lparr>sh_y = smul C (generator C) (\<Sum>i\<leftarrow>u32_range n. kr_u (R i)),
      sh_x_i = honest_x_i C thr n R me\<rparr>, dlog_prove C (honest_x_i C thr n R me) seed))"
proof -
  let ?us = "map (\<lambda>i. kr_u (R i)) (u32_range n)" and ?ss = "map (\<lambda>i. kr_vss (R i)) (u32_range n)"
  have me: "unat me - 1 < unat n" "Suc (unat me - 1) = unat me"
    using assms(4,5) by (auto simp: word_le_nat_alt)
  then have pos: "0 < unat n" by simp
  have shares: "shares_for (dealt C (unat thr) (unat n) ?us ?ss) (unat me) =
      map (\<lambda>i. honest_share C thr n R i me) (u32_range n)"
    by (simp add: honest_dealt shares_for_def honest_share_def comp_def)
  have points: "map (smul C (generator C)) ?us = map (honest_point C R) (u32_range n)"
    by (simp add: honest_point_def comp_def)
  have schemes: "map fst (dealt C (unat thr) (unat n) ?us ?ss) =
      map (\<lambda>i. fst (honest_deal C thr n R i)) (u32_range n)"
    by (simp add: honest_dealt comp_def)
  have len: "length ?us = unat n" using assms(3) by simp
  show ?thesis
    using honest_phase2 [OF assms(1,2) len pos me(1), of ?ss seed]
    unfolding me(2) shares points schemes honest_x_i_def .
qed

lemma honest_dlog_check:
  assumes "proof_laws C" "length (u32_range n) = unat n"
  shows "verify_dlog_proofs C \<lparr>threshold = t, share_count = unat n\<rparr>
    (map (\<lambda>i. dlog_prove C (x i) (s i)) (u32_range n)) (map y (u32_range n)) = Some (Inr ())"
proof -
  have "all_lazy (\<lambda>i. do { p \<leftarrow> vec_get (map (\<lambda>i. dlog_prove C (x i) (s i)) (u32_range n)) i;
      Some (dlog_verify C p) }) [0..<unat n] = Some (\<forall>i<unat n. True)"
    using assms by (intro all_lazy_range) (simp add: dlog_complete)
  then show ?thesis using assms(2) by (simp add: verify_dlog_proofs_def)
qed

text \<open>The key file of an honest run.\<close>

definition honest_key_file ::
  "('fe::field, 'ge::ab_group_add, 'dlp, 'egp, 'vss) curv \<Rightarrow> ('ek, 'dk, 'ckp) paillier \<Rightarrow>
   u32 \<Rightarrow> u32 \<Rightarrow> (u32 \<Rightarrow> 'fe keygen_rnd) \<Rightarrow> u32 \<Rightarrow> ('fe, 'ge, 'ek, 'dk, 'vss) key_file" where
  "honest_key_file C P thr n R me =
     (let y = smul C (generator C) (\<Sum>i\<leftarrow>u32_range n. kr_u (R i)) in
      \<lparr>kf_keys = honest_keys C P R me,
       kf_shared = \<lparr>sh_y = y, sh_x_i = honest_x_i C thr n R me\<rparr>,
       kf_party = me,
       kf_vss = map (\<lambda>i. fst (honest_deal C thr n R i)) (u32_range n),
       kf_paillier = map (\<lambda>i. fst (keypair P (kr_kp (R i)))) (u32_range n),
       kf_y_sum = y\<rparr>)"

text \<open>The symmetric key of a pair, which both derive.\<close>

definition pair_key ::
  "('fe::field, 'ge::ab_group_add, 'dlp, 'egp, 'vss) curv \<Rightarrow> (u32 \<Rightarrow> 'fe keygen_rnd) \<Rightarrow> u32 \<Rightarrow> u32 \<Rightarrow> int" where
  "pair_key C R i j = the (enc_key C (honest_point C R i) (honest_point C R j))"

lemma pair_key_sym: "pair_key C R i j = pair_key C R j i"
  by (simp add: pair_key_def enc_key_def add.commute)

lemma pair_ok_sym: "pair_ok C G y y' = pair_ok C G y' y"
  by (simp add: pair_ok_def enc_key_def add.commute)

lemma pair_okD:
  assumes "curve_laws C" "bytes_laws G" "pair_ok C G (honest_point C R i) (honest_point C R j)"
  shows "enc_key C (honest_point C R i) (honest_point C R j) = Some (pair_key C R i j)"
    and "seal_share C G (pair_key C R i j) (honest_share C thr n R i j) = Some (honest_pack C G thr n R i j)"
    and "open_share C G (pair_key C R i j) (honest_pack C G thr n R i j) = Some (honest_share C thr n R i j)"
proof -
  show key: "enc_key C (honest_point C R i) (honest_point C R j) = Some (pair_key C R i j)"
    using assms(3) by (auto simp: pair_ok_def pair_key_def split: option.splits)
  then have "gcm_key_ok G (to_vec G (pair_key C R i j))" using assms(3) by (simp add: pair_ok_def)
  from seal_open [OF assms(1,2) this, of "honest_share C thr n R i j"] obtain c where
    c: "seal_share C G (pair_key C R i j) (honest_share C thr n R i j) = Some c"
    "open_share C G (pair_key C R i j) c = Some (honest_share C thr n R i j)" by blast
  then have "honest_pack C G thr n R i j = c" by (simp add: honest_pack_def pair_key_def)
  with c show "seal_share C G (pair_key C R i j) (honest_share C thr n R i j) = Some (honest_pack C G thr n R i j)"
    "open_share C G (pair_key C R i j) (honest_pack C G thr n R i j) = Some (honest_share C thr n R i j)"
    by simp_all
qed

lemma honest_shares:
  assumes "vss_laws C (unat thr) (unat n)" "n < - 1"
  shows "snd (honest_deal C thr n R i) = map (honest_share C thr n R i) (u32_range n)"
proof (rule nth_equalityI)
  have len: "length (snd (honest_deal C thr n R i)) = unat n"
    using vss_share_length [OF assms(1)] by (simp add: honest_deal_def)
  with assms(2) show "length (snd (honest_deal C thr n R i)) = length (map (honest_share C thr n R i) (u32_range n))"
    by (simp add: length_u32_range unat_plus_one)
  fix l assume "l < length (snd (honest_deal C thr n R i))"
  with len u32_range_nth [OF assms(2)]
  show "snd (honest_deal C thr n R i) ! l = map (honest_share C thr n R i) (u32_range n) ! l"
    by (simp add: honest_share_def length_u32_range unat_plus_one [OF assms(2)])
qed

lemma honest_round2:
  assumes "keygen_json_laws J" "curve_laws C" "bytes_laws G"
    and "\<forall>i\<in>set (others me n). pair_ok C G (honest_point C R me) (honest_point C R i)"
  shows "round2_loop C (dec_de J) me (honest_point C R me) (snd (honest_phase1 C P R me))
      (map (\<lambda>i. enc_de J (snd (honest_phase1 C P R i))) (others me n)) 0 (u32_range n) =
    Some (map (honest_point C R) (u32_range n), map (\<lambda>i. snd (honest_phase1 C P R i)) (u32_range n),
      map (pair_key C R me) (others me n))"
  using round2_loop_reads [of "u32_range n" me "dec_de J" "\<lambda>i. enc_de J (snd (honest_phase1 C P R i))"
      "\<lambda>i. snd (honest_phase1 C P R i)" C "pair_key C R me" "[]"]
    pair_okD(1) [OF assms(2,3)] assms(1,4)
  by (simp add: others_def json_lawsD)

lemma honest_round3:
  assumes "keygen_json_laws J" "curve_laws C" "bytes_laws G" "vss_laws C (unat thr) (unat n)" "n < - 1"
    and "me \<in> set (u32_range n)"
    and "\<forall>i\<in>set (others me n). pair_ok C G (honest_point C R me) (honest_point C R i)"
  shows "read_shares C G (dec_aead J) me (map (pair_key C R me) (others me n))
      (snd (honest_deal C thr n R me))
      (map (\<lambda>i. enc_aead J (honest_pack C G thr n R i me)) (others me n)) 0 (u32_range n) =
    Some (map (\<lambda>i. honest_share C thr n R i me) (u32_range n))"
proof -
  have "\<forall>i\<in>set (u32_range n). i \<noteq> me \<longrightarrow>
      dec_aead J (enc_aead J (honest_pack C G thr n R i me)) = Some (honest_pack C G thr n R i me) \<and>
      open_share C G (pair_key C R me i) (honest_pack C G thr n R i me) = Some (honest_share C thr n R i me)"
  proof (intro ballI impI)
    fix i assume "i \<in> set (u32_range n)" "i \<noteq> me"
    then have "pair_ok C G (honest_point C R i) (honest_point C R me)"
      using assms(7) by (simp add: pair_ok_sym)
    from pair_okD(3) [OF assms(2,3) this] assms(1)
    show "dec_aead J (enc_aead J (honest_pack C G thr n R i me)) = Some (honest_pack C G thr n R i me) \<and>
      open_share C G (pair_key C R me i) (honest_pack C G thr n R i me) = Some (honest_share C thr n R i me)"
      by (simp add: json_lawsD pair_key_sym [of C R me])
  qed
  moreover have "vec_get (snd (honest_deal C thr n R me)) (unat (me - 1)) = Some (honest_share C thr n R me me)"
    using u32_range_index [OF assms(5,6)] honest_shares [OF assms(4,5), of R me]
    by (simp add: vec_get_def length_u32_range unat_plus_one [OF assms(5)])
  ultimately show ?thesis
    using read_shares_reads [of "u32_range n" me "dec_aead J"
        "\<lambda>i. enc_aead J (honest_pack C G thr n R i me)" "\<lambda>i. honest_pack C G thr n R i me" C G
        "pair_key C R me" "\<lambda>i. honest_share C thr n R i me" "snd (honest_deal C thr n R me)" "[]" "[]"]
    by (simp add: others_def)
qed

lemma honest_y_sum:
  assumes "curve_laws C" "u32_range n \<noteq> []"
  shows "y_sum_of (map (honest_point C R) (u32_range n)) =
    Some (smul C (generator C) (\<Sum>i\<leftarrow>u32_range n. kr_u (R i)))"
  using assms(2) smul_sum_list [OF assms(1), of "generator C" "\<lambda>i. kr_u (R i)" "u32_range n"]
  by (simp add: y_sum_of_eq honest_point_fun)

lemma paillier_keys_read:
  assumes "length is = n"
  shows "map_panic (\<lambda>i. map_option bc_e (vec_get (map f is) i)) [0..<n] = Some (map (\<lambda>i. bc_e (f i)) is)"
proof -
  have "map_panic (\<lambda>i. map_option bc_e (vec_get (map f is) i)) [0..<n] = Some (map (\<lambda>k. bc_e (f (is ! k))) [0..<n])"
    using assms by (intro map_panic_total) simp
  also have "map (\<lambda>k. bc_e (f (is ! k))) [0..<n] = map (\<lambda>i. bc_e (f i)) is"
    using assms by (intro nth_equalityI) simp_all
  finally show ?thesis .
qed

lemma keygen_script_nth [simp]:
  "length (keygen_script C P G J thr n R) = 5"
  "keygen_script C P G J thr n R ! 0 = (''round1'', Cast (\<lambda>i. enc_bc J (fst (honest_phase1 C P R i))))"
  "keygen_script C P G J thr n R ! 1 = (''round2'', Cast (\<lambda>i. enc_de J (snd (honest_phase1 C P R i))))"
  "keygen_script C P G J thr n R ! 2 = (''round3'', Direct (\<lambda>i j. enc_aead J (honest_pack C G thr n R i j)))"
  "keygen_script C P G J thr n R ! 3 = (''round4'', Cast (\<lambda>i. enc_vss J (fst (honest_deal C thr n R i))))"
  "keygen_script C P G J thr n R ! 4 = (''round5'', Cast (\<lambda>i. enc_dlog J (honest_proof C thr n R i)))"
  by (simp_all add: keygen_script_def)

lemma keygen_script_ok: "keygen_json_laws J \<Longrightarrow> script_ok (keygen_script C P G J thr n R)"
  by (simp add: script_ok_def keygen_script_def json_lawsD)

context session_board
begin

lemma honest_sends:
  assumes "plays n uuid (keygen_script C P G J thr n R) me" "curve_laws C" "bytes_laws G"
    and "vss_laws C (unat thr) (unat n)" "n < - 1"
    and "\<forall>i\<in>set (others me n). pair_ok C G (honest_point C R me) (honest_point C R i)"
  shows "runs quits (after n uuid (keygen_script C P G J thr n R) me 2)
    (send_shares C G (enc_aead J) net me uuid (map (pair_key C R me) (others me n))
      (snd (honest_deal C thr n R me)) 0 0 (u32_range n)) ()
    (after n uuid (keygen_script C P G J thr n R) me 3)"
proof -
  let ?s = "keygen_script C P G J thr n R" and ?pack = "\<lambda>i. honest_pack C G thr n R me i"
  have entry: "(party_key me ''round3'' uuid (u32_to_string i), enc_aead J (?pack i)) \<in>
      set (written n uuid ?s me (length ?s))" if "i \<in> set (u32_range n)" "i \<noteq> me" for i
    using written_sends [of 2 "length ?s" ?s "party_key me ''round3'' uuid (u32_to_string i)"
        "enc_aead J (?pack i)" n uuid me] that by auto
  have "\<forall>i\<in>set (u32_range n). i \<noteq> me \<longrightarrow>
      seal_share C G (pair_key C R me i) (honest_share C thr n R me i) = Some (?pack i) \<and>
      writable (party_key me ''round3'' uuid (u32_to_string i)) (enc_aead J (?pack i))"
  proof (intro ballI impI)
    fix i assume i: "i \<in> set (u32_range n)" "i \<noteq> me"
    then have "pair_ok C G (honest_point C R me) (honest_point C R i)" using assms(6) by simp
    from pair_okD(2) [OF assms(2,3) this]
    show "seal_share C G (pair_key C R me i) (honest_share C thr n R me i) = Some (?pack i) \<and>
      writable (party_key me ''round3'' uuid (u32_to_string i)) (enc_aead J (?pack i))"
      using assms(1) entry [OF i] unfolding plays_def by auto
  qed
  from runs_send_shares [OF this, of "written n uuid ?s me 2" "[]" "[]"]
  have "runs quits (knows (board_of (written n uuid ?s me 2)))
    (send_shares C G (enc_aead J) net me uuid (map (pair_key C R me) (others me n))
      (map (honest_share C thr n R me) (u32_range n)) 0 0 (u32_range n)) ()
    (knows (board_of (written n uuid ?s me 2 @
      sent_to me ''round3'' uuid (\<lambda>i. enc_aead J (?pack i)) (others me n))))"
    by (simp add: others_def)
  moreover have "written n uuid ?s me 3 =
      written n uuid ?s me 2 @ sent_to me ''round3'' uuid (\<lambda>i. enc_aead J (?pack i)) (others me n)"
    using written_Suc [of 2 ?s n uuid me] by (simp add: sent_to_def)
  ultimately show ?thesis by (simp add: after_def honest_shares [OF assms(4,5)])
qed

text \<open>Rounds 1 to 3.\<close>

lemma honest_deal_runs:
  fixes C :: "('fe::field, 'ge::ab_group_add, 'dlp, 'egp, 'vss) curv"
    and P :: "('ek, 'dk, 'ckp) paillier" and R :: "u32 \<Rightarrow> 'fe keygen_rnd"
  assumes laws: "curve_laws C" "vss_laws C (unat thr) (unat n)" "paillier_laws P"
      "bytes_laws G" "keygen_json_laws J"
    and n: "n < - 1" "me \<in> set (u32_range n)"
    and pairs: "\<forall>i\<in>set (others me n). pair_ok C G (honest_point C R me) (honest_point C R i)"
    and plays: "plays n uuid (keygen_script C P G J thr n R) me"
  shows "runs quits (after n uuid (keygen_script C P G J thr n R) me 0)
    (keygen_deal C P G J net n \<lparr>threshold = unat thr, share_count = unat n\<rparr> me uuid (R me) (honest_keys C P R me))
    (map (\<lambda>i. fst (honest_phase1 C P R i)) (u32_range n), map (honest_point C R) (u32_range n),
      smul C (generator C) (\<Sum>i\<leftarrow>u32_range n. kr_u (R i)), fst (honest_deal C thr n R me),
      map (\<lambda>i. honest_share C thr n R i me) (u32_range n))
    (after n uuid (keygen_script C P G J thr n R) me 3)"
proof -
  let ?r = "u32_range n" and ?bc = "\<lambda>i. fst (honest_phase1 C P R i)"
  have len: "length ?r = unat n" using n(1) by (intro length_u32_range unat_plus_one)
  have ne: "?r \<noteq> []" using n(2) by auto
  note casts = runs_broadcast_round [OF plays, unfolded keygen_script_nth(1)]
  note poll = runs_poll_round [OF plays, unfolded keygen_script_nth(1)]
  have writes:
    "runs quits (after n uuid (keygen_script C P G J thr n R) me 0)
       (assert_ok (broadcast net me ''round1'' (enc_bc J (?bc me)) uuid)) ()
       (after n uuid (keygen_script C P G J thr n R) me 1)"
    "runs quits (after n uuid (keygen_script C P G J thr n R) me 1)
       (assert_ok (broadcast net me ''round2'' (enc_de J (snd (honest_phase1 C P R me))) uuid)) ()
       (after n uuid (keygen_script C P G J thr n R) me 2)"
    using casts [OF _ keygen_script_nth(2)] casts [OF _ keygen_script_nth(3)]
    by (simp_all add: eval_nat_numeral)
  have polls:
    "runs quits (after n uuid (keygen_script C P G J thr n R) me 1)
       (poll_for_broadcasts net me n ''round1'' uuid) (map (\<lambda>i. enc_bc J (?bc i)) (others me n))
       (after n uuid (keygen_script C P G J thr n R) me 1)"
    "runs quits (after n uuid (keygen_script C P G J thr n R) me 2)
       (poll_for_broadcasts net me n ''round2'' uuid)
       (map (\<lambda>i. enc_de J (snd (honest_phase1 C P R i))) (others me n))
       (after n uuid (keygen_script C P G J thr n R) me 2)"
    "runs quits (after n uuid (keygen_script C P G J thr n R) me 3)
       (poll_for_p2p net me n ''round3'' uuid)
       (map (\<lambda>i. enc_aead J (honest_pack C G thr n R i me)) (others me n))
       (after n uuid (keygen_script C P G J thr n R) me 3)"
    using poll(1) [OF _ keygen_script_nth(2)] poll(1) [OF _ keygen_script_nth(3)]
      poll(2) [OF _ keygen_script_nth(4)]
    by (simp_all add: eval_nat_numeral)
  have read: "read_round (dec_bc J) me (?bc me) n (map (\<lambda>i. enc_bc J (?bc i)) (others me n)) = Some (map ?bc ?r)"
    by (rule read_round_reads) (simp add: json_lawsD [OF laws(5)])
  have phase1: "Option.bind (phase1_verify_com_phase3_verify_correct_key_phase2_distribute C P
      (honest_keys C P R me) \<lparr>threshold = unat thr, share_count = unat n\<rparr>
      (map (\<lambda>i. snd (honest_phase1 C P R i)) ?r) (map ?bc ?r)
      (kr_vss (R me))) expect = Some (fst (honest_deal C thr n R me), snd (honest_deal C thr n R me), unat me)"
    by (simp add: honest_phase1_check [OF laws(3) len, of C R me thr])
  show ?thesis
    unfolding keygen_deal_def Let_def honest_phase1_def [symmetric] honest_keys_fields
    apply (subst case_prod_beta)
    apply (rule runs_bind, rule writes(1), rule runs_bind, rule polls(1))
    apply (rule runs_bind, rule runs_try, rule read)
    apply (rule runs_bind, rule writes(2), rule runs_bind, rule polls(2))
    apply (rule runs_bind3, rule runs_try, rule honest_round2 [OF laws(5,1,4) pairs])
    apply (rule runs_bind, rule runs_try, rule honest_y_sum [OF laws(1) ne])
    apply (rule runs_bind3, rule runs_try, rule phase1)
    apply (rule runs_bind, rule honest_sends [OF plays laws(1,4,2) n(1) pairs], rule runs_bind, rule polls(3))
    apply (rule runs_bind, rule runs_try, rule honest_round3 [OF laws(5,1,4,2) n pairs])
    apply (rule runs_ret)
    done
qed

text \<open>Rounds 4 and 5.\<close>

lemma honest_confirm_runs:
  fixes C :: "('fe::field, 'ge::ab_group_add, 'dlp, 'egp, 'vss) curv"
    and P :: "('ek, 'dk, 'ckp) paillier" and R :: "u32 \<Rightarrow> 'fe keygen_rnd"
  assumes laws: "curve_laws C" "proof_laws C" "vss_laws C (unat thr) (unat n)" "keygen_json_laws J"
    and n: "n < - 1" "me \<in> set (u32_range n)"
    and plays: "plays n uuid (keygen_script C P G J thr n R) me"
  shows "runs quits (after n uuid (keygen_script C P G J thr n R) me 3)
    (keygen_confirm C J net n \<lparr>threshold = unat thr, share_count = unat n\<rparr> me uuid (R me)
      (map (\<lambda>i. fst (honest_phase1 C P R i)) (u32_range n)) (map (honest_point C R) (u32_range n))
      (fst (honest_deal C thr n R me)) (map (\<lambda>i. honest_share C thr n R i me) (u32_range n)))
    (kf_shared (honest_key_file C P thr n R me), map (\<lambda>i. fst (honest_deal C thr n R i)) (u32_range n),
      map (\<lambda>i. bc_e (fst (honest_phase1 C P R i))) (u32_range n))
    (after n uuid (keygen_script C P G J thr n R) me 5)"
proof -
  let ?r = "u32_range n" and ?vss = "\<lambda>i. fst (honest_deal C thr n R i)" and ?pf = "honest_proof C thr n R"
  have len: "length ?r = unat n" using n(1) by (intro length_u32_range unat_plus_one)
  have me: "1 \<le> me" "me \<le> n" using n set_u32_range by blast+
  note casts = runs_broadcast_round [OF plays, unfolded keygen_script_nth(1)]
  note poll = runs_poll_round [OF plays, unfolded keygen_script_nth(1)]
  have writes:
    "runs quits (after n uuid (keygen_script C P G J thr n R) me 3)
       (assert_ok (broadcast net me ''round4'' (enc_vss J (?vss me)) uuid)) ()
       (after n uuid (keygen_script C P G J thr n R) me 4)"
    "runs quits (after n uuid (keygen_script C P G J thr n R) me 4)
       (assert_ok (broadcast net me ''round5'' (enc_dlog J (?pf me)) uuid)) ()
       (after n uuid (keygen_script C P G J thr n R) me 5)"
    using casts [OF _ keygen_script_nth(5)] casts [OF _ keygen_script_nth(6)]
    by (simp_all add: eval_nat_numeral)
  have polls:
    "runs quits (after n uuid (keygen_script C P G J thr n R) me 4)
       (poll_for_broadcasts net me n ''round4'' uuid) (map (\<lambda>i. enc_vss J (?vss i)) (others me n))
       (after n uuid (keygen_script C P G J thr n R) me 4)"
    "runs quits (after n uuid (keygen_script C P G J thr n R) me 5)
       (poll_for_broadcasts net me n ''round5'' uuid) (map (\<lambda>i. enc_dlog J (?pf i)) (others me n))
       (after n uuid (keygen_script C P G J thr n R) me 5)"
    using poll(1) [OF _ keygen_script_nth(5)] poll(1) [OF _ keygen_script_nth(6)]
    by (simp_all add: eval_nat_numeral)
  have reads:
    "read_round (dec_vss J) me (?vss me) n (map (\<lambda>i. enc_vss J (?vss i)) (others me n)) = Some (map ?vss ?r)"
    "read_round (dec_dlog J) me (?pf me) n (map (\<lambda>i. enc_dlog J (?pf i)) (others me n)) = Some (map ?pf ?r)"
    by (rule read_round_reads, simp add: json_lawsD [OF laws(4)])+
  have phase2: "Option.bind (phase2_verify_vss_construct_keypair_phase3_pok_dlog C
      \<lparr>threshold = unat thr, share_count = unat n\<rparr> (map (honest_point C R) ?r)
      (map (\<lambda>i. honest_share C thr n R i me) ?r) (map ?vss ?r) (unat me) (kr_dlog (R me))) expect =
    Some (kf_shared (honest_key_file C P thr n R me), ?pf me)"
    by (simp add: honest_phase2_check [OF laws(1,3) len me] honest_key_file_def honest_proof_def Let_def)
  have dlogs: "Option.bind (verify_dlog_proofs C \<lparr>threshold = unat thr, share_count = unat n\<rparr>
      (map ?pf ?r) (map (honest_point C R) ?r)) expect = Some ()"
  proof -
    have "?pf = (\<lambda>i. dlog_prove C (honest_x_i C thr n R i) (kr_dlog (R i)))"
      by (simp add: fun_eq_iff honest_proof_def)
    then show ?thesis using honest_dlog_check [OF laws(2) len] by simp
  qed
  show ?thesis
    unfolding keygen_confirm_def
    apply (rule runs_bind, rule writes(1), rule runs_bind, rule polls(1))
    apply (rule runs_bind, rule runs_try, rule reads(1))
    apply (rule runs_bind2, rule runs_try, rule phase2)
    apply (rule runs_bind, rule writes(2), rule runs_bind, rule polls(2))
    apply (rule runs_bind, rule runs_try, rule reads(2))
    apply (rule runs_bind, rule runs_try, rule dlogs)
    apply (rule runs_bind, rule runs_try, rule paillier_keys_read [OF len])
    apply (rule runs_ret)
    done
qed

lemma honest_session_runs:
  fixes C :: "('fe::field, 'ge::ab_group_add, 'dlp, 'egp, 'vss) curv"
    and P :: "('ek, 'dk, 'ckp) paillier" and R :: "u32 \<Rightarrow> 'fe keygen_rnd"
  assumes laws: "curve_laws C" "proof_laws C" "vss_laws C (unat thr) (unat n)" "paillier_laws P"
      "bytes_laws G" "keygen_json_laws J"
    and n: "n < - 1" "me \<in> set (u32_range n)"
    and pairs: "\<forall>i\<in>set (others me n). pair_ok C G (honest_point C R me) (honest_point C R i)"
    and plays: "plays n uuid (keygen_script C P G J thr n R) me"
  shows "runs quits (after n uuid (keygen_script C P G J thr n R) me 0)
    (keygen_session C P G J net n thr me uuid (R me)) (honest_key_file C P thr n R me)
    (after n uuid (keygen_script C P G J thr n R) me 5)"
proof -
  have outcome: "\<lparr>kf_keys = honest_keys C P R me, kf_shared = kf_shared (honest_key_file C P thr n R me),
      kf_party = me, kf_vss = map (\<lambda>i. fst (honest_deal C thr n R i)) (u32_range n),
      kf_paillier = map (\<lambda>i. bc_e (fst (honest_phase1 C P R i))) (u32_range n),
      kf_y_sum = smul C (generator C) (\<Sum>i\<leftarrow>u32_range n. kr_u (R i))\<rparr> = honest_key_file C P thr n R me"
    by (simp add: honest_key_file_def Let_def)
  show ?thesis
    unfolding keygen_session_def Let_def honest_keys_def [symmetric] case_prod_beta
    apply (rule runs_bind, rule honest_deal_runs [OF laws(1,3-6) n pairs plays], unfold fst_conv snd_conv)
    apply (rule runs_bind, rule honest_confirm_runs [OF laws(1-3,6) n plays], unfold fst_conv snd_conv)
    apply (unfold outcome, rule runs_ret)
    done
qed

end

section \<open>What an observer of the board learns\<close>

text \<open>C13: The shares are not confidential. The key of round 3 is computed from the two points that
  everybody reads on the board in round 2, so an observer without any secret opens the packs of a
  dealer; \<open>t + 1\<close> of them, combined with the public coefficients, are the dealer's secret. Doing so
  for every dealer gives the secret of the group key.\<close>

theorem observer_recovers_dealer_secret:
  assumes "curve_laws C" "bytes_laws G" "vss_laws C (unat thr) (unat n)"
    and "distinct S" "length S = Suc (unat thr)" "\<forall>j\<in>set S. 1 \<le> j \<and> j \<le> n \<and> j \<noteq> i"
    and "\<forall>j\<in>set S. pair_ok C G (honest_point C R i) (honest_point C R j)"
  shows "(\<Sum>j\<leftarrow>S. vss_map_share C (fst (honest_deal C thr n R i)) (unat j - 1) (map (\<lambda>j. unat j - 1) S) *
      the (open_share C G
        (the (enc_key C (de_y_i (snd (honest_phase1 C P R i))) (de_y_i (snd (honest_phase1 C P R j)))))
        (honest_pack C G thr n R i j))) = kr_u (R i)"
proof -
  let ?S = "map (\<lambda>j. unat j - 1) S"
  have "inj_on (\<lambda>j. unat j - 1) (set S)"
  proof (rule inj_onI)
    fix j k assume "j \<in> set S" "k \<in> set S" "unat j - 1 = unat k - 1"
    moreover from this have "1 \<le> unat j" "1 \<le> unat k" using assms(6) by (auto simp: word_le_nat_alt)
    ultimately have "unat j = unat k" by linarith
    then show "j = k" by (simp add: word_unat_eq_iff)
  qed
  then have "distinct ?S" using assms(4) by (simp add: distinct_map)
  moreover have "length ?S = Suc (unat thr)" using assms(5) by simp
  moreover have "\<forall>k\<in>set ?S. k < unat n"
    using assms(6) by (fastforce simp: word_le_nat_alt)
  ultimately have "(\<Sum>k\<leftarrow>?S. vss_map_share C (fst (honest_deal C thr n R i)) k ?S *
      snd (honest_deal C thr n R i) ! k) = kr_u (R i)"
    unfolding honest_deal_def by (rule vss_reconstruct [OF assms(3)])
  moreover have eq: "map (\<lambda>j. vss_map_share C (fst (honest_deal C thr n R i)) (unat j - 1) ?S *
      the (open_share C G
        (the (enc_key C (de_y_i (snd (honest_phase1 C P R i))) (de_y_i (snd (honest_phase1 C P R j)))))
        (honest_pack C G thr n R i j))) S =
    map (\<lambda>k. vss_map_share C (fst (honest_deal C thr n R i)) k ?S * snd (honest_deal C thr n R i) ! k) ?S"
    using assms(7) pair_okD(3) [OF assms(1,2), of R i _ thr n]
    by (auto simp: honest_share_def pair_key_def)
  ultimately show ?thesis by (simp only: eq)
qed

end
