(* ===== verification/Mta.thy ===== *)
theory Mta
  imports Key_Gen Small_Curve
begin

text \<open>
  The multiplicative-to-additive exchange of \<open>src/vDexNode/mpt/src/utils/sign_utils.rs\<close>: party
  A holds \<open>a\<close>, party B holds \<open>b\<close>, and they end with \<open>alpha\<close> and \<open>beta\<close> such that
  \<open>alpha + beta = a * b\<close>. The sampled \<open>beta_tag\<close> and the seeds of the encryptions and proofs
  are arguments.
\<close>

section \<open>The messages\<close>

record message_a =
  ma_c :: int

record 'dlp message_b =
  mb_c :: int
  b_proof :: 'dlp
  beta_tag_proof :: 'dlp

definition message_a ::
  "('fe::field, 'ge::ab_group_add, 'dlp, 'egp, 'vss) curv \<Rightarrow> ('ek, 'dk, 'ckp) paillier \<Rightarrow>
   'fe \<Rightarrow> 'ek \<Rightarrow> int \<Rightarrow> message_a" where
  "message_a C P a alice_ek r =
     (let c_a = p_encrypt P alice_ek (to_big_int C a) r in \<lparr>ma_c = c_a\<rparr>)"

text \<open>The random draws of \<open>MessageB::b\<close>: \<open>beta_tag\<close> (below the modulus), the encryption seed and
  the seeds of the two proofs.\<close>

record mb_seeds =
  mb_beta_tag :: int
  mb_enc_seed :: int
  mb_b_seed :: int
  mb_beta_seed :: int

definition message_b ::
  "('fe::field, 'ge::ab_group_add, 'dlp, 'egp, 'vss) curv \<Rightarrow> ('ek, 'dk, 'ckp) paillier \<Rightarrow>
   'fe \<Rightarrow> 'ek \<Rightarrow> message_a \<Rightarrow> mb_seeds \<Rightarrow> 'dlp message_b \<times> 'fe" where
  "message_b C P b alice_ek c_a seeds =
     (let beta_tag = mb_beta_tag seeds;
          beta_tag_fe = fe_from C beta_tag;
          c_beta_tag = p_encrypt P alice_ek beta_tag (mb_enc_seed seeds);
          b_bn = to_big_int C b;
          b_c_a = p_mul P alice_ek (ma_c c_a) b_bn;
          c_b = p_add P alice_ek b_c_a c_beta_tag;
          beta = 0 - beta_tag_fe;
          dlog_proof_b = dlog_prove C b (mb_b_seed seeds);
          dlog_proof_beta_tag = dlog_prove C beta_tag_fe (mb_beta_seed seeds)
      in (\<lparr>mb_c = c_b, b_proof = dlog_proof_b, beta_tag_proof = dlog_proof_beta_tag\<rparr>, beta))"

definition verify_proofs_get_alpha ::
  "('fe::field, 'ge::ab_group_add, 'dlp, 'egp, 'vss) curv \<Rightarrow> ('ek, 'dk, 'ckp) paillier \<Rightarrow>
   'dlp message_b \<Rightarrow> 'dk \<Rightarrow> 'fe \<Rightarrow> error + 'fe" where
  "verify_proofs_get_alpha C P m dk a =
     (let alice_share = p_decrypt P dk (mb_c m);
          alpha = fe_from C alice_share;
          g_alpha = smul C (generator C) alpha;
          ba_btag = smul C (dlog_pk C (b_proof m)) a + dlog_pk C (beta_tag_proof m)
      in if dlog_verify C (b_proof m) \<and> dlog_verify C (beta_tag_proof m) \<and> ba_btag = g_alpha
         then Inr alpha else Inl InvalidKey)"

definition verify_b_against_public :: "'ge \<Rightarrow> 'ge \<Rightarrow> bool" where
  "verify_b_against_public public_gb mta_gb \<longleftrightarrow> public_gb = mta_gb"

section \<open>What the exchange computes\<close>

text \<open>The integer under the ciphertext of an honest \<open>MessageB\<close>, before reduction modulo \<open>n\<close>.\<close>

definition mta_plain ::
  "('fe::field, 'ge::ab_group_add, 'dlp, 'egp, 'vss) curv \<Rightarrow> 'fe \<Rightarrow> 'fe \<Rightarrow> int \<Rightarrow> int" where
  "mta_plain C a b beta_tag = to_big_int C a * to_big_int C b + beta_tag"

lemma mta_decrypt:
  assumes "curve_laws C" "paillier_key_laws P ek dk"
  shows "p_decrypt P dk (mb_c (fst (message_b C P b ek (message_a C P a ek r) seeds))) =
    mta_plain C a b (mb_beta_tag seeds) mod ek_n P ek"
proof -
  obtain cts where cts: "\<And>m r. p_encrypt P ek m r \<in> cts"
      "\<And>m r. p_decrypt P dk (p_encrypt P ek m r) = m mod ek_n P ek"
      "\<And>c d. c \<in> cts \<Longrightarrow> d \<in> cts \<Longrightarrow> p_decrypt P dk (p_add P ek c d) =
         (p_decrypt P dk c + p_decrypt P dk d) mod ek_n P ek"
      "\<And>c k. c \<in> cts \<Longrightarrow> 0 \<le> k \<Longrightarrow> p_mul P ek c k \<in> cts \<and>
         p_decrypt P dk (p_mul P ek c k) = p_decrypt P dk c * k mod ek_n P ek"
    using assms(2) unfolding paillier_key_laws_def by blast
  show ?thesis
    using cts(1,2,3) cts(4) [OF cts(1) to_big_int_nonneg [OF assms(1)]]
    by (simp add: message_a_def message_b_def mta_plain_def Let_def mod_simps)
qed

lemma mta_share_sum:
  assumes "curve_laws C"
  shows "fe_from C (mta_plain C a b bt) + (0 - fe_from C bt) = a * b"
  by (simp add: mta_plain_def curve_simps assms)

lemma message_b_proofs:
  assumes "proof_laws C"
  shows "dlog_verify C (b_proof (fst (message_b C P b ek ca seeds)))"
    and "dlog_verify C (beta_tag_proof (fst (message_b C P b ek ca seeds)))"
    and "dlog_pk C (b_proof (fst (message_b C P b ek ca seeds))) = smul C (generator C) b"
    and "dlog_pk C (beta_tag_proof (fst (message_b C P b ek ca seeds))) =
      smul C (generator C) (fe_from C (mb_beta_tag seeds))"
    and "snd (message_b C P b ek ca seeds) = - fe_from C (mb_beta_tag seeds)"
  using assms by (simp_all add: message_b_def Let_def dlog_complete dlog_pk_prove)

lemma mta_plain_bounds:
  assumes "curve_laws C" "fe_q C * fe_q C \<le> n" "0 \<le> bt" "bt < n"
  shows "0 \<le> mta_plain C a b bt \<and> mta_plain C a b bt < 2 * n"
proof -
  note r = to_big_int_nonneg [OF assms(1)] to_big_int_less [OF assms(1)]
  have "to_big_int C a * to_big_int C b \<le> fe_q C * fe_q C"
    using r by (meson less_imp_le mult_mono order_trans)
  then show ?thesis using assms r by (simp add: mta_plain_def)
qed

lemma mta_check:
  assumes "curve_laws C" "proof_laws C" "paillier_key_laws P ek dk"
  shows "verify_proofs_get_alpha C P (fst (message_b C P b ek (message_a C P a ek r) seeds)) dk a =
    (let v = mta_plain C a b (mb_beta_tag seeds) in
     if fe_from C v = fe_from C (v mod ek_n P ek) then Inr (fe_from C (v mod ek_n P ek)) else Inl InvalidKey)"
proof -
  let ?m = "fst (message_b C P b ek (message_a C P a ek r) seeds)" and ?bt = "mb_beta_tag seeds"
  let ?g = "smul C (generator C)" and ?v = "mta_plain C a b ?bt"
  have sum: "?g b = dlog_pk C (b_proof ?m)" "?g (fe_from C ?bt) = dlog_pk C (beta_tag_proof ?m)"
    by (simp_all add: message_b_proofs [OF assms(2)])
  have "smul C (dlog_pk C (b_proof ?m)) a + dlog_pk C (beta_tag_proof ?m) = ?g (fe_from C ?v)"
    using assms(1) by (simp flip: sum add: curve_simps mta_plain_def mult.commute)
  then show ?thesis
    by (simp add: verify_proofs_get_alpha_def Let_def mta_decrypt [OF assms(1,3)]
        message_b_proofs(1,2) [OF assms(2)] smul_gen_eq_iff [OF assms(1)])
qed

text \<open>Without a wrap-around A gets the scalar of the plaintext.\<close>

lemma mta_accepts:
  assumes "curve_laws C" "proof_laws C" "paillier_key_laws P ek dk"
    and "0 \<le> mb_beta_tag seeds" "mta_plain C a b (mb_beta_tag seeds) < ek_n P ek"
  shows "verify_proofs_get_alpha C P (fst (message_b C P b ek (message_a C P a ek r) seeds)) dk a =
    Inr (fe_from C (mta_plain C a b (mb_beta_tag seeds)))"
proof -
  have "0 \<le> mta_plain C a b (mb_beta_tag seeds)"
    using assms(1,4) by (simp add: mta_plain_def to_big_int_nonneg)
  then have "mta_plain C a b (mb_beta_tag seeds) mod ek_n P ek = mta_plain C a b (mb_beta_tag seeds)"
    using assms(5) by simp
  then show ?thesis by (simp add: mta_check [OF assms(1-3)] Let_def)
qed

text \<open>C11: The share conversion of two honest parties, on every input: with a modulus of at least
  \<open>q\<^sup>2\<close> that \<open>q\<close> does not divide, A's check returns a scalar \<open>alpha\<close> with
  \<open>alpha + beta = a * b\<close> exactly when \<open>a * b + beta_tag\<close> does not wrap around the Paillier
  modulus, and returns \<open>InvalidKey\<close> when it does: a wrap-around aborts the signature, and never
  yields wrong shares.\<close>

theorem mta_outcome:
  assumes "curve_laws C" "proof_laws C" "paillier_key_laws P ek dk"
    and "fe_q C * fe_q C \<le> ek_n P ek" "\<not> fe_q C dvd ek_n P ek"
    and "0 \<le> mb_beta_tag seeds" "mb_beta_tag seeds < ek_n P ek"
  shows "let (m, beta) = message_b C P b ek (message_a C P a ek r) seeds in
    if mta_plain C a b (mb_beta_tag seeds) < ek_n P ek
    then \<exists>alpha. verify_proofs_get_alpha C P m dk a = Inr alpha \<and> alpha + beta = a * b
    else verify_proofs_get_alpha C P m dk a = Inl InvalidKey"
proof -
  let ?n = "ek_n P ek" and ?bt = "mb_beta_tag seeds"
  let ?v = "mta_plain C a b ?bt"
  let ?m = "fst (message_b C P b ek (message_a C P a ek r) seeds)"
  note bounds = mta_plain_bounds [OF assms(1,4,6,7), of a b]
  have ver: "verify_proofs_get_alpha C P ?m dk a =
      (if fe_from C ?v = fe_from C (?v mod ?n) then Inr (fe_from C (?v mod ?n)) else Inl InvalidKey)"
    by (simp add: mta_check [OF assms(1-3)] Let_def)
  show ?thesis
  proof (cases "?v < ?n")
    case True
    then have "?v mod ?n = ?v" using bounds by simp
    then show ?thesis
      using True ver mta_share_sum [OF assms(1), of a b ?bt]
      by (simp add: case_prod_beta message_b_proofs(5) [OF assms(2)])
  next
    case False
    have "?v mod ?n = (?v - ?n) mod ?n" by simp
    also have "\<dots> = ?v - ?n"
      using False bounds by (intro mod_pos_pos_trivial) simp_all
    finally have "?v mod ?n = ?v - ?n" .
    then have "fe_from C ?v \<noteq> fe_from C (?v mod ?n)"
      using assms(5) by (simp add: fe_from_eq_iff [OF assms(1)])
    then show ?thesis using False ver by (simp add: case_prod_beta)
  qed
qed

theorem mta_outcome_witness:
  "(\<exists>alpha. verify_proofs_get_alpha C7 P7 (fst (message_b C7 P7 Z5 1000 (message_a C7 P7 Z3 1000 2)
      \<lparr>mb_beta_tag = 10, mb_enc_seed = 1, mb_b_seed = 2, mb_beta_seed = 3\<rparr>)) 1000 Z3 = Inr alpha) \<and>
   verify_proofs_get_alpha C7 P7 (fst (message_b C7 P7 Z5 1000 (message_a C7 P7 Z3 1000 2)
      \<lparr>mb_beta_tag = 990, mb_enc_seed = 1, mb_b_seed = 2, mb_beta_seed = 3\<rparr>)) 1000 Z3 = Inl InvalidKey"
proof -
  have laws: "paillier_key_laws P7 1000 1000"
    using paillier_laws_P7 by (simp add: paillier_laws_def)
  note run = mta_outcome [OF curve_laws_C7 proof_laws_C7 laws, where a = Z3 and b = Z5 and r = 2]
  show ?thesis
    using run [of "\<lparr>mb_beta_tag = 10, mb_enc_seed = 1, mb_b_seed = 2, mb_beta_seed = 3\<rparr>"]
      run [of "\<lparr>mb_beta_tag = 990, mb_enc_seed = 1, mb_b_seed = 2, mb_beta_seed = 3\<rparr>"]
    by (auto simp: mta_plain_def split: prod.splits)
qed

text \<open>C21: What A's check guarantees about any message, honest or not: if the keys in B's two proofs
  are \<open>G * b\<close> and \<open>G * t\<close>, then an accepted \<open>alpha\<close> is exactly \<open>a * b + t\<close>, whatever the
  ciphertext holds. B cannot make A accept a share for another multiplier.\<close>

theorem mta_accepted_share_sound:
  assumes "curve_laws C" "verify_proofs_get_alpha C P m dk a = Inr alpha"
    and "dlog_pk C (b_proof m) = smul C (generator C) b"
    and "dlog_pk C (beta_tag_proof m) = smul C (generator C) t"
  shows "alpha = a * b + t \<and> dlog_verify C (b_proof m) \<and> dlog_verify C (beta_tag_proof m)"
proof -
  have "smul C (generator C) alpha = smul C (generator C) (b * a + t)"
    and "dlog_verify C (b_proof m)" "dlog_verify C (beta_tag_proof m)"
    using assms(2) by (auto simp: verify_proofs_get_alpha_def Let_def assms(3,4)
        curve_simps [OF assms(1)] split: if_splits)
  then show ?thesis by (simp add: smul_gen_eq_iff [OF assms(1)] mult.commute)
qed

theorem mta_accepted_share_sound_witness:
  "let m = \<lparr>mb_c = 1 + 1000 * 5, b_proof = Z5, beta_tag_proof = Z0\<rparr> in
   verify_proofs_get_alpha C7 P7 m 1000 Z3 = Inr Z1 \<and> Z1 = Z3 * Z5 + Z0"
proof -
  let ?m = "\<lparr>mb_c = 1 + 1000 * 5, b_proof = Z5, beta_tag_proof = Z0\<rparr>"
  have run: "verify_proofs_get_alpha C7 P7 ?m 1000 Z3 = Inr Z1"
    by (simp add: verify_proofs_get_alpha_def gf7_defs gf_of_def)
  have "dlog_pk C7 (b_proof ?m) = smul C7 (generator C7) Z5"
    and "dlog_pk C7 (beta_tag_proof ?m) = smul C7 (generator C7) Z0"
    by simp_all
  from mta_accepted_share_sound [OF curve_laws_C7 run this] run show ?thesis by simp
qed

end
