(* ===== verification/Signing.thy ===== *)
theory Signing
  imports Mta
begin

text \<open>
  The signing half of \<open>src/vDexNode/mpt/src/utils/key_gen_utils.rs\<close>: \<open>impl SignKeys\<close>,
  \<open>impl LocalSignature\<close> and the free function \<open>verify\<close>. Random draws are arguments, as in
  \<open>Key_Gen\<close>; \<open>None\<close> is a panic.
\<close>

section \<open>Data\<close>

record ('fe, 'ge) sign_keys =
  w_i :: 'fe
  g_w_i :: 'ge
  k_i :: 'fe
  gamma_i :: 'fe
  g_gamma_i :: 'ge

record sign_broadcast_phase1 =
  sb_com :: int

record 'ge sign_decommit_phase1 =
  sd_blind_factor :: int
  sd_g_gamma_i :: 'ge

record ('fe, 'ge) local_signature =
  l_i :: 'fe
  rho_i :: 'fe
  ls_R :: 'ge
  s_i :: 'fe
  ls_m :: int
  ls_y :: 'ge

record phase5_com1 =
  com1 :: int

record phase5_com2 =
  com2 :: int

record 'ge phase5a_decom1 =
  V_i :: 'ge
  A_i :: 'ge
  B_i :: 'ge
  d1_blind_factor :: int

record 'ge phase5d_decom2 =
  d2_u_i :: 'ge
  d2_t_i :: 'ge
  d2_blind_factor :: int

record 'fe signature =
  sig_r :: 'fe
  sig_s :: 'fe

section \<open>\<open>impl SignKeys\<close>\<close>

text \<open>The two scalars drawn by \<open>create\<close> come in the order of the code: first \<open>gamma_i\<close>, then
  \<open>k_i\<close>.\<close>

definition sign_keys_create ::
  "('fe::field, 'ge::ab_group_add, 'dlp, 'egp, 'vss) curv \<Rightarrow> ('fe, 'dk) party_private \<Rightarrow> 'vss \<Rightarrow>
   nat \<Rightarrow> nat list \<Rightarrow> 'fe \<Rightarrow> 'fe \<Rightarrow> ('fe, 'ge) sign_keys" where
  "sign_keys_create C private vss_scheme index s gamma k =
     (let li = vss_map_share C vss_scheme index s;
          w = li * pp_x_i private;
          g = generator C
      in \<lparr>w_i = w, g_w_i = smul C g w, k_i = k, gamma_i = gamma, g_gamma_i = smul C g gamma\<rparr>)"

definition phase1_broadcast ::
  "('fe::field, 'ge::ab_group_add, 'dlp, 'egp, 'vss) curv \<Rightarrow> ('fe, 'ge) sign_keys \<Rightarrow> int \<Rightarrow>
   sign_broadcast_phase1 \<times> 'ge sign_decommit_phase1" where
  "phase1_broadcast C sk blind_factor =
     (let g = generator C;
          gg = smul C g (gamma_i sk);
          com = create_commitment C (compressed C gg) blind_factor
      in (\<lparr>sb_com = com\<rparr>, \<lparr>sd_blind_factor = blind_factor, sd_g_gamma_i = g_gamma_i sk\<rparr>))"

text \<open>\<open>phase2_delta_i\<close> and \<open>phase2_sigma_i\<close> have the same shape: a product plus the sums of two
  vectors whose lengths are asserted equal.\<close>

definition phase2_delta_i ::
  "('fe::field, 'ge) sign_keys \<Rightarrow> 'fe list \<Rightarrow> 'fe list \<Rightarrow> 'fe option" where
  "phase2_delta_i sk alpha_vec beta_vec =
     (if length alpha_vec \<noteq> length beta_vec then None
      else let ki_gamma_i = k_i sk * gamma_i sk
           in Some (foldl (\<lambda>acc x. acc + x) ki_gamma_i
                (map (\<lambda>i. alpha_vec ! i + beta_vec ! i) [0..<length alpha_vec])))"

definition phase2_sigma_i ::
  "('fe::field, 'ge) sign_keys \<Rightarrow> 'fe list \<Rightarrow> 'fe list \<Rightarrow> 'fe option" where
  "phase2_sigma_i sk miu_vec ni_vec =
     (if length miu_vec \<noteq> length ni_vec then None
      else let ki_w_i = k_i sk * w_i sk
           in Some (foldl (\<lambda>acc x. acc + x) ki_w_i
                (map (\<lambda>i. miu_vec ! i + ni_vec ! i) [0..<length miu_vec])))"

definition phase3_reconstruct_delta ::
  "('fe::field, 'ge::ab_group_add, 'dlp, 'egp, 'vss) curv \<Rightarrow> 'fe list \<Rightarrow> 'fe" where
  "phase3_reconstruct_delta C delta_vec =
     (let sum = foldl (\<lambda>acc x. acc + x) 0 delta_vec in invert C sum)"

text \<open>
  \<open>phase4\<close> has no length assertions: the check indexes three vectors by the indices of
  \<open>b_proof_vec\<close>, and \<open>next().unwrap()\<close> runs before the result of the check is looked at.
\<close>

definition phase4 ::
  "('fe::field, 'ge::ab_group_add, 'dlp, 'egp, 'vss) curv \<Rightarrow> 'fe \<Rightarrow> 'dlp list \<Rightarrow>
   'ge sign_decommit_phase1 list \<Rightarrow> sign_broadcast_phase1 list \<Rightarrow> (error + 'ge) option" where
  "phase4 C delta_inv b_proof_vec phase1_decommit_vec bc1_vec =
     do {
       test_b_vec_and_com \<leftarrow>
         all_lazy (\<lambda>i. do {
             b \<leftarrow> vec_get b_proof_vec i;
             d \<leftarrow> vec_get phase1_decommit_vec i;
             and_lazy (Some (dlog_pk C b = sd_g_gamma_i d))
               (do { c \<leftarrow> vec_get bc1_vec i;
                     Some (create_commitment C (compressed C (sd_g_gamma_i d)) (sd_blind_factor d) =
                       sb_com c) })
           }) [0..<length b_proof_vec];
       head \<leftarrow> vec_get phase1_decommit_vec 0;
       Some (if test_b_vec_and_com
             then let gamma_sum = foldl (\<lambda>acc x. acc + sd_g_gamma_i x) (sd_g_gamma_i head)
                        (tl phase1_decommit_vec)
                  in Inr (smul C gamma_sum delta_inv)
             else Inl InvalidKey)
     }"

section \<open>\<open>impl LocalSignature\<close> and \<open>verify\<close>\<close>

text \<open>\<open>ECScalar::from(&R.x_coor().unwrap().mod_floor(&FE::q()))\<close>.\<close>

definition x_scalar ::
  "('fe::field, 'ge::ab_group_add, 'dlp, 'egp, 'vss) curv \<Rightarrow> 'ge \<Rightarrow> 'fe option" where
  "x_scalar C R = do { x \<leftarrow> x_coor C R; Some (fe_from C (x mod fe_q C)) }"

definition phase5_local_sig ::
  "('fe::field, 'ge::ab_group_add, 'dlp, 'egp, 'vss) curv \<Rightarrow> 'fe \<Rightarrow> int \<Rightarrow> 'ge \<Rightarrow> 'fe \<Rightarrow> 'ge \<Rightarrow>
   'fe \<Rightarrow> 'fe \<Rightarrow> ('fe, 'ge) local_signature option" where
  "phase5_local_sig C k message R sigma_i pubkey l rho =
     do {
       let m_fe = fe_from C message;
       r \<leftarrow> x_scalar C R;
       let s = m_fe * k + r * sigma_i;
       Some \<lparr>l_i = l, rho_i = rho, ls_R = R, s_i = s, ls_m = message, ls_y = pubkey\<rparr>
     }"

definition phase5a_broadcast_5b_zkproof ::
  "('fe::field, 'ge::ab_group_add, 'dlp, 'egp, 'vss) curv \<Rightarrow> ('fe, 'ge) local_signature \<Rightarrow> int \<Rightarrow>
   int \<Rightarrow> phase5_com1 \<times> 'ge phase5a_decom1 \<times> 'egp" where
  "phase5a_broadcast_5b_zkproof C ls blind_factor seed =
     (let g = generator C;
          A = smul C g (rho_i ls);
          l_i_rho_i = l_i ls * rho_i ls;
          B = smul C g l_i_rho_i;
          V = smul C (ls_R ls) (s_i ls) + smul C g (l_i ls);
          input_hash = hash_from_ge C [V, A, B];
          com = create_commitment C input_hash blind_factor;
          witness = \<lparr>ew_r = l_i ls, ew_x = s_i ls\<rparr>;
          delta = \<lparr>es_G = A, es_H = ls_R ls, es_Y = g, es_D = V, es_E = B\<rparr>;
          proof = elgamal_prove C witness delta seed
      in (\<lparr>com1 = com\<rparr>, \<lparr>V_i = V, A_i = A, B_i = B, d1_blind_factor = blind_factor\<rparr>, proof))"

definition decom1_opens ::
  "('fe::field, 'ge::ab_group_add, 'dlp, 'egp, 'vss) curv \<Rightarrow> 'ge phase5a_decom1 \<Rightarrow> phase5_com1 \<Rightarrow>
   bool" where
  "decom1_opens C d c \<longleftrightarrow>
     create_commitment C (hash_from_ge C [V_i d, A_i d, B_i d]) (d1_blind_factor d) = com1 c"

definition phase5c ::
  "('fe::field, 'ge::ab_group_add, 'dlp, 'egp, 'vss) curv \<Rightarrow> ('fe, 'ge) local_signature \<Rightarrow>
   'ge phase5a_decom1 list \<Rightarrow> phase5_com1 list \<Rightarrow> 'egp list \<Rightarrow> 'ge \<Rightarrow> 'ge \<Rightarrow> int \<Rightarrow>
   (error + phase5_com2 \<times> 'ge phase5d_decom2) option" where
  "phase5c C ls decom_vec com_vec elgamal_proofs v_i R blind_factor =
     (if length decom_vec \<noteq> length com_vec then None
      else do {
        let g = generator C;
        test_com_elgamal \<leftarrow>
          all_lazy (\<lambda>i. do {
              d \<leftarrow> vec_get decom_vec i;
              c \<leftarrow> vec_get com_vec i;
              let delta = \<lparr>es_G = A_i d, es_H = R, es_Y = g, es_D = V_i d, es_E = B_i d\<rparr>;
              and_lazy (Some (decom1_opens C d c))
                (do { p \<leftarrow> vec_get elgamal_proofs i; Some (elgamal_verify C p delta) })
            }) [0..<length com_vec];
        let v_vec = map V_i decom_vec;
        let a_vec = map A_i decom_vec;
        let v = foldl (\<lambda>acc x. acc + x) v_i v_vec;
        head \<leftarrow> vec_get a_vec 0;
        let a = foldl (\<lambda>acc x. acc + x) head (tl a_vec);
        r \<leftarrow> x_scalar C (ls_R ls);
        let yr = smul C (ls_y ls) r;
        let m_fe = fe_from C (ls_m ls);
        let gm = smul C g m_fe;
        let v = v - gm - yr;
        let u = smul C v (rho_i ls);
        let t = smul C a (l_i ls);
        let input_hash = hash_from_ge C [u, t];
        let com = create_commitment C input_hash blind_factor;
        Some (if test_com_elgamal
              then Inr (\<lparr>com2 = com\<rparr>,
                        \<lparr>d2_u_i = u, d2_t_i = t, d2_blind_factor = blind_factor\<rparr>)
              else Inl InvalidCom)
      })"

definition decom2_opens ::
  "('fe::field, 'ge::ab_group_add, 'dlp, 'egp, 'vss) curv \<Rightarrow> 'ge phase5d_decom2 \<Rightarrow> phase5_com2 \<Rightarrow>
   bool" where
  "decom2_opens C d c \<longleftrightarrow>
     create_commitment C (hash_from_ge C [d2_u_i d, d2_t_i d]) (d2_blind_factor d) = com2 c"

definition phase5d ::
  "('fe::field, 'ge::ab_group_add, 'dlp, 'egp, 'vss) curv \<Rightarrow> ('fe, 'ge) local_signature \<Rightarrow>
   'ge phase5d_decom2 list \<Rightarrow> phase5_com2 list \<Rightarrow> 'ge phase5a_decom1 list \<Rightarrow>
   (error + 'fe) option" where
  "phase5d C ls decom_vec2 com_vec2 decom_vec1 =
     (if length decom_vec2 \<noteq> length decom_vec1 then None
      else if length decom_vec2 \<noteq> length com_vec2 then None
      else do {
        test_com \<leftarrow>
          all_lazy (\<lambda>i. do { d \<leftarrow> vec_get decom_vec2 i; c \<leftarrow> vec_get com_vec2 i;
                              Some (decom2_opens C d c) }) [0..<length com_vec2];
        let t_vec = map d2_t_i decom_vec2;
        let u_vec = map d2_u_i decom_vec2;
        let b_vec = map B_i decom_vec1;
        let g = generator C;
        let biased_sum_tb = foldl (\<lambda>acc x. acc + fst x + snd x) g (zip t_vec b_vec);
        let biased_sum_tb_minus_u = foldl (\<lambda>acc x. acc - x) biased_sum_tb u_vec;
        Some (if test_com
              then if g = biased_sum_tb_minus_u then Inr (s_i ls) else Inl InvalidKey
              else Inl InvalidCom)
      })"

definition verify ::
  "('fe::field, 'ge::ab_group_add, 'dlp, 'egp, 'vss) curv \<Rightarrow> 'fe signature \<Rightarrow> 'ge \<Rightarrow> int \<Rightarrow>
   (error + unit) option" where
  "verify C sig y message =
     do {
       let b = invert C (sig_s sig);
       let a = fe_from C message;
       let u1 = a * b;
       let u2 = sig_r sig * b;
       let g = generator C;
       let gu1 = smul C g u1;
       let yu2 = smul C y u2;
       x \<leftarrow> x_scalar C (gu1 + yu2);
       Some (if sig_r sig = x then Inr () else Inl InvalidSig)
     }"

definition output_signature ::
  "('fe::field, 'ge::ab_group_add, 'dlp, 'egp, 'vss) curv \<Rightarrow> ('fe, 'ge) local_signature \<Rightarrow>
   'fe list \<Rightarrow> (error + 'fe signature) option" where
  "output_signature C ls s_vec =
     do {
       let s = foldl (\<lambda>acc x. acc + x) (s_i ls) s_vec;
       r \<leftarrow> x_scalar C (ls_R ls);
       let sig = \<lparr>sig_r = r, sig_s = s\<rparr>;
       ver \<leftarrow> verify C sig (ls_y ls) (ls_m ls);
       Some (case ver of Inr _ \<Rightarrow> Inr sig | Inl _ \<Rightarrow> Inl InvalidSig)
     }"

end
