(* ===== verification/Sign_Run.thy ===== *)
theory Sign_Run
  imports Keygen_Run Signing
begin

text \<open>
  The program \<open>src/vDexNode/mpt/src/bin/sign.rs\<close>: one signer's run of the ten rounds of signing
  over the board, from the sign-up to the signature that it writes. The key file is the tuple that
  \<open>generate_key\<close> wrote (\<open>key_file\<close>); the JSON codec of the messages is a parameter, the random
  draws are arguments.
\<close>

section \<open>Messages and draws\<close>

record ('fe, 'ge, 'dlp, 'egp) sign_json =
  enc_id :: "u32 \<Rightarrow> string"
  dec_id :: "string \<Rightarrow> u32 option"
  enc_com_ma :: "sign_broadcast_phase1 \<times> message_a \<Rightarrow> string"
  dec_com_ma :: "string \<Rightarrow> (sign_broadcast_phase1 \<times> message_a) option"
  enc_mbs :: "'dlp message_b \<times> 'dlp message_b \<Rightarrow> string"
  dec_mbs :: "string \<Rightarrow> ('dlp message_b \<times> 'dlp message_b) option"
  enc_fe :: "'fe \<Rightarrow> string"
  dec_fe :: "string \<Rightarrow> 'fe option"
  enc_decommit :: "'ge sign_decommit_phase1 \<Rightarrow> string"
  dec_decommit :: "string \<Rightarrow> 'ge sign_decommit_phase1 option"
  enc_com1 :: "phase5_com1 \<Rightarrow> string"
  dec_com1 :: "string \<Rightarrow> phase5_com1 option"
  enc_decom1 :: "'ge phase5a_decom1 \<times> 'egp \<Rightarrow> string"
  dec_decom1 :: "string \<Rightarrow> ('ge phase5a_decom1 \<times> 'egp) option"
  enc_com2 :: "phase5_com2 \<Rightarrow> string"
  dec_com2 :: "string \<Rightarrow> phase5_com2 option"
  enc_decom2 :: "'ge phase5d_decom2 \<Rightarrow> string"
  dec_decom2 :: "string \<Rightarrow> 'ge phase5d_decom2 option"

text \<open>\<open>sr_mb_gamma i\<close> and \<open>sr_mb_w i\<close> are the draws of the two exchanges with signer \<open>i\<close>.\<close>

record 'fe sign_rnd =
  sr_gamma :: 'fe
  sr_k :: 'fe
  sr_blind :: int
  sr_ma :: int
  sr_mb_gamma :: "u32 \<Rightarrow> mb_seeds"
  sr_mb_w :: "u32 \<Rightarrow> mb_seeds"
  sr_l :: 'fe
  sr_rho :: 'fe
  sr_blind5a :: int
  sr_seed5b :: int
  sr_blind5c :: int

section \<open>The message\<close>

text \<open>A hexadecimal argument is decoded, any other one is taken as it is; then the bytes are read as a
  big integer and reduced modulo \<open>2 ^ 256\<close>. \<open>hex\<close> is the crate's decoder.\<close>

definition message_bytes :: "(string \<Rightarrow> string option) \<Rightarrow> string \<Rightarrow> string" where
  "message_bytes hex message_str = (case hex message_str of Some x \<Rightarrow> x | None \<Rightarrow> message_str)"

definition message_bn :: "gcm_lib \<Rightarrow> string \<Rightarrow> int" where
  "message_bn G message = from_vec G message mod 2 ^ 256"

section \<open>The loops between the rounds\<close>

text \<open>Round 1: all commitments, and the messages \<open>A\<close> of the other signers.\<close>

fun round1_loop ::
  "(string \<Rightarrow> ('b \<times> 'm) option) \<Rightarrow> u32 \<Rightarrow> 'b \<Rightarrow> string list \<Rightarrow> nat \<Rightarrow> u32 list \<Rightarrow>
   ('b list \<times> 'm list) option" where
  "round1_loop parse me com ans j [] = Some ([], [])"
| "round1_loop parse me com ans j (i # is) =
     (if i = me then do {
        (bs, ms) \<leftarrow> round1_loop parse me com ans j is;
        Some (com # bs, ms)
      } else do {
        s \<leftarrow> vec_get ans j;
        (b, m) \<leftarrow> parse s;
        (bs, ms) \<leftarrow> round1_loop parse me com ans (Suc j) is;
        Some (b # bs, m # ms)
      })"

text \<open>The two exchanges with every other signer: the messages \<open>B\<close> with the shares that stay here.\<close>

fun mb_loop ::
  "('fe::field, 'ge::ab_group_add, 'dlp, 'egp, 'vss) curv \<Rightarrow> ('ek, 'dk, 'ckp) paillier \<Rightarrow>
   'fe sign_rnd \<Rightarrow> ('fe, 'ge) sign_keys \<Rightarrow> 'ek list \<Rightarrow> nat list \<Rightarrow> u32 \<Rightarrow> message_a list \<Rightarrow> nat \<Rightarrow>
   u32 list \<Rightarrow> (('dlp message_b \<times> 'fe) \<times> ('dlp message_b \<times> 'fe)) list option" where
  "mb_loop C P rnd sk eks signers me m_a_vec j [] = Some []"
| "mb_loop C P rnd sk eks signers me m_a_vec j (i # is) =
     (if i \<noteq> me then do {
        s \<leftarrow> vec_get signers (unat (i - 1));
        ek \<leftarrow> vec_get eks s;
        m_a \<leftarrow> vec_get m_a_vec j;
        xs \<leftarrow> mb_loop C P rnd sk eks signers me m_a_vec (Suc j) is;
        Some ((message_b C P (gamma_i sk) ek m_a (sr_mb_gamma rnd i),
               message_b C P (w_i sk) ek m_a (sr_mb_w rnd i)) # xs)
      } else mb_loop C P rnd sk eks signers me m_a_vec j is)"

fun send_mbs ::
  "('dlp message_b \<times> 'dlp message_b \<Rightarrow> string) \<Rightarrow> 'w net \<Rightarrow> u32 \<Rightarrow> string \<Rightarrow>
   ('dlp message_b \<times> 'dlp message_b) list \<Rightarrow> nat \<Rightarrow> u32 list \<Rightarrow> ('w, unit) prog" where
  "send_mbs enc net me uuid mbs j [] = ret ()"
| "send_mbs enc net me uuid mbs j (i # is) =
     (if i \<noteq> me then
        bind_prog (try_prog (vec_get mbs j)) (\<lambda>mb.
        bind_prog (assert_ok (sendp2p net me i ''round2'' (enc mb) uuid)) (\<lambda>_.
        send_mbs enc net me uuid mbs (Suc j) is))
      else send_mbs enc net me uuid mbs j is)"

text \<open>The checks of the messages \<open>B\<close>: both shares, and that the second exchange was about the
  signer's public share of the key.\<close>

fun alpha_loop ::
  "('fe::field, 'ge::ab_group_add, 'dlp, 'egp, 'vss) curv \<Rightarrow> ('ek, 'dk, 'ckp) paillier \<Rightarrow> 'dk \<Rightarrow> 'fe \<Rightarrow>
   'ge list \<Rightarrow> 'vss list \<Rightarrow> nat list \<Rightarrow> u32 \<Rightarrow> ('dlp message_b \<times> 'dlp message_b) list \<Rightarrow> nat \<Rightarrow>
   u32 list \<Rightarrow> ('fe \<times> 'fe) list option" where
  "alpha_loop C P dk k xi_com_vec vss_vec signers me mbs j [] = Some []"
| "alpha_loop C P dk k xi_com_vec vss_vec signers me mbs j (i # is) =
     (if i \<noteq> me then do {
        (mb_gamma, mb_w) \<leftarrow> vec_get mbs j;
        alpha \<leftarrow> expect (verify_proofs_get_alpha C P mb_gamma dk k);
        miu \<leftarrow> expect (verify_proofs_get_alpha C P mb_w dk k);
        s \<leftarrow> vec_get signers (unat (i - 1));
        xi \<leftarrow> vec_get xi_com_vec s;
        vss \<leftarrow> vec_get vss_vec s;
        let g_w_i = update_commitments_to_xi C xi vss s signers;
        if dlog_pk C (b_proof mb_w) \<noteq> g_w_i then None
        else do {
          xs \<leftarrow> alpha_loop C P dk k xi_com_vec vss_vec signers me mbs (Suc j) is;
          Some ((alpha, miu) # xs)
        }
      } else alpha_loop C P dk k xi_com_vec vss_vec signers me mbs j is)"

section \<open>The rounds\<close>

text \<open>A broadcast round: the own value is written, the others' are read and merged by
  \<open>format_vec_from_reads\<close>.\<close>

definition exchange ::
  "('a \<Rightarrow> string) \<Rightarrow> (string \<Rightarrow> 'a option) \<Rightarrow> 'w net \<Rightarrow> u32 \<Rightarrow> u32 \<Rightarrow> string \<Rightarrow> string \<Rightarrow> 'a \<Rightarrow>
   ('w, 'a list) prog" where
  "exchange enc dec net me thr round uuid own =
     bind_prog (assert_ok (broadcast net me round (enc own) uuid)) (\<lambda>_.
     bind_prog (poll_for_broadcasts net me (thr + 1) round uuid) (\<lambda>ans.
     try_prog (format_vec_from_reads dec ans (unat me) own)))"

text \<open>Rounds 0 and 1: who signs, the signing keys, the commitments and the messages \<open>A\<close>.\<close>

definition sign_setup ::
  "('fe::field, 'ge::ab_group_add, 'dlp, 'egp, 'vss) curv \<Rightarrow> ('ek, 'dk, 'ckp) paillier \<Rightarrow>
   ('fe, 'ge, 'dlp, 'egp) sign_json \<Rightarrow> 'w net \<Rightarrow> u32 \<Rightarrow> u32 \<Rightarrow> string \<Rightarrow> 'fe sign_rnd \<Rightarrow>
   ('fe, 'ge, 'ek, 'dk, 'vss) key_file \<Rightarrow>
   ('w, nat list \<times> ('fe, 'ge) sign_keys \<times> 'ge list \<times> 'ge sign_decommit_phase1 \<times>
        sign_broadcast_phase1 list \<times> message_a list) prog" where
  "sign_setup C P J net thr me uuid rnd kf =
     bind_prog (assert_ok (broadcast net me ''round0'' (enc_id J (kf_party kf)) uuid)) (\<lambda>_.
     bind_prog (poll_for_broadcasts net me (thr + 1) ''round0'' uuid) (\<lambda>round0_ans.
     bind_prog (try_prog (read_round (\<lambda>s. map_option (\<lambda>i. unat (i - 1)) (dec_id J s)) me
       (unat (kf_party kf - 1)) (thr + 1) round0_ans)) (\<lambda>signers_vec.
     bind_prog (try_prog (vec_get signers_vec (unat (me - 1)))) (\<lambda>index.
     bind_prog (try_prog (vec_get (kf_vss kf) index)) (\<lambda>vss_scheme.
     let private = set_private (kf_keys kf) (kf_shared kf);
         sk = sign_keys_create C private vss_scheme index signers_vec (sr_gamma rnd) (sr_k rnd)
     in
     bind_prog (try_prog (get_commitments_to_xi C (kf_vss kf))) (\<lambda>xi_com_vec.
     let (com, decommit) = phase1_broadcast C sk (sr_blind rnd);
         m_a_k = message_a C P (k_i sk) (k_ek (kf_keys kf)) (sr_ma rnd)
     in
     bind_prog (assert_ok (broadcast net me ''round1'' (enc_com_ma J (com, m_a_k)) uuid)) (\<lambda>_.
     bind_prog (poll_for_broadcasts net me (thr + 1) ''round1'' uuid) (\<lambda>round1_ans.
     bind_prog (try_prog (round1_loop (dec_com_ma J) me com round1_ans 0 (u32_range (thr + 1))))
       (\<lambda>(bc1_vec, m_a_vec).
     if length signers_vec \<noteq> length bc1_vec then try_prog None
     else ret (signers_vec, sk, xi_com_vec, decommit, bc1_vec, m_a_vec))))))))))"

text \<open>Round 2: the exchanges; the result holds the received messages and \<open>delta_i\<close>, \<open>sigma_i\<close>.\<close>

definition sign_mta ::
  "('fe::field, 'ge::ab_group_add, 'dlp, 'egp, 'vss) curv \<Rightarrow> ('ek, 'dk, 'ckp) paillier \<Rightarrow>
   ('fe, 'ge, 'dlp, 'egp) sign_json \<Rightarrow> 'w net \<Rightarrow> u32 \<Rightarrow> u32 \<Rightarrow> string \<Rightarrow> 'fe sign_rnd \<Rightarrow>
   ('fe, 'ge, 'ek, 'dk, 'vss) key_file \<Rightarrow> nat list \<Rightarrow> ('fe, 'ge) sign_keys \<Rightarrow> 'ge list \<Rightarrow>
   message_a list \<Rightarrow> ('w, 'dlp message_b list \<times> 'fe \<times> 'fe) prog" where
  "sign_mta C P J net thr me uuid rnd kf signers_vec sk xi_com_vec m_a_vec =
     bind_prog (try_prog (mb_loop C P rnd sk (kf_paillier kf) signers_vec me m_a_vec 0
       (u32_range (thr + 1)))) (\<lambda>sends.
     bind_prog (send_mbs (enc_mbs J) net me uuid (map (\<lambda>(g, w). (fst g, fst w)) sends) 0
       (u32_range (thr + 1))) (\<lambda>_.
     bind_prog (poll_for_p2p net me (thr + 1) ''round2'' uuid) (\<lambda>round2_ans.
     bind_prog (try_prog (map_panic (\<lambda>i. do { s \<leftarrow> vec_get round2_ans i; dec_mbs J s })
       [0..<unat thr])) (\<lambda>recs.
     bind_prog (try_prog (alpha_loop C P (k_dk (kf_keys kf)) (k_i sk) xi_com_vec (kf_vss kf)
       signers_vec me recs 0 (u32_range (thr + 1)))) (\<lambda>alphas.
     bind_prog (try_prog (phase2_delta_i sk (map fst alphas) (map (snd \<circ> fst) sends))) (\<lambda>delta_i.
     bind_prog (try_prog (phase2_sigma_i sk (map snd alphas) (map (snd \<circ> snd) sends))) (\<lambda>sigma.
     ret (map fst recs, delta_i, sigma))))))))"

text \<open>Rounds 3 and 4: the inverse of \<open>k * gamma\<close> and the nonce point.\<close>

definition sign_nonce ::
  "('fe::field, 'ge::ab_group_add, 'dlp, 'egp, 'vss) curv \<Rightarrow> ('fe, 'ge, 'dlp, 'egp) sign_json \<Rightarrow>
   'w net \<Rightarrow> u32 \<Rightarrow> u32 \<Rightarrow> string \<Rightarrow> 'ge sign_decommit_phase1 \<Rightarrow> sign_broadcast_phase1 list \<Rightarrow>
   'dlp message_b list \<Rightarrow> 'fe \<Rightarrow> ('w, 'ge) prog" where
  "sign_nonce C J net thr me uuid decommit bc1_vec mb_gammas delta_i =
     bind_prog (exchange (enc_fe J) (dec_fe J) net me thr ''round3'' uuid delta_i) (\<lambda>delta_vec.
     let delta_inv = phase3_reconstruct_delta C delta_vec in
     bind_prog (exchange (enc_decommit J) (dec_decommit J) net me thr ''round4'' uuid decommit)
       (\<lambda>decommit_vec.
     bind_prog (try_prog (vec_remove decommit_vec (unat (me - 1)))) (\<lambda>(decomm_i, decommit_vec).
     bind_prog (try_prog (vec_remove bc1_vec (unat (me - 1)))) (\<lambda>(_, bc1_vec).
     bind_prog (try_prog (Option.bind (phase4 C delta_inv (map b_proof mb_gammas) decommit_vec bc1_vec)
       expect)) (\<lambda>R.
     ret (R + smul C (sd_g_gamma_i decomm_i) delta_inv))))))"

text \<open>Rounds 5 and 6: the local signature, its commitments and proofs, and the check of those of the
  others.\<close>

definition sign_commit ::
  "('fe::field, 'ge::ab_group_add, 'dlp, 'egp, 'vss) curv \<Rightarrow> ('fe, 'ge, 'dlp, 'egp) sign_json \<Rightarrow>
   'w net \<Rightarrow> u32 \<Rightarrow> u32 \<Rightarrow> string \<Rightarrow> 'fe sign_rnd \<Rightarrow> 'fe \<Rightarrow> int \<Rightarrow> 'ge \<Rightarrow> 'fe \<Rightarrow> 'ge \<Rightarrow>
   ('w, ('fe, 'ge) local_signature \<times> ('ge phase5a_decom1 \<times> 'egp) list \<times> phase5_com2 \<times> 'ge phase5d_decom2)
     prog" where
  "sign_commit C J net thr me uuid rnd k message R sigma y_sum =
     bind_prog (try_prog (phase5_local_sig C k message R sigma y_sum (sr_l rnd) (sr_rho rnd)))
       (\<lambda>local_sig.
     let (phase5_com, phase_5a_decom, helgamal_proof) =
       phase5a_broadcast_5b_zkproof C local_sig (sr_blind5a rnd) (sr_seed5b rnd)
     in
     bind_prog (exchange (enc_com1 J) (dec_com1 J) net me thr ''round5'' uuid phase5_com)
       (\<lambda>commit5a_all.
     bind_prog (exchange (enc_decom1 J) (dec_decom1 J) net me thr ''round6'' uuid
       (phase_5a_decom, helgamal_proof)) (\<lambda>decommit5a_all.
     bind_prog (try_prog (vec_remove decommit5a_all (unat (me - 1)))) (\<lambda>(_, decommit5a).
     bind_prog (try_prog (vec_remove commit5a_all (unat (me - 1)))) (\<lambda>(_, commit5a).
     bind_prog (try_prog (map_panic (\<lambda>i. map_option fst (vec_get decommit5a i)) [0..<unat thr]))
       (\<lambda>phase_5a_decomm_vec.
     bind_prog (try_prog (map_panic (\<lambda>i. map_option snd (vec_get decommit5a i)) [0..<unat thr]))
       (\<lambda>phase_5a_elgamal_vec.
     bind_prog (try_prog (Option.bind (phase5c C local_sig phase_5a_decomm_vec commit5a
       phase_5a_elgamal_vec (V_i phase_5a_decom) R (sr_blind5c rnd)) expect))
       (\<lambda>(phase5_com2, phase_5d_decom2).
     ret (local_sig, decommit5a_all, phase5_com2, phase_5d_decom2)))))))))"

text \<open>Rounds 7 to 9: the check that the sum of the local signatures is right, and the signature.\<close>

definition sign_reveal ::
  "('fe::field, 'ge::ab_group_add, 'dlp, 'egp, 'vss) curv \<Rightarrow> ('fe, 'ge, 'dlp, 'egp) sign_json \<Rightarrow>
   'w net \<Rightarrow> u32 \<Rightarrow> u32 \<Rightarrow> string \<Rightarrow> ('fe, 'ge) local_signature \<Rightarrow> ('ge phase5a_decom1 \<times> 'egp) list \<Rightarrow>
   phase5_com2 \<Rightarrow> 'ge phase5d_decom2 \<Rightarrow> ('w, 'fe signature) prog" where
  "sign_reveal C J net thr me uuid local_sig decommit5a_all phase5_com2 phase_5d_decom2 =
     bind_prog (exchange (enc_com2 J) (dec_com2 J) net me thr ''round7'' uuid phase5_com2)
       (\<lambda>commit5c_vec.
     bind_prog (exchange (enc_decom2 J) (dec_decom2 J) net me thr ''round8'' uuid phase_5d_decom2)
       (\<lambda>decommit5d_vec.
     bind_prog (try_prog (map_panic (\<lambda>i. map_option fst (vec_get decommit5a_all i))
       [0..<unat (thr + 1)])) (\<lambda>phase_5a_decomm_all.
     bind_prog (try_prog (Option.bind (phase5d C local_sig decommit5d_vec commit5c_vec
       phase_5a_decomm_all) expect)) (\<lambda>s_i.
     bind_prog (exchange (enc_fe J) (dec_fe J) net me thr ''round9'' uuid s_i) (\<lambda>s_i_all.
     bind_prog (try_prog (vec_remove s_i_all (unat (me - 1)))) (\<lambda>(_, s_i_vec).
     try_prog (Option.bind (output_signature C local_sig s_i_vec) expect)))))))"

definition sign_phase5 ::
  "('fe::field, 'ge::ab_group_add, 'dlp, 'egp, 'vss) curv \<Rightarrow> ('fe, 'ge, 'dlp, 'egp) sign_json \<Rightarrow>
   'w net \<Rightarrow> u32 \<Rightarrow> u32 \<Rightarrow> string \<Rightarrow> 'fe sign_rnd \<Rightarrow> 'fe \<Rightarrow> int \<Rightarrow> 'ge \<Rightarrow> 'fe \<Rightarrow> 'ge \<Rightarrow>
   ('w, 'fe signature) prog" where
  "sign_phase5 C J net thr me uuid rnd k message R sigma y_sum =
     bind_prog (sign_commit C J net thr me uuid rnd k message R sigma y_sum)
       (\<lambda>(local_sig, decommit5a_all, phase5_com2, phase_5d_decom2).
     sign_reveal C J net thr me uuid local_sig decommit5a_all phase5_com2 phase_5d_decom2)"

definition sign_session ::
  "('fe::field, 'ge::ab_group_add, 'dlp, 'egp, 'vss) curv \<Rightarrow> ('ek, 'dk, 'ckp) paillier \<Rightarrow> gcm_lib \<Rightarrow>
   ('fe, 'ge, 'dlp, 'egp) sign_json \<Rightarrow> 'w net \<Rightarrow> u32 \<Rightarrow> u32 \<Rightarrow> string \<Rightarrow> 'fe sign_rnd \<Rightarrow>
   ('fe, 'ge, 'ek, 'dk, 'vss) key_file \<Rightarrow> string \<Rightarrow> ('w, 'fe signature) prog" where
  "sign_session C P G J net thr me uuid rnd kf message =
     bind_prog (sign_setup C P J net thr me uuid rnd kf)
       (\<lambda>(signers_vec, sk, xi_com_vec, decommit, bc1_vec, m_a_vec).
     bind_prog (sign_mta C P J net thr me uuid rnd kf signers_vec sk xi_com_vec m_a_vec)
       (\<lambda>(mb_gammas, delta_i, sigma).
     bind_prog (sign_nonce C J net thr me uuid decommit bc1_vec mb_gammas delta_i) (\<lambda>R.
     sign_phase5 C J net thr me uuid rnd (k_i sk) (message_bn G message) R sigma (kf_y_sum kf))))"

section \<open>The program\<close>

text \<open>The tuple of the signature file. \<open>element\<close> gives the bytes of a scalar (\<open>get_element\<close>), \<open>hex16\<close>
  is \<open>to_str_radix(16)\<close>.\<close>

definition signature_tuple ::
  "gcm_lib \<Rightarrow> ('fe \<Rightarrow> string) \<Rightarrow> (int \<Rightarrow> string) \<Rightarrow> 'fe signature \<Rightarrow> string \<times> string \<times> string \<times> string" where
  "signature_tuple G element hex16 sig =
     (''r'', hex16 (from_vec G (element (sig_r sig))), ''s'', hex16 (from_vec G (element (sig_s sig))))"

text \<open>\<open>main\<close>: the message (third argument), the key file (second argument), the threshold of
  \<open>config/server.conf\<close>, the sign-up, the rounds, and the file \<open>signature\<close>.\<close>

definition sign_main ::
  "('fe::field, 'ge::ab_group_add, 'dlp, 'egp, 'vss) curv \<Rightarrow> ('ek, 'dk, 'ckp) paillier \<Rightarrow> gcm_lib \<Rightarrow>
   ('fe, 'ge, 'dlp, 'egp) sign_json \<Rightarrow> 'w net \<Rightarrow> (string \<Rightarrow> string option) \<Rightarrow>
   (string \<Rightarrow> ('fe, 'ge, 'ek, 'dk, 'vss) key_file option) \<Rightarrow> (string \<Rightarrow> params option) \<Rightarrow>
   ('fe \<Rightarrow> string) \<Rightarrow> (int \<Rightarrow> string) \<Rightarrow> os \<Rightarrow> 'fe sign_rnd \<Rightarrow>
   ('w, string \<times> string \<times> string \<times> string \<times> string) prog" where
  "sign_main C P G J net hex parse_keys parse_conf element hex16 sys rnd =
     bind_prog (arg_panic sys 3) (\<lambda>_.
     let message = message_bytes hex (os_args sys ! 3) in
     bind_prog (try_prog (os_files sys (os_args sys ! 2))) (\<lambda>data.
     bind_prog (try_prog (parse_keys data)) (\<lambda>kf.
     bind_prog (try_prog (config_file sys)) (\<lambda>data.
     bind_prog (try_prog (parse_conf data)) (\<lambda>params.
     bind_prog (try_prog (parse_u32 (pa_threshold params))) (\<lambda>thr.
     bind_prog (act_prog (sign_signup net)) (\<lambda>r.
     case r of Inl _ \<Rightarrow> try_prog None
     | Inr party_i_signup \<Rightarrow>
         bind_prog (sign_session C P G J net thr (ps_number party_i_signup) (ps_uuid party_i_signup)
           rnd kf message) (\<lambda>sig.
         write_file sys ''signature'' (signature_tuple G element hex16 sig)))))))))"

end
