(* ===== verification/Signing_Correct.thy ===== *)
theory Signing_Correct
  imports Signing
begin

text \<open>
  Correctness of threshold signing (\<open>Signing\<close>): the additive shares of \<open>k * gamma\<close> and
  \<open>k * x\<close>, the nonce point \<open>R = G * k\<^sup>-\<^sup>1\<close>, the check of phase 5 and the final signature, for any
  number of signers.
\<close>

section \<open>ECDSA verification\<close>

lemma verify_point:
  assumes "curve_laws C" "y = smul C (generator C) x" "s \<noteq> 0"
    and "R = smul C (generator C) kinv" "s * kinv = fe_from C m + r * x" "x_scalar C R = Some r"
  shows "verify C \<lparr>sig_r = r, sig_s = s\<rparr> y m = Some (Inr ())"
proof -
  let ?b = "invert C s" and ?g = "smul C (generator C)"
  have inv: "s * ?b = 1" by (rule invert_right [OF assms(1,3)])
  have "?g (fe_from C m * ?b) + smul C y (r * ?b) = ?g ((fe_from C m + r * x) * ?b)"
    by (simp add: assms(2) curve_simps assms(1) algebra_simps)
  also have "(fe_from C m + r * x) * ?b = kinv * (s * ?b)"
    using assms(5) by (simp add: mult.commute mult.left_commute)
  finally have "?g (fe_from C m * ?b) + smul C y (r * ?b) = R"
    by (simp add: inv assms(4))
  then show ?thesis using assms(6) by (simp add: verify_def)
qed

text \<open>\<open>output_signature\<close> checks its result.\<close>

lemma output_signature_verifies:
  "output_signature C ls ss = Some (Inr sig) \<Longrightarrow> verify C sig (ls_y ls) (ls_m ls) = Some (Inr ())"
  by (auto simp: output_signature_def Let_def bind_eq_Some_conv split: sum.splits)
    (metis old.unit.exhaust sum.exhaust)

section \<open>Additive shares of the two products\<close>

definition other_signers :: "nat \<Rightarrow> nat \<Rightarrow> nat list" where
  "other_signers i n = without_nth i [0..<n]"

lemma set_others: "i < n \<Longrightarrow> set (other_signers i n) = {..<n} - {i}"
  by (auto simp: other_signers_def without_nth_def take_upt drop_upt)

lemma distinct_others: "distinct (other_signers i n)"
  by (auto simp: other_signers_def without_nth_def take_upt drop_upt min_def)

lemma length_others [simp]: "i < n \<Longrightarrow> length (other_signers i n) = n - 1"
  by (simp add: other_signers_def)

lemma sum_others:
  "i < n \<Longrightarrow> (\<Sum>j\<leftarrow>other_signers i n. f j) = (\<Sum>j\<in>{..<n} - {i}. f j)"
  by (metis distinct_others set_others sum_list_distinct_conv_sum_set)

lemma phase2_delta_i_eq:
  assumes "length as = length bs"
  shows "phase2_delta_i sk as bs = Some (k_i sk * gamma_i sk + (sum_list as + sum_list bs))"
  using assms sum_list_pointwise [OF assms] by (simp add: phase2_delta_i_def foldl_add_sum)

lemma phase2_sigma_i_eq:
  assumes "length as = length bs"
  shows "phase2_sigma_i sk as bs = Some (k_i sk * w_i sk + (sum_list as + sum_list bs))"
  using assms sum_list_pointwise [OF assms] by (simp add: phase2_sigma_i_def foldl_add_sum)

text \<open>The algebra behind both products: row \<open>i\<close> of the matrix of shares is what signer \<open>i\<close> adds up.\<close>

lemma product_shares:
  fixes a b :: "nat \<Rightarrow> 'f::comm_ring"
  assumes "\<And>i j. i < n \<Longrightarrow> j < n \<Longrightarrow> i \<noteq> j \<Longrightarrow> \<alpha> i j + \<beta> j i = a i * b j"
  shows "(\<Sum>i<n. a i * b i + ((\<Sum>j\<leftarrow>other_signers i n. \<alpha> i j) + (\<Sum>j\<leftarrow>other_signers i n. \<beta> i j))) =
    (\<Sum>i<n. a i) * (\<Sum>j<n. b j)"
proof -
  let ?o = "\<lambda>i. {..<n} - {i}"
  have swap: "(\<Sum>i<n. \<Sum>j\<in>?o i. \<beta> i j) = (\<Sum>i<n. \<Sum>j\<in>?o i. \<beta> j i)"
  proof -
    have "(\<Sum>i<n. \<Sum>j\<in>?o i. \<beta> i j) = (\<Sum>j<n. \<Sum>i\<in>{i\<in>{..<n}. j \<in> ?o i}. \<beta> i j)"
      by (subst sum.swap_restrict) (auto intro!: sum.cong)
    also have "\<dots> = (\<Sum>i<n. \<Sum>j\<in>?o i. \<beta> j i)"
      by (intro sum.cong) auto
    finally show ?thesis .
  qed
  have "(\<Sum>i<n. a i * b i + ((\<Sum>j\<leftarrow>other_signers i n. \<alpha> i j) + (\<Sum>j\<leftarrow>other_signers i n. \<beta> i j))) =
      (\<Sum>i<n. a i * b i) + (\<Sum>i<n. \<Sum>j\<in>?o i. \<alpha> i j) + (\<Sum>i<n. \<Sum>j\<in>?o i. \<beta> i j)"
    by (simp add: sum_others sum.distrib add.assoc)
  also have "\<dots> = (\<Sum>i<n. a i * b i) + (\<Sum>i<n. \<Sum>j\<in>?o i. \<alpha> i j + \<beta> j i)"
    by (simp add: swap sum.distrib add.assoc)
  also have "\<dots> = (\<Sum>i<n. a i * b i + (\<Sum>j\<in>?o i. a i * b j))"
    using assms by (simp add: sum.distrib)
  also have "\<dots> = (\<Sum>i<n. \<Sum>j<n. a i * b j)"
    by (intro sum.cong refl) (simp add: sum.remove)
  also have "\<dots> = (\<Sum>i<n. a i) * (\<Sum>j<n. b j)"
    by (simp add: sum_product)
  finally show ?thesis .
qed

section \<open>The nonce point\<close>

lemma phase4_total:
  assumes "length ds = length bs" "length cs = length bs" "bs \<noteq> []"
  shows "phase4 C dinv bs ds cs =
    Some (if \<forall>i<length bs. dlog_pk C (bs ! i) = sd_g_gamma_i (ds ! i) \<and>
               create_commitment C (compressed C (sd_g_gamma_i (ds ! i))) (sd_blind_factor (ds ! i)) =
                 sb_com (cs ! i)
          then Inr (smul C (\<Sum>d\<leftarrow>ds. sd_g_gamma_i d) dinv) else Inl InvalidKey)"
proof -
  have "ds \<noteq> []" using assms by auto
  then have sum: "foldl (\<lambda>acc x. acc + sd_g_gamma_i x) (sd_g_gamma_i (hd ds)) (tl ds) =
      (\<Sum>d\<leftarrow>ds. sd_g_gamma_i d)"
    using foldl_add_sum [of "sd_g_gamma_i (hd ds)" "map sd_g_gamma_i (tl ds)"]
    by (cases ds) (simp_all add: foldl_map)
  have "all_lazy (\<lambda>i. do { b \<leftarrow> vec_get bs i; d \<leftarrow> vec_get ds i;
      and_lazy (Some (dlog_pk C b = sd_g_gamma_i d))
        (do { c \<leftarrow> vec_get cs i;
              Some (create_commitment C (compressed C (sd_g_gamma_i d)) (sd_blind_factor d) =
                sb_com c) }) }) [0..<length bs] =
    Some (\<forall>i<length bs. dlog_pk C (bs ! i) = sd_g_gamma_i (ds ! i) \<and>
       create_commitment C (compressed C (sd_g_gamma_i (ds ! i))) (sd_blind_factor (ds ! i)) =
         sb_com (cs ! i))"
    using assms by (intro all_lazy_range) simp
  then show ?thesis
    using \<open>ds \<noteq> []\<close> sum hd_conv_nth [OF \<open>ds \<noteq> []\<close>] by (auto simp: phase4_def Let_def)
qed

text \<open>\<open>phase4\<close> rejects every party whose decommitment does not match: with one commitment, one
  decommitment and one proof from each other signer, it returns \<open>InvalidKey\<close> as soon as one
  revealed point is not the one its exchange proof was about, or does not open the commitment.\<close>

theorem phase4_rejects_mismatch:
  assumes "length ds = length bs" "length cs = length bs" "i < length bs"
    and "dlog_pk C (bs ! i) \<noteq> sd_g_gamma_i (ds ! i) \<or>
      create_commitment C (compressed C (sd_g_gamma_i (ds ! i))) (sd_blind_factor (ds ! i)) \<noteq>
        sb_com (cs ! i)"
  shows "phase4 C dinv bs ds cs = Some (Inl InvalidKey)"
proof -
  have "bs \<noteq> []" using assms(3) by auto
  then show ?thesis using assms by (subst phase4_total) auto
qed

theorem phase4_rejects_mismatch_witness:
  "phase4 C7 1 [Z3, Z4] [\<lparr>sd_blind_factor = 5, sd_g_gamma_i = Z3\<rparr>,
      \<lparr>sd_blind_factor = 6, sd_g_gamma_i = Z2\<rparr>] [\<lparr>sb_com = 5003\<rparr>, \<lparr>sb_com = 6002\<rparr>] =
    Some (Inl InvalidKey)"
  by (rule phase4_rejects_mismatch [where i = 1]) simp_all

lemma phase4_honest:
  assumes "curve_laws C" "2 \<le> n" "length sks = n" "i < n"
    and "\<And>j. j < n \<Longrightarrow> g_gamma_i (sks ! j) = smul C (generator C) (gamma_i (sks ! j))"
    and "\<And>j. j < n \<Longrightarrow> dlog_pk C (bp j) = smul C (generator C) (gamma_i (sks ! j))"
    and "sum_list deltas = (\<Sum>sk\<leftarrow>sks. k_i sk) * (\<Sum>sk\<leftarrow>sks. gamma_i sk)" "sum_list deltas \<noteq> 0"
  shows "\<exists>R kinv. (\<Sum>sk\<leftarrow>sks. k_i sk) * kinv = 1 \<and>
    phase4 C (phase3_reconstruct_delta C deltas) (map bp (other_signers i n))
      (map (\<lambda>j. snd (phase1_broadcast C (sks ! j) (blind j))) (other_signers i n))
      (map (\<lambda>j. fst (phase1_broadcast C (sks ! j) (blind j))) (other_signers i n)) = Some (Inr R) \<and>
    R + smul C (sd_g_gamma_i (snd (phase1_broadcast C (sks ! i) (blind i))))
      (phase3_reconstruct_delta C deltas) = smul C (generator C) kinv \<and>
    kinv = (\<Sum>sk\<leftarrow>sks. gamma_i sk) * phase3_reconstruct_delta C deltas"
proof -
  let ?g = "smul C (generator C)" and ?dinv = "phase3_reconstruct_delta C deltas"
  let ?gam = "\<lambda>j. gamma_i (sks ! j)" and ?gs = "\<Sum>sk\<leftarrow>sks. gamma_i sk"
  let ?R = "smul C (\<Sum>j\<leftarrow>other_signers i n. ?g (?gam j)) ?dinv"
  let ?ds = "map (\<lambda>j. snd (phase1_broadcast C (sks ! j) (blind j))) (other_signers i n)"
    and ?cs = "map (\<lambda>j. fst (phase1_broadcast C (sks ! j) (blind j))) (other_signers i n)"
  have ne: "other_signers i n \<noteq> []" using assms(2,4) length_others [of i n] by (metis One_nat_def
      diff_is_0_eq list.size(3) not_less_eq_eq numeral_2_eq_2)
  have lt: "other_signers i n ! j < n" if "j < n - 1" for j
    using that assms(4) set_others [of i n] nth_mem [of j "other_signers i n"] by auto
  have "sum_list deltas * ?dinv = 1"
    using invert_right [OF assms(1,8)]
    by (simp add: phase3_reconstruct_delta_def foldl_add_sum)
  then have inv: "(\<Sum>sk\<leftarrow>sks. k_i sk) * (?gs * ?dinv) = 1"
    using assms(7) by (simp add: mult.assoc)
  have gam: "sd_g_gamma_i (snd (phase1_broadcast C (sks ! j) (blind j))) = ?g (?gam j)"
    if "j < n" for j
    using that assms(5) by (simp add: phase1_broadcast_def Let_def)
  then have "map (\<lambda>j. sd_g_gamma_i (snd (phase1_broadcast C (sks ! j) (blind j)))) (other_signers i n) =
      map (\<lambda>j. ?g (?gam j)) (other_signers i n)"
    using assms(4) by (simp add: set_others)
  from arg_cong [OF this, of sum_list] have sum: "sum_list
      (map (sd_g_gamma_i \<circ> (\<lambda>j. snd (phase1_broadcast C (sks ! j) (blind j)))) (other_signers i n)) =
      (\<Sum>j\<leftarrow>other_signers i n. ?g (?gam j))"
    by (simp only: comp_def)
  have opens: "create_commitment C
      (compressed C (sd_g_gamma_i (snd (phase1_broadcast C (sks ! j) (blind j)))))
      (sd_blind_factor (snd (phase1_broadcast C (sks ! j) (blind j)))) =
      sb_com (fst (phase1_broadcast C (sks ! j) (blind j)))" if "j < n" for j
    using that assms(5) by (simp add: phase1_broadcast_def Let_def)
  have "phase4 C ?dinv (map bp (other_signers i n)) ?ds ?cs = Some (Inr ?R)"
    using phase4_total [of ?ds "map bp (other_signers i n)" ?cs C ?dinv] ne lt gam opens assms(4,6)
    by (simp add: sum)
  moreover have "?R + smul C (sd_g_gamma_i (snd (phase1_broadcast C (sks ! i) (blind i)))) ?dinv =
      ?g (?gs * ?dinv)"
  proof -
    have "?gs = (\<Sum>j<n. ?gam j)"
      using assms(3) by (simp add: sum_list_sum_nth atLeast0LessThan)
    also have "\<dots> = ?gam i + (\<Sum>j\<leftarrow>other_signers i n. ?gam j)"
      using assms(4) by (simp add: sum_others sum.remove)
    finally show ?thesis
      using assms(4,5) by (simp add: phase1_broadcast_def Let_def smul_sum_list [OF assms(1), symmetric]
          curve_simps [OF assms(1)] algebra_simps)
  qed
  ultimately show ?thesis using inv by blast
qed

text \<open>C20: The nonce point is the right one: when the shares \<open>delta_j\<close> add up to a non-zero
  \<open>k * gamma\<close> and the other signers' messages are honest, \<open>phase4\<close> accepts them, and the point the
  signer computes from its result and its own \<open>g_gamma_i\<close> is \<open>G * kinv\<close> for the inverse
  \<open>kinv\<close> of the joint nonce \<open>k\<close>, the same point for every signer.\<close>

theorem phase4_nonce_point:
  assumes "curve_laws C" "2 \<le> n" "length sks = n" "i < n"
    and "\<And>j. j < n \<Longrightarrow> g_gamma_i (sks ! j) = smul C (generator C) (gamma_i (sks ! j))"
    and "\<And>j. j < n \<Longrightarrow> dlog_pk C (bp j) = smul C (generator C) (gamma_i (sks ! j))"
    and "sum_list deltas = (\<Sum>sk\<leftarrow>sks. k_i sk) * (\<Sum>sk\<leftarrow>sks. gamma_i sk)" "sum_list deltas \<noteq> 0"
  shows "\<exists>R kinv. (\<Sum>sk\<leftarrow>sks. k_i sk) * kinv = 1 \<and>
    phase4 C (phase3_reconstruct_delta C deltas) (map bp (other_signers i n))
      (map (\<lambda>j. snd (phase1_broadcast C (sks ! j) (blind j))) (other_signers i n))
      (map (\<lambda>j. fst (phase1_broadcast C (sks ! j) (blind j))) (other_signers i n)) = Some (Inr R) \<and>
    R + smul C (sd_g_gamma_i (snd (phase1_broadcast C (sks ! i) (blind i))))
      (phase3_reconstruct_delta C deltas) = smul C (generator C) kinv \<and>
    kinv = (\<Sum>sk\<leftarrow>sks. gamma_i sk) * phase3_reconstruct_delta C deltas"
  by (rule phase4_honest [OF assms])

theorem phase4_nonce_point_witness:
  "let sks = [\<lparr>w_i = Z1, g_w_i = Z1, k_i = Z2, gamma_i = Z3, g_gamma_i = Z3\<rparr>,
              \<lparr>w_i = Z4, g_w_i = Z4, k_i = Z4, gamma_i = Z6, g_gamma_i = Z6\<rparr>] in
   \<exists>R kinv. (\<Sum>sk\<leftarrow>sks. k_i sk) * kinv = 1 \<and>
    phase4 C7 (phase3_reconstruct_delta C7 [Z2, Z3]) (map (\<lambda>j. [Z3, Z6] ! j) (other_signers 0 2))
      (map (\<lambda>j. snd (phase1_broadcast C7 (sks ! j) 5)) (other_signers 0 2))
      (map (\<lambda>j. fst (phase1_broadcast C7 (sks ! j) 5)) (other_signers 0 2)) = Some (Inr R) \<and>
    R + smul C7 (sd_g_gamma_i (snd (phase1_broadcast C7 (sks ! 0) 5)))
      (phase3_reconstruct_delta C7 [Z2, Z3]) = smul C7 (generator C7) kinv"
proof -
  let ?sks = "[\<lparr>w_i = Z1, g_w_i = Z1, k_i = Z2, gamma_i = Z3, g_gamma_i = Z3\<rparr>,
              \<lparr>w_i = Z4, g_w_i = Z4, k_i = Z4, gamma_i = Z6, g_gamma_i = Z6\<rparr>]"
  have gam: "g_gamma_i (?sks ! j) = smul C7 (generator C7) (gamma_i (?sks ! j))"
    and pk: "dlog_pk C7 ([Z3, Z6] ! j) = smul C7 (generator C7) (gamma_i (?sks ! j))"
    if "j < 2" for j
    using that by (auto simp: less_2_cases_iff)
  have delta: "sum_list [Z2, Z3] = (\<Sum>sk\<leftarrow>?sks. k_i sk) * (\<Sum>sk\<leftarrow>?sks. gamma_i sk)"
    "sum_list [Z2, Z3] \<noteq> 0"
    by (simp_all add: gf7_defs gf_of_def)
  have "length ?sks = 2" "0 < (2::nat)" "(2::nat) \<le> 2" by simp_all
  from phase4_nonce_point [OF curve_laws_C7 this(3,1,2) gam pk delta, of "\<lambda>_. 5"]
  show ?thesis unfolding Let_def by blast
qed

section \<open>Phase 5\<close>

text \<open>
  The four steps of phase 5 for signers that run the code on whatever local signatures they hold:
  every signer broadcasts \<open>phase5a_broadcast_5b_zkproof\<close>, runs \<open>phase5c\<close> on the messages of the
  others and \<open>phase5d\<close> on those of all (as \<open>sign.rs\<close> does, with \<open>expect\<close> on the result of
  \<open>phase5c\<close>). The \<open>i\<close>-th entry is what signer \<open>i\<close> gets.
\<close>

definition joint_phase5 ::
  "('fe::field, 'ge::ab_group_add, 'dlp, 'egp, 'vss) curv \<Rightarrow> ('fe, 'ge) local_signature list \<Rightarrow>
   (nat \<Rightarrow> int) \<Rightarrow> (nat \<Rightarrow> int) \<Rightarrow> (nat \<Rightarrow> int) \<Rightarrow> (error + 'fe) list option" where
  "joint_phase5 C lss blind1 seed blind2 =
     (let n = length lss;
          msgs = map (\<lambda>i. phase5a_broadcast_5b_zkproof C (lss ! i) (blind1 i) (seed i)) [0..<n];
          coms = map fst msgs; decoms = map (fst \<circ> snd) msgs; proofs = map (snd \<circ> snd) msgs
      in do {
        outs \<leftarrow> map_panic (\<lambda>i. do {
            r \<leftarrow> phase5c C (lss ! i) (without_nth i decoms) (without_nth i coms)
                  (without_nth i proofs) (V_i (decoms ! i)) (ls_R (lss ! i)) (blind2 i);
            expect r }) [0..<n];
        map_panic (\<lambda>i. phase5d C (lss ! i) (map snd outs) (map fst outs) decoms) [0..<n]
      })"

lemma phase5a_fields:
  "V_i (fst (snd (phase5a_broadcast_5b_zkproof C ls b s))) =
     smul C (ls_R ls) (s_i ls) + smul C (generator C) (l_i ls)"
  "A_i (fst (snd (phase5a_broadcast_5b_zkproof C ls b s))) = smul C (generator C) (rho_i ls)"
  "B_i (fst (snd (phase5a_broadcast_5b_zkproof C ls b s))) =
     smul C (generator C) (l_i ls * rho_i ls)"
  "decom1_opens C (fst (snd (phase5a_broadcast_5b_zkproof C ls b s)))
     (fst (phase5a_broadcast_5b_zkproof C ls b s))"
  by (simp_all add: phase5a_broadcast_5b_zkproof_def decom1_opens_def Let_def)

lemma phase5a_proof_verifies:
  assumes "curve_laws C" "proof_laws C"
  shows "elgamal_verify C (snd (snd (phase5a_broadcast_5b_zkproof C ls b s)))
    \<lparr>es_G = smul C (generator C) (rho_i ls), es_H = ls_R ls, es_Y = generator C,
     es_D = smul C (ls_R ls) (s_i ls) + smul C (generator C) (l_i ls),
     es_E = smul C (generator C) (l_i ls * rho_i ls)\<rparr>"
  unfolding phase5a_broadcast_5b_zkproof_def Let_def snd_conv
  by (rule elgamal_complete [OF assms(2)])
    (simp_all add: curve_simps [OF assms(1)] mult.commute)

lemma phase5c_total:
  assumes "length cs = length ds" "length ps = length ds" "ds \<noteq> []" "x_scalar C (ls_R ls) = Some r"
  shows "phase5c C ls ds cs ps v R b =
    (let u = smul C (v + (\<Sum>d\<leftarrow>ds. V_i d) - smul C (generator C) (fe_from C (ls_m ls))
                 - smul C (ls_y ls) r) (rho_i ls);
         t = smul C (\<Sum>d\<leftarrow>ds. A_i d) (l_i ls)
     in Some (if \<forall>i<length ds. decom1_opens C (ds ! i) (cs ! i) \<and>
            elgamal_verify C (ps ! i) \<lparr>es_G = A_i (ds ! i), es_H = R, es_Y = generator C,
              es_D = V_i (ds ! i), es_E = B_i (ds ! i)\<rparr>
          then Inr (\<lparr>com2 = create_commitment C (hash_from_ge C [u, t]) b\<rparr>,
                    \<lparr>d2_u_i = u, d2_t_i = t, d2_blind_factor = b\<rparr>)
          else Inl InvalidCom))"
proof -
  have "all_lazy (\<lambda>i. do { d \<leftarrow> vec_get ds i; c \<leftarrow> vec_get cs i;
      let delta = \<lparr>es_G = A_i d, es_H = R, es_Y = generator C, es_D = V_i d, es_E = B_i d\<rparr>;
      and_lazy (Some (decom1_opens C d c))
        (do { p \<leftarrow> vec_get ps i; Some (elgamal_verify C p delta) }) }) [0..<length cs] =
    Some (\<forall>i<length ds. decom1_opens C (ds ! i) (cs ! i) \<and>
       elgamal_verify C (ps ! i) \<lparr>es_G = A_i (ds ! i), es_H = R, es_Y = generator C,
         es_D = V_i (ds ! i), es_E = B_i (ds ! i)\<rparr>)"
    unfolding assms(1) using assms(1,2) by (intro all_lazy_range) (simp add: Let_def)
  moreover have "map A_i ds ! 0 + sum_list (tl (map A_i ds)) = (\<Sum>d\<leftarrow>ds. A_i d)"
    using assms(3) by (cases ds) simp_all
  ultimately show ?thesis
    using assms by (simp add: phase5c_def Let_def foldl_add_sum)
qed

lemma foldl_zip_sum:
  fixes g :: "'a::ab_group_add"
  assumes "length ts = length bs"
  shows "foldl (\<lambda>acc x. acc + fst x + snd x) g (zip ts bs) = g + sum_list ts + sum_list bs"
  using assms by (induction ts bs arbitrary: g rule: list_induct2) (simp_all add: algebra_simps)

lemma phase5d_total:
  assumes "length cs = length ds2" "length ds1 = length ds2"
  shows "phase5d C ls ds2 cs ds1 =
    Some (if \<forall>i<length ds2. decom2_opens C (ds2 ! i) (cs ! i)
          then if (\<Sum>d\<leftarrow>ds2. d2_t_i d) + (\<Sum>d\<leftarrow>ds1. B_i d) = (\<Sum>d\<leftarrow>ds2. d2_u_i d)
               then Inr (s_i ls) else Inl InvalidKey
          else Inl InvalidCom)"
proof -
  have "all_lazy (\<lambda>i. do { d \<leftarrow> vec_get ds2 i; c \<leftarrow> vec_get cs i; Some (decom2_opens C d c) })
      [0..<length cs] = Some (\<forall>i<length ds2. decom2_opens C (ds2 ! i) (cs ! i))"
    unfolding assms(1) using assms(1) by (intro all_lazy_range) simp
  moreover have "g = g + T + B - U \<longleftrightarrow> T + B = U" for g T B U :: 'b
    by (auto simp: algebra_simps)
  ultimately show ?thesis
    using assms by (simp add: phase5d_def Let_def foldl_zip_sum foldl_minus_sum)
qed

text \<open>What signer \<open>i\<close> reveals last, when the nonce point, message and key are common: \<open>E\<close> is the
  amount by which the shares \<open>s_j\<close> miss a valid signature.\<close>

definition sig_error ::
  "('fe::field, 'ge::ab_group_add, 'dlp, 'egp, 'vss) curv \<Rightarrow> ('fe, 'ge) local_signature list \<Rightarrow>
   'ge \<Rightarrow> int \<Rightarrow> 'ge \<Rightarrow> 'fe \<Rightarrow> 'ge" where
  "sig_error C lss R m y r = smul C R (\<Sum>ls\<leftarrow>lss. s_i ls) - smul C (generator C) (fe_from C m) - smul C y r"

definition decom2_of ::
  "('fe::field, 'ge::ab_group_add, 'dlp, 'egp, 'vss) curv \<Rightarrow> ('fe, 'ge) local_signature list \<Rightarrow>
   'ge \<Rightarrow> ('fe, 'ge) local_signature \<Rightarrow> int \<Rightarrow> 'ge phase5d_decom2" where
  "decom2_of C lss E ls b =
     \<lparr>d2_u_i = smul C (E + smul C (generator C) (\<Sum>ls\<leftarrow>lss. l_i ls)) (rho_i ls),
      d2_t_i = smul C (generator C) (((\<Sum>ls\<leftarrow>lss. rho_i ls) - rho_i ls) * l_i ls),
      d2_blind_factor = b\<rparr>"

lemma sum_without_nth_diff:
  fixes f :: "'a \<Rightarrow> 'b::ab_group_add"
  assumes "i < length xs"
  shows "(\<Sum>x\<leftarrow>without_nth i xs. f x) = (\<Sum>x\<leftarrow>xs. f x) - f (xs ! i)"
  using sum_list_without_nth [of i "map f xs"] assms
  by (simp add: map_without_nth eq_diff_eq add.commute)

lemma phase5c_joint:
  fixes C :: "('fe::field, 'ge::ab_group_add, 'dlp, 'egp, 'vss) curv"
    and lss :: "('fe, 'ge) local_signature list" and b1 sd :: "nat \<Rightarrow> int" and b :: int
  assumes "curve_laws C" "proof_laws C" "2 \<le> length lss" "i < length lss" "x_scalar C R = Some r"
    and common: "\<And>j. j < length lss \<Longrightarrow> ls_R (lss ! j) = R \<and> ls_m (lss ! j) = m \<and> ls_y (lss ! j) = y"
  defines "msgs \<equiv> map (\<lambda>i. phase5a_broadcast_5b_zkproof C (lss ! i) (b1 i) (sd i)) [0..<length lss]"
  defines "d2 \<equiv> decom2_of C lss (sig_error C lss R m y r) (lss ! i) b"
  shows "phase5c C (lss ! i) (without_nth i (map (fst \<circ> snd) msgs)) (without_nth i (map fst msgs))
      (without_nth i (map (snd \<circ> snd) msgs)) (V_i (map (fst \<circ> snd) msgs ! i)) R b =
    Some (Inr (\<lparr>com2 = create_commitment C (hash_from_ge C [d2_u_i d2, d2_t_i d2]) b\<rparr>, d2))"
proof -
  let ?n = "length lss" and ?ds = "without_nth i (map (fst \<circ> snd) msgs)"
  let ?g = "smul C (generator C)" and ?ls = "lss ! i"
  note cs = curve_simps [OF assms(1)]
  have len: "length msgs = ?n" by (simp add: msgs_def)
  then have ne: "?ds \<noteq> []" and lens: "length ?ds = ?n - 1"
    using assms(3,4) length_without_nth [of i "map (fst \<circ> snd) msgs"] by (auto simp del: length_without_nth)
  have nth: "\<exists>k<?n. k \<noteq> i \<and> without_nth i (map f msgs) ! j =
      f (phase5a_broadcast_5b_zkproof C (lss ! k) (b1 k) (sd k)) \<and> k = (if j < i then j else Suc j)"
    if "j < ?n - 1" for j and f :: "_ \<Rightarrow> 'z"
    using that assms(4) by (auto simp: nth_without_nth msgs_def)
  have pv: "elgamal_verify C (snd (snd (phase5a_broadcast_5b_zkproof C (lss ! k) (b1 k) (sd k))))
      \<lparr>es_G = ?g (rho_i (lss ! k)), es_H = R, es_Y = generator C,
       es_D = smul C R (s_i (lss ! k)) + ?g (l_i (lss ! k)),
       es_E = ?g (l_i (lss ! k) * rho_i (lss ! k))\<rparr>" if "k < ?n" for k
    using phase5a_proof_verifies [OF assms(1,2), of "lss ! k" "b1 k" "sd k"] common [OF that] by simp
  have V_k: "V_i (fst (snd (phase5a_broadcast_5b_zkproof C (lss ! k) (b1 k) (sd k)))) =
      smul C R (s_i (lss ! k)) + ?g (l_i (lss ! k))" if "k < ?n" for k
    using common [OF that] by (simp add: phase5a_fields)
  have checks: "decom1_opens C (?ds ! j) (without_nth i (map fst msgs) ! j) \<and>
      elgamal_verify C (without_nth i (map (snd \<circ> snd) msgs) ! j)
        \<lparr>es_G = A_i (?ds ! j), es_H = R, es_Y = generator C, es_D = V_i (?ds ! j), es_E = B_i (?ds ! j)\<rparr>"
    if "j < ?n - 1" for j
    using nth [OF that, of "fst \<circ> snd"] nth [OF that, of fst] nth [OF that, of "snd \<circ> snd"]
    by (auto simp: phase5a_fields(2-4) V_k pv)
  have msgs_sum: "(\<Sum>d\<leftarrow>map (fst \<circ> snd) msgs. f d) =
      (\<Sum>k\<leftarrow>[0..<?n]. f (fst (snd (phase5a_broadcast_5b_zkproof C (lss ! k) (b1 k) (sd k)))))"
    for f :: "_ \<Rightarrow> 'ge"
    by (simp add: msgs_def comp_def)
  have "map (\<lambda>k. smul C (ls_R (lss ! k)) (s_i (lss ! k))) [0..<?n] =
      map (\<lambda>k. smul C R (s_i (lss ! k))) [0..<?n]"
    using common by simp
  then have common_map: "(\<Sum>k\<leftarrow>[0..<?n]. smul C (ls_R (lss ! k)) (s_i (lss ! k))) =
      (\<Sum>ls\<leftarrow>lss. smul C R (s_i ls))"
    by (simp only: sum_list_nth [of "\<lambda>ls. smul C R (s_i ls)"])
  have "V_i (map (fst \<circ> snd) msgs ! i) + (\<Sum>d\<leftarrow>?ds. V_i d) = (\<Sum>d\<leftarrow>map (fst \<circ> snd) msgs. V_i d)"
    using assms(4) len by (simp add: sum_without_nth_diff)
  also have "\<dots> = smul C R (\<Sum>ls\<leftarrow>lss. s_i ls) + ?g (\<Sum>ls\<leftarrow>lss. l_i ls)"
    using sum_list_nth [of "\<lambda>ls. ?g (l_i ls)" lss]
    by (simp only: msgs_sum phase5a_fields sum_list_addf common_map smul_sum_list [OF assms(1)])
  finally have V: "V_i (map (fst \<circ> snd) msgs ! i) + (\<Sum>d\<leftarrow>?ds. V_i d) =
      smul C R (\<Sum>ls\<leftarrow>lss. s_i ls) + ?g (\<Sum>ls\<leftarrow>lss. l_i ls)" .
  have "(\<Sum>d\<leftarrow>?ds. A_i d) = (\<Sum>d\<leftarrow>map (fst \<circ> snd) msgs. A_i d) - A_i (map (fst \<circ> snd) msgs ! i)"
    using assms(4) len by (simp add: sum_without_nth_diff)
  also have "\<dots> = ?g (\<Sum>ls\<leftarrow>lss. rho_i ls) - ?g (rho_i ?ls)"
    using sum_list_nth [of "\<lambda>ls. ?g (rho_i ls)" lss] assms(4)
    by (simp only: msgs_sum phase5a_fields smul_sum_list [OF assms(1)]) (simp add: msgs_def phase5a_fields)
  finally have A: "(\<Sum>d\<leftarrow>?ds. A_i d) = ?g ((\<Sum>ls\<leftarrow>lss. rho_i ls) - rho_i ?ls)"
    by (simp add: cs)
  have u: "smul C (V_i (map (fst \<circ> snd) msgs ! i) + (\<Sum>d\<leftarrow>?ds. V_i d) - ?g (fe_from C (ls_m ?ls)) -
      smul C (ls_y ?ls) r) (rho_i ?ls) = d2_u_i d2"
    unfolding V using common [OF assms(4)]
    by (simp add: d2_def decom2_of_def sig_error_def algebra_simps)
  have t: "smul C (\<Sum>d\<leftarrow>?ds. A_i d) (l_i ?ls) = d2_t_i d2"
    unfolding A by (simp add: d2_def decom2_of_def smul_smul [OF assms(1)])
  have "length (without_nth i (map fst msgs)) = length ?ds"
    and "length (without_nth i (map (snd \<circ> snd) msgs)) = length ?ds"
    and "x_scalar C (ls_R ?ls) = Some r"
    using assms(4,5) common len by simp_all
  note total = phase5c_total [OF this(1,2) ne this(3)]
  show ?thesis
    unfolding total Let_def u t using checks
    by (auto simp: lens) (simp add: d2_def decom2_of_def)
qed

lemma phase5d_sums:
  assumes "curve_laws C"
  shows "(\<Sum>ls\<leftarrow>lss. d2_t_i (decom2_of C lss E ls b)) +
      (\<Sum>ls\<leftarrow>lss. smul C (generator C) (l_i ls * rho_i ls)) =
    smul C (generator C) ((\<Sum>ls\<leftarrow>lss. rho_i ls) * (\<Sum>ls\<leftarrow>lss. l_i ls))"
    and "(\<Sum>ls\<leftarrow>lss. d2_u_i (decom2_of C lss E ls b)) =
    smul C E (\<Sum>ls\<leftarrow>lss. rho_i ls) +
    smul C (generator C) ((\<Sum>ls\<leftarrow>lss. rho_i ls) * (\<Sum>ls\<leftarrow>lss. l_i ls))"
proof -
  let ?g = "smul C (generator C)" and ?P = "\<Sum>ls\<leftarrow>lss. rho_i ls"
  have "(\<Sum>ls\<leftarrow>lss. d2_t_i (decom2_of C lss E ls b)) + (\<Sum>ls\<leftarrow>lss. ?g (l_i ls * rho_i ls)) =
      ?g (\<Sum>ls\<leftarrow>lss. (?P - rho_i ls) * l_i ls + l_i ls * rho_i ls)"
    by (simp add: decom2_of_def smul_sum_list [OF assms, symmetric] sum_list_addf
        smul_add [OF assms, symmetric])
  also have "(\<Sum>ls\<leftarrow>lss. (?P - rho_i ls) * l_i ls + l_i ls * rho_i ls) = (\<Sum>ls\<leftarrow>lss. ?P * l_i ls)"
    by (simp add: algebra_simps)
  finally show "(\<Sum>ls\<leftarrow>lss. d2_t_i (decom2_of C lss E ls b)) +
      (\<Sum>ls\<leftarrow>lss. ?g (l_i ls * rho_i ls)) = ?g (?P * (\<Sum>ls\<leftarrow>lss. l_i ls))"
    by (simp add: sum_list_const_mult)
  have "(\<Sum>ls\<leftarrow>lss. d2_u_i (decom2_of C lss E ls b)) =
      smul C (E + ?g (\<Sum>ls\<leftarrow>lss. l_i ls)) ?P"
    by (simp add: decom2_of_def smul_sum_list [OF assms])
  then show "(\<Sum>ls\<leftarrow>lss. d2_u_i (decom2_of C lss E ls b)) =
      smul C E ?P + ?g (?P * (\<Sum>ls\<leftarrow>lss. l_i ls))"
    by (simp add: curve_simps [OF assms] mult.commute)
qed

lemma phase5d_joint:
  fixes C :: "('fe::field, 'ge::ab_group_add, 'dlp, 'egp, 'vss) curv"
    and lss :: "('fe, 'ge) local_signature list" and b1 sd b2 :: "nat \<Rightarrow> int"
    and R y :: 'ge and m :: int and r :: 'fe
  assumes "curve_laws C" "(\<Sum>ls\<leftarrow>lss. rho_i ls) \<noteq> 0"
  defines "msgs \<equiv> map (\<lambda>i. phase5a_broadcast_5b_zkproof C (lss ! i) (b1 i) (sd i)) [0..<length lss]"
  defines "outs \<equiv> map (\<lambda>i. let d2 = decom2_of C lss (sig_error C lss R m y r) (lss ! i) (b2 i) in
      (\<lparr>com2 = create_commitment C (hash_from_ge C [d2_u_i d2, d2_t_i d2]) (b2 i)\<rparr>, d2)) [0..<length lss]"
  shows "phase5d C ls (map snd outs) (map fst outs) (map (fst \<circ> snd) msgs) =
    Some (if smul C R (\<Sum>ls\<leftarrow>lss. s_i ls) = smul C (generator C) (fe_from C m) + smul C y r
      then Inr (s_i ls) else Inl InvalidKey)"
proof -
  let ?E = "sig_error C lss R m y r" and ?g = "smul C (generator C)" and ?P = "\<Sum>ls\<leftarrow>lss. rho_i ls"
  have t: "(\<Sum>d\<leftarrow>map snd outs. d2_t_i d) = (\<Sum>ls\<leftarrow>lss. d2_t_i (decom2_of C lss ?E ls 0))"
    and u: "(\<Sum>d\<leftarrow>map snd outs. d2_u_i d) = (\<Sum>ls\<leftarrow>lss. d2_u_i (decom2_of C lss ?E ls 0))"
    and b: "(\<Sum>d\<leftarrow>map (fst \<circ> snd) msgs. B_i d) = (\<Sum>ls\<leftarrow>lss. ?g (l_i ls * rho_i ls))"
    using sum_list_nth [of "\<lambda>ls. d2_t_i (decom2_of C lss ?E ls 0)" lss]
      sum_list_nth [of "\<lambda>ls. d2_u_i (decom2_of C lss ?E ls 0)" lss]
      sum_list_nth [of "\<lambda>ls. ?g (l_i ls * rho_i ls)" lss]
    by (simp_all add: comp_def phase5a_fields decom2_of_def outs_def msgs_def Let_def)
  have "smul C ?E ?P = 0 \<longleftrightarrow> ?E = 0"
    using smul_eq_zeroD [OF assms(1) _ assms(2)] smul_zero_point [OF assms(1)] by auto
  then have check: "(\<Sum>d\<leftarrow>map snd outs. d2_t_i d) + (\<Sum>d\<leftarrow>map (fst \<circ> snd) msgs. B_i d) =
      (\<Sum>d\<leftarrow>map snd outs. d2_u_i d) \<longleftrightarrow>
    smul C R (\<Sum>ls\<leftarrow>lss. s_i ls) = ?g (fe_from C m) + smul C y r"
    unfolding t u b phase5d_sums [OF assms(1)]
    by (auto simp: sig_error_def algebra_simps)
  have "\<forall>i<length (map snd outs). decom2_opens C (map snd outs ! i) (map fst outs ! i)"
    by (simp add: outs_def decom2_opens_def decom2_of_def Let_def)
  then show ?thesis
    by (subst phase5d_total) (simp_all only: check length_map, simp_all add: outs_def msgs_def)
qed

text \<open>C9: Phase 5 releases the signature shares exactly when they are right. For two or more signers
  that run phase 5 on local signatures with a common nonce point, message and key, but with
  arbitrary values \<open>s_i\<close>, every \<open>phase5c\<close> succeeds, and \<open>phase5d\<close> hands a signer its \<open>s_i\<close> to
  publish if \<open>R * \<Sigma> s_j = G * m + y * r\<close> (the shares add up to a valid signature), and
  \<open>InvalidKey\<close> otherwise, provided the blinding scalars \<open>rho_i\<close> do not add up to zero.\<close>

theorem phase5_releases_only_valid_shares:
  assumes "curve_laws C" "proof_laws C" "2 \<le> length lss" "x_scalar C R = Some r"
    and "\<And>j. j < length lss \<Longrightarrow> ls_R (lss ! j) = R \<and> ls_m (lss ! j) = m \<and> ls_y (lss ! j) = y"
    and "(\<Sum>ls\<leftarrow>lss. rho_i ls) \<noteq> 0"
  shows "joint_phase5 C lss b1 sd b2 = Some (map (\<lambda>ls.
    if smul C R (\<Sum>ls\<leftarrow>lss. s_i ls) = smul C (generator C) (fe_from C m) + smul C y r
    then Inr (s_i ls) else Inl InvalidKey) lss)"
proof -
  let ?n = "length lss" and ?E = "sig_error C lss R m y r"
  let ?msgs = "map (\<lambda>i. phase5a_broadcast_5b_zkproof C (lss ! i) (b1 i) (sd i)) [0..<?n]"
  let ?out = "\<lambda>i. let d2 = decom2_of C lss ?E (lss ! i) (b2 i) in
      (\<lparr>com2 = create_commitment C (hash_from_ge C [d2_u_i d2, d2_t_i d2]) (b2 i)\<rparr>, d2)"
  have outs: "map_panic (\<lambda>i. do {
        r \<leftarrow> phase5c C (lss ! i) (without_nth i (map (fst \<circ> snd) ?msgs)) (without_nth i (map fst ?msgs))
              (without_nth i (map (snd \<circ> snd) ?msgs)) (V_i (map (fst \<circ> snd) ?msgs ! i))
              (ls_R (lss ! i)) (b2 i);
        expect r }) [0..<?n] = Some (map ?out [0..<?n])"
  proof (rule map_panic_total)
    fix i assume "i \<in> set [0..<?n]"
    then have i: "i < ?n" by simp
    note step = phase5c_joint [OF assms(1-3) i assms(4) assms(5), of b1 sd "b2 i"]
    show "do { r \<leftarrow> phase5c C (lss ! i) (without_nth i (map (fst \<circ> snd) ?msgs))
              (without_nth i (map fst ?msgs)) (without_nth i (map (snd \<circ> snd) ?msgs))
              (V_i (map (fst \<circ> snd) ?msgs ! i)) (ls_R (lss ! i)) (b2 i);
            expect r } = Some (?out i)"
      using assms(5) [OF i] step by (simp only: bind.bind_lunit expect_simps Let_def)
  qed
  have "map_panic (\<lambda>i. phase5d C (lss ! i) (map snd (map ?out [0..<?n]))
      (map fst (map ?out [0..<?n])) (map (fst \<circ> snd) ?msgs)) [0..<?n] =
    Some (map (\<lambda>i. if smul C R (\<Sum>ls\<leftarrow>lss. s_i ls) = smul C (generator C) (fe_from C m) + smul C y r
      then Inr (s_i (lss ! i)) else Inl InvalidKey) [0..<?n])"
    by (intro map_panic_total) (rule phase5d_joint [OF assms(1,6)])
  also have "map (\<lambda>i. if smul C R (\<Sum>ls\<leftarrow>lss. s_i ls) = smul C (generator C) (fe_from C m) + smul C y r
      then Inr (s_i (lss ! i)) else Inl InvalidKey) [0..<?n] =
    map (\<lambda>ls. if smul C R (\<Sum>ls\<leftarrow>lss. s_i ls) = smul C (generator C) (fe_from C m) + smul C y r
      then Inr (s_i ls) else Inl InvalidKey) lss"
    by (rule nth_equalityI) simp_all
  finally show ?thesis
    unfolding joint_phase5_def Let_def outs [unfolded Let_def] bind.bind_lunit .
qed

theorem phase5_releases_only_valid_shares_witness:
  "let ls = (\<lambda>l rho s. \<lparr>l_i = l, rho_i = rho, ls_R = Z2, s_i = s, ls_m = 3, ls_y = Z4\<rparr>) in
   joint_phase5 C7 [ls Z1 Z2 Z3, ls Z4 Z1 Z2] (\<lambda>_. 1) (\<lambda>_. 2) (\<lambda>_. 3) =
     Some [Inl InvalidKey, Inl InvalidKey] \<and>
   joint_phase5 C7 [ls Z1 Z2 Z3, ls Z4 Z1 Z4] (\<lambda>_. 1) (\<lambda>_. 2) (\<lambda>_. 3) = Some [Inr Z3, Inr Z4]"
proof -
  let ?ls = "\<lambda>l rho s. \<lparr>l_i = l, rho_i = rho, ls_R = Z2, s_i = s, ls_m = 3, ls_y = Z4\<rparr>"
  have x: "x_scalar C7 Z2 = Some Z1" by (simp add: x_scalar_def gf_of_def)
  have common: "ls_R ([?ls l rho s, ?ls l' rho' s'] ! j) = Z2 \<and>
      ls_m ([?ls l rho s, ?ls l' rho' s'] ! j) = 3 \<and> ls_y ([?ls l rho s, ?ls l' rho' s'] ! j) = Z4"
    if "j < length [?ls l rho s, ?ls l' rho' s']" for j l rho s l' rho' s'
    using that by (auto simp: less_Suc_eq)
  have "2 \<le> length [?ls l rho s, ?ls l' rho' s']" for l rho s l' rho' s' by simp
  note run = phase5_releases_only_valid_shares [OF curve_laws_C7 proof_laws_C7 this x common]
  show ?thesis
    using run [of Z1 Z2 Z3 Z4 Z1 Z2 "\<lambda>_. 1" "\<lambda>_. 2" "\<lambda>_. 3"]
      run [of Z1 Z2 Z3 Z4 Z1 Z4 "\<lambda>_. 1" "\<lambda>_. 2" "\<lambda>_. 3"]
    by (simp add: gf7_defs gf_of_def)
qed

section \<open>The signature\<close>

lemma shares_make_signature:
  assumes "curve_laws C" "length sigmas = length ks" "sum_list ks * kinv = 1"
    and "sum_list sigmas = sum_list ks * x" "fe_from C m + r * x \<noteq> 0"
    and "R = smul C (generator C) kinv" "y = smul C (generator C) x" "x_scalar C R = Some r"
    and "map_panic (\<lambda>i. phase5_local_sig C (ks ! i) m R (sigmas ! i) y (l i) (rho i))
      [0..<length ks] = Some lss" "i < length ks"
  shows "let sig = \<lparr>sig_r = r, sig_s = sum_list ks * (fe_from C m + r * x)\<rparr> in
    output_signature C (lss ! i) (without_nth i (map s_i lss)) = Some (Inr sig) \<and>
    verify C sig y m = Some (Inr ())"
proof -
  let ?s = "sum_list ks * (fe_from C m + r * x)"
  have ls: "lss ! j = \<lparr>l_i = l j, rho_i = rho j, ls_R = R, s_i = fe_from C m * ks ! j + r * sigmas ! j,
      ls_m = m, ls_y = y\<rparr>" if "j < length ks" for j
    using map_panic_Some_nth [OF assms(9), of j] that assms(8)
    by (simp add: phase5_local_sig_def Let_def)
  have len: "length lss = length ks"
    using map_panic_Some_length [OF assms(9)] by simp
  have "map s_i lss = map (\<lambda>j. fe_from C m * ks ! j + r * sigmas ! j) [0..<length ks]"
    using len by (intro nth_equalityI) (simp_all add: ls)
  moreover have "(\<Sum>j\<leftarrow>[0..<length ks]. fe_from C m * ks ! j + r * sigmas ! j) =
      fe_from C m * sum_list ks + r * sum_list sigmas"
    using sum_list_nth [of "\<lambda>k. k" ks] sum_list_nth [of "\<lambda>k. k" sigmas] assms(2)
    by (simp add: sum_list_addf sum_list_const_mult)
  ultimately have sum: "sum_list (map s_i lss) = ?s"
    by (simp add: assms(4) algebra_simps)
  have k: "sum_list ks \<noteq> 0" using assms(3) by auto
  have "?s * kinv = fe_from C m + r * x"
    using assms(3) by (simp add: mult.assoc mult.commute [of _ kinv] flip: mult.assoc [of "sum_list ks"])
  then have ver: "verify C \<lparr>sig_r = r, sig_s = ?s\<rparr> y m = Some (Inr ())"
    using k assms(5-8) by (intro verify_point [OF assms(1)]) auto
  have "s_i (lss ! i) + sum_list (without_nth i (map s_i lss)) = ?s"
    using sum sum_list_without_nth [of i "map s_i lss"] assms(10) len by simp
  then show ?thesis
    using ver assms(8,10) by (simp add: output_signature_def foldl_add_sum Let_def ls)
qed

text \<open>C8: Threshold signing is correct: if the signers' nonce shares \<open>k_i\<close> and \<open>sigma_i\<close> are additive
  shares of \<open>k\<close> and \<open>k * x\<close>, the common nonce point is \<open>G * k\<^sup>-\<^sup>1\<close> and the group key is
  \<open>G * x\<close>, then every signer outputs the same signature \<open>(r, k * (m + r * x))\<close>, which is a valid
  ECDSA signature of the message under the group key, although no signer knows \<open>k\<close> or \<open>x\<close>.\<close>

theorem threshold_signature_valid:
  assumes "curve_laws C" "length sigmas = length ks" "sum_list ks * kinv = 1"
    and "sum_list sigmas = sum_list ks * x" "fe_from C m + r * x \<noteq> 0"
    and "R = smul C (generator C) kinv" "y = smul C (generator C) x" "x_scalar C R = Some r"
    and "map_panic (\<lambda>i. phase5_local_sig C (ks ! i) m R (sigmas ! i) y (l i) (rho i))
      [0..<length ks] = Some lss" "i < length ks"
  shows "let sig = \<lparr>sig_r = r, sig_s = sum_list ks * (fe_from C m + r * x)\<rparr> in
    output_signature C (lss ! i) (without_nth i (map s_i lss)) = Some (Inr sig) \<and>
    verify C sig y m = Some (Inr ())"
  by (rule shares_make_signature [OF assms])

theorem threshold_signature_valid_witness:
  "\<exists>lss. map_panic (\<lambda>i. phase5_local_sig C7 ([Z1, Z3] ! i) 2 Z2 ([Z2, Z3] ! i) Z3 Z1 Z1)
      [0..<length [Z1, Z3]] = Some lss \<and>
    output_signature C7 (lss ! 1) (without_nth 1 (map s_i lss)) =
      Some (Inr \<lparr>sig_r = Z1, sig_s = Z6\<rparr>) \<and>
    verify C7 \<lparr>sig_r = Z1, sig_s = Z6\<rparr> Z3 2 = Some (Inr ())"
proof -
  have x: "x_scalar C7 Z2 = Some Z1" by (simp add: x_scalar_def gf_of_def)
  let ?run = "map_panic (\<lambda>i. phase5_local_sig C7 ([Z1, Z3] ! i) 2 Z2 ([Z2, Z3] ! i) Z3 Z1 Z1)
      [0..<length [Z1, Z3]]"
  obtain lss where lss: "?run = Some lss"
    by (simp add: upt_conv_Cons phase5_local_sig_def x)
  have "sum_list [Z1, Z3] * Z2 = 1" "sum_list [Z2, Z3] = sum_list [Z1, Z3] * Z3"
    "fe_from C7 2 + Z1 * Z3 \<noteq> 0" "Z2 = smul C7 (generator C7) Z2" "Z3 = smul C7 (generator C7) Z3"
    "sum_list [Z1, Z3] * (fe_from C7 2 + Z1 * Z3) = Z6" "length [Z2, Z3] = length [Z1, Z3]"
    "1 < length [Z1, Z3]"
    by (simp_all add: gf7_defs gf_of_def)
  from threshold_signature_valid [OF curve_laws_C7 this(7,1-5) x lss this(8)] lss this(6)
  show ?thesis by (auto simp: Let_def)
qed

end
