(* ===== verification/Any_Board.thy ===== *)
theory Any_Board
  imports Sign_Run Key_Gen_Correct Signing_Correct
begin

text \<open>
  What the two programs guarantee over any board: nothing is assumed about the server or about the
  messages that it returns, which may come from dishonest parties. \<open>yields m Q\<close> says that every
  result of a program satisfies \<open>Q\<close>; its rules follow the structure of the programs.
\<close>

section \<open>Results of programs\<close>

definition yields :: "('w, 'a) prog \<Rightarrow> ('a \<Rightarrow> bool) \<Rightarrow> bool" where
  "yields m Q \<longleftrightarrow> (\<forall>w a w'. m w = Some (Some a, w') \<longrightarrow> Q a)"

lemma yieldsD: "yields m Q \<Longrightarrow> m w = Some (Some a, w') \<Longrightarrow> Q a"
  by (auto simp: yields_def)

lemma yields_any: "yields m (\<lambda>_. True)"
  by (simp add: yields_def)

lemma yields_ret: "Q a \<Longrightarrow> yields (ret a) Q"
  by (simp add: yields_def ret_def)

lemma yields_try: "(\<And>a. x = Some a \<Longrightarrow> Q a) \<Longrightarrow> yields (try_prog x) Q"
  by (auto simp: yields_def try_prog_def)

lemma yields_bind: "yields m R \<Longrightarrow> (\<And>a. R a \<Longrightarrow> yields (k a) Q) \<Longrightarrow> yields (bind_prog m k) Q"
  by (force simp: yields_def bind_prog_def split: option.splits prod.splits)

lemma yields_bind_any: "(\<And>a. yields (k a) Q) \<Longrightarrow> yields (bind_prog m k) Q"
  by (rule yields_bind [OF yields_any])

lemma yields_bind_try:
  "(\<And>a. x = Some a \<Longrightarrow> yields (k a) Q) \<Longrightarrow> yields (bind_prog (try_prog x) k) Q"
  by (rule yields_bind [OF yields_try])

section \<open>Signing\<close>

lemma expect_Some: "Option.bind x expect = Some a \<longleftrightarrow> x = Some (Inr a)"
  by (cases x) (auto simp: expect_def split: sum.splits)

lemma reveal_yields:
  "yields (sign_reveal C J net thr me uuid ls ds c2 d2) (\<lambda>sig. verify C sig (ls_y ls) (ls_m ls) = Some (Inr ()))"
  unfolding sign_reveal_def case_prod_beta
  by (intro yields_bind_any yields_try output_signature_verifies, simp only: expect_Some)

lemma phase5c_no_others: "phase5c C ls [] coms ps v R b = None"
  by (simp add: phase5c_def vec_get_def split: option.splits)

lemma commit_yields:
  "yields (sign_commit C J net thr me uuid rnd k m R sigma y)
    (\<lambda>out. ls_y (fst out) = y \<and> ls_m (fst out) = m \<and> thr \<noteq> 0)"
  unfolding sign_commit_def Let_def case_prod_beta
  apply (rule yields_bind_try)
  apply (rule yields_bind_any, rule yields_bind_any, rule yields_bind_any, rule yields_bind_any)
  apply (rule yields_bind_try, rule yields_bind_any, rule yields_bind_try)
  apply (rule yields_ret)
  apply (cases "thr = 0")
  apply (auto simp: phase5_local_sig_def phase5c_no_others Let_def bind_eq_Some_conv)
  done

lemma phase5_yields:
  "yields (sign_phase5 C J net thr me uuid rnd k m R sigma y)
    (\<lambda>sig. verify C sig y m = Some (Inr ()) \<and> thr \<noteq> 0)"
  unfolding sign_phase5_def case_prod_beta
  apply (rule yields_bind [OF commit_yields])
  apply (elim conjE, hypsubst)
  apply (simp add: yields_def)
  apply (use reveal_yields in \<open>fastforce simp: yields_def\<close>)
  done

lemma session_yields:
  "yields (sign_session C P G J net thr me uuid rnd kf message)
    (\<lambda>sig. verify C sig (kf_y_sum kf) (message_bn G message) = Some (Inr ()) \<and> thr \<noteq> 0)"
  unfolding sign_session_def case_prod_beta by (intro yields_bind_any phase5_yields)

text \<open>C4: No invalid signature is ever written: over every board, whatever the other signers and the
  server answer, if \<open>sign\<close> writes a file then the file is \<open>signature\<close>, and it holds the two numbers of
  a signature that verifies for the message of the command line under the group key in the key file
  of the command line.\<close>

theorem sign_writes_only_valid_signatures:
  "yields (sign_main C P G J net hex parse_keys parse_conf element hex16 sys rnd) (\<lambda>(path, tuple).
     path = ''signature'' \<and>
     (\<exists>data kf sig. os_files sys (os_args sys ! 2) = Some data \<and> parse_keys data = Some kf \<and>
        tuple = signature_tuple G element hex16 sig \<and>
        verify C sig (kf_y_sum kf) (message_bn G (message_bytes hex (os_args sys ! 3))) = Some (Inr ())))"
  unfolding sign_main_def Let_def
  apply (rule yields_bind_any, rule yields_bind_try, rule yields_bind_try)
  apply (rule yields_bind_any, rule yields_bind_any, rule yields_bind_any, rule yields_bind_any)
  apply (split sum.split, intro conjI allI impI)
   apply (rule yields_try, simp)
  apply (rule yields_bind [OF session_yields])
  apply (auto simp: write_file_def intro!: yields_ret yields_try)
  done

text \<open>C17: With a threshold of 0 (sessions of one signer) no run of \<open>sign\<close> ends with a signature, over any
  board: phases 4 and 5 add up the points of the other signers starting from the first of them, and
  panic when there is none.\<close>

theorem threshold_zero_never_signs:
  "sign_session C P G J net 0 me uuid rnd kf message w \<noteq> Some (Some sig, w')"
  using yieldsD [OF session_yields [of C P G J net 0 me uuid rnd kf message]] by blast

section \<open>Key generation\<close>

lemma phase1_Inr:
  assumes "phase1_verify_com_phase3_verify_correct_key_phase2_distribute C P k params ds bs seed =
    Some (Inr out)"
  shows "length bs = share_count params \<and> (\<forall>b\<in>set bs. correct_key_verify P (bc_correct_key_proof b) (bc_e b))"
proof -
  have len: "length ds = share_count params" "length bs = share_count params"
    using assms
    by (auto simp: phase1_verify_com_phase3_verify_correct_key_phase2_distribute_def split: if_splits)
  then have "\<forall>i < share_count params. decommit_ok C P (ds ! i) (bs ! i)"
    using assms
    by (auto simp: phase1_verify_com_phase3_verify_correct_key_phase2_distribute_def all_lazy_decommit
        split: if_splits prod.splits)
  then show ?thesis using len by (auto simp: decommit_ok_def in_set_conv_nth)
qed

lemma y_sum_of_Some: "y_sum_of ys = Some y \<Longrightarrow> y = sum_list ys"
  by (cases ys) (simp_all add: y_sum_of_def foldl_add_sum vec_get_def)

lemma deal_yields:
  "yields (keygen_deal C P G J net n params me uuid rnd ks) (\<lambda>(bs, ys, y, v, xs).
     length bs = share_count params \<and> y = sum_list ys \<and>
     (\<forall>b\<in>set bs. correct_key_verify P (bc_correct_key_proof b) (bc_e b)))"
  unfolding keygen_deal_def Let_def case_prod_beta
  apply (rule yields_bind_any, rule yields_bind_any, rule yields_bind_any, rule yields_bind_any)
  apply (rule yields_bind_any, rule yields_bind_any, rule yields_bind_try, rule yields_bind_try)
  apply (rule yields_bind_any, rule yields_bind_any, rule yields_bind_any, rule yields_ret)
  apply (auto simp: expect_Some dest!: phase1_Inr y_sum_of_Some)
  done

text \<open>What \<open>sign\<close> relies on in a key file of \<open>n\<close> parties.\<close>

definition key_file_ok ::
  "('fe::field, 'ge::ab_group_add, 'dlp, 'egp, 'vss) curv \<Rightarrow> ('ek, 'dk, 'ckp) paillier \<Rightarrow> nat \<Rightarrow>
   ('fe, 'ge, 'ek, 'dk, 'vss) key_file \<Rightarrow> bool" where
  "key_file_ok C P n kf \<longleftrightarrow>
     length (kf_vss kf) = n \<and> length (kf_paillier kf) = n \<and>
     k_y_i (kf_keys kf) = smul C (generator C) (k_u_i (kf_keys kf)) \<and>
     sh_y (kf_shared kf) = kf_y_sum kf \<and>
     (\<Sum>v\<leftarrow>kf_vss kf. hd (vss_commitments C v)) = kf_y_sum kf \<and>
     smul C (generator C) (sh_x_i (kf_shared kf)) = (\<Sum>v\<leftarrow>kf_vss kf. vss_point C v (unat (kf_party kf))) \<and>
     (\<forall>ek\<in>set (kf_paillier kf). \<exists>pf. correct_key_verify P pf ek)"

lemma phase2_checked:
  assumes "curve_laws C" "vss_laws C (threshold params) (share_count params)"
    and "phase2_verify_vss_construct_keypair_phase3_pok_dlog C params ys xs vs j seed = Some (Inr out)"
  shows "length vs = share_count params \<and> sh_y (fst out) = sum_list ys \<and>
    (\<Sum>v\<leftarrow>vs. hd (vss_commitments C v)) = sum_list ys \<and>
    smul C (generator C) (sh_x_i (fst out)) = (\<Sum>v\<leftarrow>vs. vss_point C v j)"
  using phase2_commits [OF assms(1,2), of ys xs vs j seed "fst out" "snd out"] assms(3) by simp

lemma confirm_yields:
  assumes "curve_laws C" "vss_laws C (threshold params) (share_count params)"
    and "length bs = share_count params" "share_count params = unat n"
  shows "yields (keygen_confirm C J net n params me uuid rnd bs ys v xs) (\<lambda>(sk, vs, eks).
     length vs = unat n \<and> eks = map bc_e bs \<and> sh_y sk = sum_list ys \<and>
     (\<Sum>v\<leftarrow>vs. hd (vss_commitments C v)) = sum_list ys \<and>
     smul C (generator C) (sh_x_i sk) = (\<Sum>v\<leftarrow>vs. vss_point C v (unat me)))"
proof -
  have eks: "map_panic (\<lambda>i. map_option bc_e (vec_get bs i)) [0..<unat n] = Some (map bc_e bs)"
    using assms(3,4) by (intro map_panic_vec_get) simp
  show ?thesis
    unfolding keygen_confirm_def case_prod_beta eks
    apply (rule yields_bind_any, rule yields_bind_any, rule yields_bind_any, rule yields_bind_try)
    apply (rule yields_bind_any, rule yields_bind_any, rule yields_bind_any, rule yields_bind_any)
    apply (rule yields_bind_try, rule yields_ret)
    apply (use assms(4) in \<open>auto simp: expect_Some dest!: phase2_checked [OF assms(1,2)]\<close>)
    done
qed

text \<open>C5: The key file is consistent, over every board: whatever the other parties and the server
  answered, if \<open>generate_key\<close> reaches the end then its key file has a sharing and a Paillier key,
  with a valid key proof, of each of the \<open>n\<close> parties, its group key is the sum of the first
  commitments of these sharings, and its secret share \<open>x_i\<close> is the discrete logarithm of the point
  that they commit the party to.\<close>

theorem key_file_consistent:
  assumes "curve_laws C" "vss_laws C (unat thr) (unat n)"
  shows "yields (keygen_session C P G J net n thr me uuid rnd)
    (\<lambda>kf. key_file_ok C P (unat n) kf \<and> kf_party kf = me)"
  unfolding keygen_session_def Let_def case_prod_beta
  by (rule yields_bind [OF deal_yields], rule yields_bind [OF confirm_yields [OF assms(1)]])
    (auto simp: assms(2) key_file_ok_def intro!: yields_ret, blast)

section \<open>The two ways to merge a round\<close>

lemma bind_prog_cong:
  "yields m Q \<Longrightarrow> (\<And>a. Q a \<Longrightarrow> k a = k' a) \<Longrightarrow> bind_prog m k = bind_prog m k'"
  by (rule ext) (fastforce simp: yields_def bind_prog_def split: option.splits prod.splits)

lemma poll_list_length: "yields (poll_list net ks) (\<lambda>ans. length ans = length ks)"
proof (induction ks)
  case (Cons k ks)
  then show ?case by (auto intro!: yields_ret yields_bind_any yields_bind [OF Cons.IH])
qed (simp add: yields_ret)

text \<open>\<open>merge_loop\<close> over \<open>usize\<close> and over \<open>u32\<close>.\<close>

lemma merge_loop_usize:
  "merge_loop parse (unat me) own ans j (map unat is) = merge_loop parse me own ans j is"
  by (induction "is" arbitrary: j) (simp_all add: word_unat_eq_iff)

lemma usize_range: "n < - 1 \<Longrightarrow> map unat (u32_range n) = [1..<Suc (unat n)]"
proof -
  assume n: "n < - 1"
  have "unat n < 2 ^ 32" by (rule order_less_le_trans [OF unsigned_less]) simp
  then have "map (unat \<circ> (of_nat :: nat \<Rightarrow> u32)) [1..<Suc (unat n)] = [1..<Suc (unat n)]"
    by (intro map_idI) (auto simp: unat_of_nat)
  then show ?thesis by (simp add: u32_range_def unat_plus_one [OF n] del: upt_Suc)
qed

lemma length_others_u32:
  assumes "n < - 1" "me \<in> set (u32_range n)"
  shows "Suc (length (others me n)) = unat n"
proof -
  have "others me n = remove1 me (u32_range n)"
    by (simp add: others_def distinct_remove1_removeAll distinct_u32_range removeAll_filter_not_eq eq_commute)
  moreover have "length (u32_range n) = unat n" using assms(1) by (intro length_u32_range unat_plus_one)
  moreover have "0 < length (u32_range n)" using assms(2) by auto
  ultimately show ?thesis using assms(2) by (simp add: length_remove1)
qed

text \<open>C15: The two programs merge a round in different ways: \<open>generate_key\<close> with a loop over the party
  numbers, \<open>sign\<close> with \<open>format_vec_from_reads\<close>, which takes its bound from the number of answers and
  compares as \<open>usize\<close>. They are equivalent: a round of \<open>sign\<close> is the same program as a round of
  \<open>generate_key\<close> among \<open>threshold + 1\<close> parties, over every board and with every decoder, panics
  included.\<close>

theorem sign_round_is_keygen_round:
  assumes "thr + 1 < - 1" "me \<in> set (u32_range (thr + 1))"
  shows "exchange enc dec net me thr round uuid own =
    bind_prog (assert_ok (broadcast net me round (enc own) uuid)) (\<lambda>_.
    bind_prog (poll_for_broadcasts net me (thr + 1) round uuid) (\<lambda>ans.
    try_prog (read_round dec me own (thr + 1) ans)))"
proof -
  have merge: "format_vec_from_reads dec ans (unat me) own = read_round dec me own (thr + 1) ans"
    if "length ans = length (others me (thr + 1))" for ans
  proof -
    have "length ans + 2 = Suc (unat (thr + 1))"
      using that length_others_u32 [OF assms] by simp
    then show ?thesis
      using merge_loop_usize [of dec me own ans 0 "u32_range (thr + 1)"]
      by (simp add: format_vec_from_reads_def read_round_def usize_range [OF assms(1)] del: upt_Suc)
  qed
  have len: "yields (poll_for_broadcasts net me (thr + 1) round uuid)
      (\<lambda>ans. length ans = length (others me (thr + 1)))"
    using poll_list_length [of net "map (\<lambda>i. party_key i round uuid []) (others me (thr + 1))"]
    by (simp add: poll_for_broadcasts_def)
  show ?thesis
    unfolding exchange_def
    by (rule arg_cong2 [where f = bind_prog, OF refl], rule ext, rule bind_prog_cong [OF len]) (simp add: merge)
qed

end
