(* ===== verification/Sample_Codecs.thy ===== *)
theory Sample_Codecs
  imports Keygen_Run_Correct Any_Board
begin

text \<open>
  Instances of the codecs of the key-generation messages over \<open>Small_Curve\<close>, of the cipher and of
  the byte form of numbers, which satisfy their laws, and the theorems of
  \<open>Keygen_Run_Correct\<close> and \<open>Any_Board\<close> at a run of two parties.
\<close>

section \<open>Texts\<close>

definition ascii :: "string \<Rightarrow> bool" where
  "ascii s \<longleftrightarrow> list_all (in_range 0 127) s"

lemma ascii_simps [simp]:
  "ascii []" "ascii (c # s) \<longleftrightarrow> in_range 0 127 c \<and> ascii s" "ascii (s @ t) \<longleftrightarrow> ascii s \<and> ascii t"
  "ascii (replicate n c) \<longleftrightarrow> n = 0 \<or> in_range 0 127 c"
  by (auto simp: ascii_def list_all_iff)

lemma ascii_utf8: "ascii s \<Longrightarrow> utf8_valid s"
  by (simp add: ascii_def)

lemma ascii_escape [simp]: "ascii s \<Longrightarrow> ascii (escape s)"
  by (induction s) (simp_all add: in_range_def)

definition int_text :: "int \<Rightarrow> string" where
  "int_text x = (if x < 0 then CHR ''-'' # replicate (nat (- x)) CHR ''1'' else replicate (nat x) CHR ''1'')"

definition parse_int_text :: "string \<Rightarrow> int" where
  "parse_int_text s = (case s of c # t \<Rightarrow> if c = CHR ''-'' then - int (length t) else int (length s) | [] \<Rightarrow> 0)"

lemma parse_int_text [simp]: "parse_int_text (int_text x) = x"
proof (cases "x \<le> 0")
  case True
  then show ?thesis by (cases "x = 0") (simp_all add: parse_int_text_def int_text_def)
next
  case False
  then obtain k where "nat x = Suc k" by (metis not_le zero_less_nat_eq gr0_implies_Suc)
  then have "x = 1 + int k" by linarith
  then show ?thesis using \<open>nat x = Suc k\<close> by (simp add: parse_int_text_def int_text_def)
qed

lemma ascii_int_text [simp]: "ascii (int_text x)"
  by (simp add: int_text_def in_range_def)

fun bytes_text :: "string \<Rightarrow> string" where
  "bytes_text [] = []"
| "bytes_text (c # s) = replicate (of_char c) CHR ''1'' @ CHR ''0'' # bytes_text s"

fun parse_bytes_text :: "nat \<Rightarrow> string \<Rightarrow> string" where
  "parse_bytes_text n [] = []"
| "parse_bytes_text n (c # s) =
     (if c = CHR ''0'' then char_of n # parse_bytes_text 0 s else parse_bytes_text (Suc n) s)"

lemma parse_bytes_ones: "parse_bytes_text n (replicate k CHR ''1'' @ s) = parse_bytes_text (n + k) s"
  by (induction k arbitrary: n) simp_all

lemma parse_bytes_text [simp]: "parse_bytes_text 0 (bytes_text s) = s"
  by (induction s) (simp_all add: parse_bytes_ones)

lemma ascii_bytes_text [simp]: "ascii (bytes_text s)"
  by (induction s) (simp_all add: in_range_def)

definition gf_text :: "gf7 list \<Rightarrow> string" where
  "gf_text gs = map (\<lambda>g. char_of (48 + nat (gf_to g))) gs"

definition parse_gf_text :: "string \<Rightarrow> gf7 list" where
  "parse_gf_text s = map (\<lambda>c. gf_of (int (of_char c) - 48)) s"

lemma gf_to_small: "nat (gf_to g) < 7"
  using gf_to_range [of g] by (simp add: nat_less_iff)

lemma parse_gf_text [simp]: "parse_gf_text (gf_text gs) = gs"
proof -
  have "gf_of (int (of_char (char_of (48 + nat (gf_to g)) :: char)) - 48) = g" for g
    using gf_to_small [of g] gf_to_range [of g] by (simp add: of_char_of)
  then show ?thesis by (simp add: parse_gf_text_def gf_text_def comp_def map_idI)
qed

lemma ascii_gf_text [simp]: "ascii (gf_text gs)"
proof -
  have "in_range 0 127 (char_of (48 + nat (gf_to g)))" for g
    using gf_to_small [of g] by (simp add: in_range_def of_char_of)
  then show ?thesis by (simp add: ascii_def gf_text_def list_all_iff)
qed

definition pair_text :: "string \<Rightarrow> string \<Rightarrow> string" where
  "pair_text s t = escape s @ escape t"

definition parse_pair_text :: "string \<Rightarrow> (string \<times> string) option" where
  "parse_pair_text s = do { (a, s) \<leftarrow> unescape s; (b, s) \<leftarrow> unescape s; Some (a, b) }"

lemma parse_pair_text [simp]: "parse_pair_text (pair_text s t) = Some (s, t)"
  using unescape_escape [of t "[]"] by (simp add: parse_pair_text_def pair_text_def)

lemma ascii_pair_text [simp]: "ascii s \<Longrightarrow> ascii t \<Longrightarrow> ascii (pair_text s t)"
  by (simp add: pair_text_def)

section \<open>The instances\<close>

definition json7 :: "(gf7, int, unit, gf7 list, gf7) keygen_json" where
  "json7 = \<lparr>
     enc_bc = (\<lambda>b. pair_text (int_text (bc_e b)) (int_text (bc_com b))),
     dec_bc = (\<lambda>s. map_option (\<lambda>(e, c). \<lparr>bc_e = parse_int_text e, bc_com = parse_int_text c,
       bc_correct_key_proof = ()\<rparr>) (parse_pair_text s)),
     enc_de = (\<lambda>d. pair_text (int_text (de_blind_factor d)) (gf_text [de_y_i d])),
     dec_de = (\<lambda>s. map_option (\<lambda>(b, y). \<lparr>de_blind_factor = parse_int_text b,
       de_y_i = hd (parse_gf_text y)\<rparr>) (parse_pair_text s)),
     enc_aead = (\<lambda>a. pair_text (bytes_text (ae_ciphertext a)) (bytes_text (ae_tag a))),
     dec_aead = (\<lambda>s. map_option (\<lambda>(c, t). \<lparr>ae_ciphertext = parse_bytes_text 0 c,
       ae_tag = parse_bytes_text 0 t\<rparr>) (parse_pair_text s)),
     enc_vss = gf_text, dec_vss = (\<lambda>s. Some (parse_gf_text s)),
     enc_dlog = (\<lambda>g. gf_text [g]), dec_dlog = (\<lambda>s. Some (hd (parse_gf_text s)))\<rparr>"

lemma json7_laws: "keygen_json_laws json7"
  by (simp add: keygen_json_laws_def json7_def ascii_utf8)

text \<open>The cipher keeps the message and tags it with the key.\<close>

definition gcm7 :: gcm_lib where
  "gcm7 = \<lparr>gcm_encrypt = (\<lambda>key nonce m. Some \<lparr>ae_ciphertext = m, ae_tag = key @ nonce\<rparr>),
     gcm_decrypt = (\<lambda>key nonce a. Some (if ae_tag a = key @ nonce then Some (ae_ciphertext a) else None)),
     to_vec = int_text, from_vec = parse_int_text\<rparr>"

lemma gcm7_laws: "bytes_laws gcm7" "gcm_key_ok gcm7 key"
  by (simp_all add: bytes_laws_def gcm_key_ok_def gcm7_def)

section \<open>A run of two parties\<close>

definition rnd7 :: "u32 \<Rightarrow> gf7 keygen_rnd" where
  "rnd7 i = (if i = 1 then \<lparr>kr_u = Z3, kr_kp = 0, kr_blind = 11, kr_vss = 4, kr_dlog = 5\<rparr>
     else \<lparr>kr_u = Z5, kr_kp = 1, kr_blind = 12, kr_vss = 8, kr_dlog = 6\<rparr>)"

lemma range2: "u32_range 2 = [1, 2]" "others 1 2 = [2]"
proof -
  have "unat (2 + 1 :: u32) = 3" by simp
  then show "u32_range 2 = [1, 2]" by (simp add: u32_range_def upt_rec)
  then show "others 1 2 = [2]" by (simp add: others_def)
qed

lemma pair7: "pair_ok C7 gcm7 (honest_point C7 rnd7 i) (honest_point C7 rnd7 j)"
  by (auto simp: pair_ok_def enc_key_def honest_point_def rnd7_def gcm7_laws gf7_defs gf_of_def)

abbreviation script7 :: script where
  "script7 \<equiv> keygen_script C7 P7 gcm7 json7 1 2 rnd7"

lemma params7: "vss_laws C7 (unat (1 :: u32)) (unat (2 :: u32))" "(2 :: u32) < - 1"
  using vss_laws_C7 [of 2] by (simp_all add: word_less_nat_alt unsigned_minus_1_eq_mask mask_eq_exp_minus_1)

text \<open>A board on which the messages of the others are already there, as a net without a state.\<close>

definition canned_net :: "(tuple_key \<rightharpoonup> string) \<Rightarrow> unit net" where
  "canned_net M =
     \<lparr>post = (\<lambda>path body w. case body of
         Body_Entry e \<Rightarrow> (Get_Ok (Some []), w)
       | Body_Index i \<Rightarrow> (case M (ix_key i) of Some v \<Rightarrow> (Get_Ok (Some v), w) | None \<Rightarrow> (Get_Err, w))
       | Body_Key k \<Rightarrow> (Get_Err, w)),
      dec_signup = (\<lambda>_. None), dec_unit = (\<lambda>_. Some (Inr ())),
      dec_entry = (\<lambda>t. Some (Inr \<lparr>en_key = keygen_key, en_value = t\<rparr>))\<rparr>"

interpretation canned: session_board "canned_net M" "\<lambda>k v. True" "\<lambda>K w. True" "\<lambda>K k v. M k = Some v"
  "\<lambda>_. False" for M
proof
  fix k :: tuple_key and v :: string
  have "request_answer (canned_net M) ''set'' (Body_Entry \<lparr>en_key = k, en_value = v\<rparr>)
      (dec_unit (canned_net M)) w = (Some (Inr ()), w)" for w
    by (rule request_answer_ok) (simp_all add: canned_net_def)
  then show "runs (\<lambda>_. False) (\<lambda>_. True) (assert_ok (request_answer (canned_net M) ''set''
      (Body_Entry \<lparr>en_key = k, en_value = v\<rparr>) (dec_unit (canned_net M)))) () (\<lambda>_. True)"
    by (simp add: runs_def assert_ok_def act_prog_def and_then_def done_with_def)
  assume "M k = Some v"
  then have "get_entry (canned_net M) \<lparr>ix_key = k\<rparr> w = (Some (Inr \<lparr>en_key = keygen_key, en_value = v\<rparr>), w)" for w
    unfolding get_entry_def by (intro request_answer_ok) (simp_all add: canned_net_def)
  then show "runs (\<lambda>_. False) (\<lambda>_. True) (poll (canned_net M) \<lparr>ix_key = k\<rparr>) v (\<lambda>_. True)"
    unfolding runs_def by (subst poll.simps) simp
qed

lemma canned_plays:
  assumes "distinct (map fst script)" "M = board_of (written 2 uuid script 2 (length script))"
  shows "canned.plays M 2 uuid script 1"
proof -
  have "M k = Some v" if "r < length script" "(k, v) \<in> set (reads 2 uuid 1 (script ! r))" for r k v
  proof -
    have "(k, v) \<in> set (sends 2 uuid 2 (script ! r))"
      using reads_sends [OF _ that(2)] by (simp add: range2)
    then show ?thesis
      using written_sends [OF that(1,1)] distinct_written [OF assms(1)] unfolding assms(2)
      by (intro board_of_distinct) auto
  qed
  then show ?thesis by (auto simp: canned.plays_def)
qed

theorem key_file_consistent_witness: "key_file_ok C7 P7 2 (honest_key_file C7 P7 1 2 rnd7 1)"
proof -
  let ?M = "board_of (written 2 ''u'' script7 2 (length script7))"
  have "distinct (map fst script7)"
    using keygen_script_ok [OF json7_laws, of C7 P7 gcm7 1 2 rnd7] by (simp add: script_ok_def)
  note plays = canned_plays [OF this refl, of "''u''"]
  have "runs (\<lambda>_. False) (canned.after 2 ''u'' script7 1 0)
      (keygen_session C7 P7 gcm7 json7 (canned_net ?M) 2 1 1 ''u'' (rnd7 1))
      (honest_key_file C7 P7 1 2 rnd7 1) (canned.after 2 ''u'' script7 1 5)"
    by (rule canned.honest_session_runs [OF curve_laws_C7 proof_laws_C7 params7(1) paillier_laws_P7
        gcm7_laws(1) json7_laws params7(2) _ _ plays]) (simp_all add: range2 pair7)
  from runs_endE [OF this, of "()"] obtain w' where run: "keygen_session C7 P7 gcm7 json7 (canned_net ?M) 2 1 1
      ''u'' (rnd7 1) () = Some (Some (honest_key_file C7 P7 1 2 rnd7 1), w')"
    by (auto simp: canned.after_def)
  from yieldsD [OF key_file_consistent [OF curve_laws_C7 params7(1)] run] show ?thesis by simp
qed

text \<open>A round of two signers, over the sample server.\<close>

theorem sign_round_is_keygen_round_witness:
  "exchange int_text (\<lambda>s. Some (parse_int_text s)) (http_net plain_codec None []) 1 1 ''round3'' ''u'' 5
      (log_dht, esc_codecs, fresh_state) =
    bind_prog (assert_ok (broadcast (http_net plain_codec None []) 1 ''round3'' (int_text 5) ''u'')) (\<lambda>_.
    bind_prog (poll_for_broadcasts (http_net plain_codec None []) 1 2 ''round3'' ''u'') (\<lambda>ans.
    try_prog (read_round (\<lambda>s. Some (parse_int_text s)) 1 5 2 ans))) (log_dht, esc_codecs, fresh_state)"
proof -
  have "(1 :: u32) + 1 < - 1" "(1 :: u32) \<in> set (u32_range (1 + 1))"
    using params7(2) by (simp_all add: range2)
  then show ?thesis by (simp add: sign_round_is_keygen_round)
qed

theorem observer_recovers_dealer_secret_witness:
  "(\<Sum>j\<leftarrow>[1, 3]. vss_map_share C7 (fst (honest_deal C7 1 3 rnd7 2)) (unat j - 1)
      (map (\<lambda>j. unat j - 1) [1 :: u32, 3]) *
    the (open_share C7 gcm7
      (the (enc_key C7 (de_y_i (snd (honest_phase1 C7 P7 rnd7 2))) (de_y_i (snd (honest_phase1 C7 P7 rnd7 j)))))
      (honest_pack C7 gcm7 1 3 rnd7 2 j))) = Z5"
proof -
  have "vss_laws C7 (unat (1 :: u32)) (unat (3 :: u32))" using vss_laws_C7 [of 3] by simp
  from observer_recovers_dealer_secret [OF curve_laws_C7 gcm7_laws(1) this, of "[1, 3]" 2 rnd7 P7]
  show ?thesis by (simp add: pair7 rnd7_def)
qed

end
