(* ===== verification/Honest_Signing.thy ===== *)
theory Honest_Signing
  imports Sign_Run Keygen_Run_Correct Signing_Correct
begin

text \<open>
  What honest signers compute, step by step, when they sign with the key files of an honest key
  generation: the values of every round of \<open>sign.rs\<close> as functions of the signer, and the facts
  about them that its steps need.
\<close>

section \<open>Indices\<close>

lemma filter_without_nth:
  assumes "distinct xs" "j < length xs"
  shows "filter (\<lambda>x. x \<noteq> xs ! j) xs = without_nth j xs"
proof -
  have xs: "xs = take j xs @ xs ! j # drop (Suc j) xs" using assms(2) by (rule id_take_nth_drop)
  then have "xs ! j \<notin> set (take j xs)" "xs ! j \<notin> set (drop (Suc j) xs)"
    using assms(1) by (metis disjoint_iff distinct_append distinct.simps(2) list.set_intros(1))+
  then have "filter (\<lambda>x. x \<noteq> xs ! j) (take j xs) = take j xs"
    "filter (\<lambda>x. x \<noteq> xs ! j) (drop (Suc j) xs) = drop (Suc j) xs"
    by (auto simp: filter_id_conv)
  then have "filter (\<lambda>x. x \<noteq> xs ! j) (take j xs @ xs ! j # drop (Suc j) xs) = without_nth j xs"
    by (simp add: without_nth_def)
  then show ?thesis using xs by simp
qed

lemma others_without:
  assumes "q < - 1" "i \<in> set (u32_range q)"
  shows "others i q = without_nth (unat i - 1) (u32_range q)"
proof -
  have "length (u32_range q) = unat q" using assms(1) by (intro length_u32_range unat_plus_one)
  then show ?thesis
    using filter_without_nth [OF distinct_u32_range, of "unat i - 1" q] u32_range_index [OF assms]
    by (simp add: others_def)
qed

lemma map_u32_range:
  "q < - 1 \<Longrightarrow> map f (u32_range q) = map (\<lambda>j. f (u32_range q ! j)) [0..<unat q]"
  by (intro nth_equalityI) (simp_all add: length_u32_range unat_plus_one)

lemma map_others:
  assumes "q < - 1" "i \<in> set (u32_range q)"
  shows "map f (others i q) = map (\<lambda>j. f (u32_range q ! j)) (other_signers (unat i - 1) (unat q))"
proof -
  have "map (\<lambda>j. f (u32_range q ! j)) (other_signers (unat i - 1) (unat q)) =
      without_nth (unat i - 1) (map (\<lambda>j. f (u32_range q ! j)) [0..<unat q])"
    by (simp add: other_signers_def map_without_nth)
  also have "\<dots> = without_nth (unat i - 1) (map f (u32_range q))"
    by (simp only: map_u32_range [OF assms(1), of f])
  finally show ?thesis by (simp add: others_without [OF assms] map_without_nth)
qed

lemma vec_get_range:
  assumes "q < - 1" "i \<in> set (u32_range q)"
  shows "vec_get (map f (u32_range q)) (unat (i - 1)) = Some (f i)"
  using u32_range_index [OF assms] length_u32_range [OF unat_plus_one [OF assms(1)]]
  by (simp add: vec_get_def)

lemma vec_remove_range:
  assumes "q < - 1" "i \<in> set (u32_range q)"
  shows "vec_remove (map f (u32_range q)) (unat (i - 1)) = Some (f i, map f (others i q))"
  using u32_range_index [OF assms] length_u32_range [OF unat_plus_one [OF assms(1)]]
  by (simp add: vec_remove_def others_without [OF assms] map_without_nth)

section \<open>The values of the rounds\<close>

text \<open>A signing session: the parties and the draws of the key generation, the party number of every
  signer, the draws of the signers, and the message.\<close>

record 'fe signing =
  sg_parties :: u32
  sg_thr :: u32
  sg_keygen :: "u32 \<Rightarrow> 'fe keygen_rnd"
  sg_party :: "u32 \<Rightarrow> u32"
  sg_draws :: "u32 \<Rightarrow> 'fe sign_rnd"
  sg_message :: int

definition sg_count :: "('fe, 'z) signing_scheme \<Rightarrow> u32" where
  "sg_count X = sg_thr X + 1"

definition sg_index :: "('fe, 'z) signing_scheme \<Rightarrow> u32 \<Rightarrow> nat" where
  "sg_index X i = unat (sg_party X i - 1)"

definition sg_list :: "('fe, 'z) signing_scheme \<Rightarrow> nat list" where
  "sg_list X = map (sg_index X) (u32_range (sg_count X))"

definition sg_file ::
  "('fe::field, 'ge::ab_group_add, 'dlp, 'egp, 'vss) curv \<Rightarrow> ('ek, 'dk, 'ckp) paillier \<Rightarrow>
   ('fe, 'z) signing_scheme \<Rightarrow> u32 \<Rightarrow> ('fe, 'ge, 'ek, 'dk, 'vss) key_file" where
  "sg_file C P X i = honest_key_file C P (sg_thr X) (sg_parties X) (sg_keygen X) (sg_party X i)"

definition sg_vss ::
  "('fe::field, 'ge::ab_group_add, 'dlp, 'egp, 'vss) curv \<Rightarrow> ('fe, 'z) signing_scheme \<Rightarrow> u32 \<Rightarrow> 'vss" where
  "sg_vss C X i = fst (honest_deal C (sg_thr X) (sg_parties X) (sg_keygen X) (sg_party X i))"

definition sg_keys ::
  "('fe::field, 'ge::ab_group_add, 'dlp, 'egp, 'vss) curv \<Rightarrow> ('ek, 'dk, 'ckp) paillier \<Rightarrow>
   ('fe, 'z) signing_scheme \<Rightarrow> u32 \<Rightarrow> ('fe, 'ge) sign_keys" where
  "sg_keys C P X i =
     sign_keys_create C (set_private (kf_keys (sg_file C P X i)) (kf_shared (sg_file C P X i)))
       (sg_vss C X i) (sg_index X i) (sg_list X) (sr_gamma (sg_draws X i)) (sr_k (sg_draws X i))"

definition sg_ek :: "('ek, 'dk, 'ckp) paillier \<Rightarrow> ('fe, 'z) signing_scheme \<Rightarrow> u32 \<Rightarrow> 'ek" where
  "sg_ek P X i = fst (keypair P (kr_kp (sg_keygen X (sg_party X i))))"

definition sg_dk :: "('ek, 'dk, 'ckp) paillier \<Rightarrow> ('fe, 'z) signing_scheme \<Rightarrow> u32 \<Rightarrow> 'dk" where
  "sg_dk P X i = snd (keypair P (kr_kp (sg_keygen X (sg_party X i))))"

text \<open>Round 1: the commitment, its opening and the message \<open>A\<close>.\<close>

definition sg_phase1 ::
  "('fe::field, 'ge::ab_group_add, 'dlp, 'egp, 'vss) curv \<Rightarrow> ('ek, 'dk, 'ckp) paillier \<Rightarrow>
   ('fe, 'z) signing_scheme \<Rightarrow> u32 \<Rightarrow> sign_broadcast_phase1 \<times> 'ge sign_decommit_phase1" where
  "sg_phase1 C P X i = phase1_broadcast C (sg_keys C P X i) (sr_blind (sg_draws X i))"

definition sg_ma ::
  "('fe::field, 'ge::ab_group_add, 'dlp, 'egp, 'vss) curv \<Rightarrow> ('ek, 'dk, 'ckp) paillier \<Rightarrow>
   ('fe, 'z) signing_scheme \<Rightarrow> u32 \<Rightarrow> message_a" where
  "sg_ma C P X i = message_a C P (k_i (sg_keys C P X i)) (sg_ek P X i) (sr_ma (sg_draws X i))"

text \<open>Round 2: the messages \<open>B\<close> from \<open>i\<close> to \<open>j\<close>, the shares that \<open>i\<close> keeps of them, and the
  shares that \<open>i\<close> gets from \<open>j\<close>.\<close>

definition sg_mb_gamma ::
  "('fe::field, 'ge::ab_group_add, 'dlp, 'egp, 'vss) curv \<Rightarrow> ('ek, 'dk, 'ckp) paillier \<Rightarrow>
   ('fe, 'z) signing_scheme \<Rightarrow> u32 \<Rightarrow> u32 \<Rightarrow> 'dlp message_b \<times> 'fe" where
  "sg_mb_gamma C P X i j =
     message_b C P (gamma_i (sg_keys C P X i)) (sg_ek P X j) (sg_ma C P X j) (sr_mb_gamma (sg_draws X i) j)"

definition sg_mb_w ::
  "('fe::field, 'ge::ab_group_add, 'dlp, 'egp, 'vss) curv \<Rightarrow> ('ek, 'dk, 'ckp) paillier \<Rightarrow>
   ('fe, 'z) signing_scheme \<Rightarrow> u32 \<Rightarrow> u32 \<Rightarrow> 'dlp message_b \<times> 'fe" where
  "sg_mb_w C P X i j =
     message_b C P (w_i (sg_keys C P X i)) (sg_ek P X j) (sg_ma C P X j) (sr_mb_w (sg_draws X i) j)"

definition sg_alpha ::
  "('fe::field, 'ge::ab_group_add, 'dlp, 'egp, 'vss) curv \<Rightarrow> ('ek, 'dk, 'ckp) paillier \<Rightarrow>
   ('fe, 'z) signing_scheme \<Rightarrow> u32 \<Rightarrow> u32 \<Rightarrow> 'fe" where
  "sg_alpha C P X i j = fe_from C (mta_plain C (k_i (sg_keys C P X i)) (gamma_i (sg_keys C P X j))
     (mb_beta_tag (sr_mb_gamma (sg_draws X j) i)))"

definition sg_miu ::
  "('fe::field, 'ge::ab_group_add, 'dlp, 'egp, 'vss) curv \<Rightarrow> ('ek, 'dk, 'ckp) paillier \<Rightarrow>
   ('fe, 'z) signing_scheme \<Rightarrow> u32 \<Rightarrow> u32 \<Rightarrow> 'fe" where
  "sg_miu C P X i j = fe_from C (mta_plain C (k_i (sg_keys C P X i)) (w_i (sg_keys C P X j))
     (mb_beta_tag (sr_mb_w (sg_draws X j) i)))"

text \<open>Round 3: the additive shares of the two products.\<close>

definition sg_delta ::
  "('fe::field, 'ge::ab_group_add, 'dlp, 'egp, 'vss) curv \<Rightarrow> ('ek, 'dk, 'ckp) paillier \<Rightarrow>
   ('fe, 'z) signing_scheme \<Rightarrow> u32 \<Rightarrow> 'fe" where
  "sg_delta C P X i = k_i (sg_keys C P X i) * gamma_i (sg_keys C P X i) +
     ((\<Sum>j\<leftarrow>others i (sg_count X). sg_alpha C P X i j) +
      (\<Sum>j\<leftarrow>others i (sg_count X). snd (sg_mb_gamma C P X i j)))"

definition sg_sigma ::
  "('fe::field, 'ge::ab_group_add, 'dlp, 'egp, 'vss) curv \<Rightarrow> ('ek, 'dk, 'ckp) paillier \<Rightarrow>
   ('fe, 'z) signing_scheme \<Rightarrow> u32 \<Rightarrow> 'fe" where
  "sg_sigma C P X i = k_i (sg_keys C P X i) * w_i (sg_keys C P X i) +
     ((\<Sum>j\<leftarrow>others i (sg_count X). sg_miu C P X i j) +
      (\<Sum>j\<leftarrow>others i (sg_count X). snd (sg_mb_w C P X i j)))"

definition sg_delta_inv ::
  "('fe::field, 'ge::ab_group_add, 'dlp, 'egp, 'vss) curv \<Rightarrow> ('ek, 'dk, 'ckp) paillier \<Rightarrow>
   ('fe, 'z) signing_scheme \<Rightarrow> 'fe" where
  "sg_delta_inv C P X = phase3_reconstruct_delta C (map (sg_delta C P X) (u32_range (sg_count X)))"

text \<open>Round 4: the nonce point; round 5: the local signatures.\<close>

definition sg_kinv ::
  "('fe::field, 'ge::ab_group_add, 'dlp, 'egp, 'vss) curv \<Rightarrow> ('ek, 'dk, 'ckp) paillier \<Rightarrow>
   ('fe, 'z) signing_scheme \<Rightarrow> 'fe" where
  "sg_kinv C P X = (\<Sum>i\<leftarrow>u32_range (sg_count X). gamma_i (sg_keys C P X i)) * sg_delta_inv C P X"

definition sg_R ::
  "('fe::field, 'ge::ab_group_add, 'dlp, 'egp, 'vss) curv \<Rightarrow> ('ek, 'dk, 'ckp) paillier \<Rightarrow>
   ('fe, 'z) signing_scheme \<Rightarrow> 'ge" where
  "sg_R C P X = smul C (generator C) (sg_kinv C P X)"

definition sg_x :: "('fe::field, 'z) signing_scheme \<Rightarrow> 'fe" where
  "sg_x X = (\<Sum>i\<leftarrow>u32_range (sg_parties X). kr_u (sg_keygen X i))"

definition sg_y ::
  "('fe::field, 'ge::ab_group_add, 'dlp, 'egp, 'vss) curv \<Rightarrow> ('fe, 'z) signing_scheme \<Rightarrow> 'ge" where
  "sg_y C X = smul C (generator C) (sg_x X)"

definition sg_local ::
  "('fe::field, 'ge::ab_group_add, 'dlp, 'egp, 'vss) curv \<Rightarrow> ('ek, 'dk, 'ckp) paillier \<Rightarrow>
   ('fe, 'z) signing_scheme \<Rightarrow> u32 \<Rightarrow> ('fe, 'ge) local_signature" where
  "sg_local C P X i =
     the (phase5_local_sig C (k_i (sg_keys C P X i)) (sg_message X) (sg_R C P X) (sg_sigma C P X i)
       (sg_y C X) (sr_l (sg_draws X i)) (sr_rho (sg_draws X i)))"

definition sg_locals ::
  "('fe::field, 'ge::ab_group_add, 'dlp, 'egp, 'vss) curv \<Rightarrow> ('ek, 'dk, 'ckp) paillier \<Rightarrow>
   ('fe, 'z) signing_scheme \<Rightarrow> ('fe, 'ge) local_signature list" where
  "sg_locals C P X = map (sg_local C P X) (u32_range (sg_count X))"

text \<open>Rounds 5 and 6, and rounds 7 and 8, where \<open>r\<close> is the first part of the signature.\<close>

definition sg_5a ::
  "('fe::field, 'ge::ab_group_add, 'dlp, 'egp, 'vss) curv \<Rightarrow> ('ek, 'dk, 'ckp) paillier \<Rightarrow>
   ('fe, 'z) signing_scheme \<Rightarrow> u32 \<Rightarrow> phase5_com1 \<times> 'ge phase5a_decom1 \<times> 'egp" where
  "sg_5a C P X i =
     phase5a_broadcast_5b_zkproof C (sg_local C P X i) (sr_blind5a (sg_draws X i)) (sr_seed5b (sg_draws X i))"

definition sg_5c ::
  "('fe::field, 'ge::ab_group_add, 'dlp, 'egp, 'vss) curv \<Rightarrow> ('ek, 'dk, 'ckp) paillier \<Rightarrow>
   ('fe, 'z) signing_scheme \<Rightarrow> 'fe \<Rightarrow> u32 \<Rightarrow> phase5_com2 \<times> 'ge phase5d_decom2" where
  "sg_5c C P X r i =
     (let d2 = decom2_of C (sg_locals C P X)
            (sig_error C (sg_locals C P X) (sg_R C P X) (sg_message X) (sg_y C X) r)
            (sg_local C P X i) (sr_blind5c (sg_draws X i))
      in (\<lparr>com2 = create_commitment C (hash_from_ge C [d2_u_i d2, d2_t_i d2]) (sr_blind5c (sg_draws X i))\<rparr>,
          d2))"

text \<open>The signature.\<close>

definition sg_signature ::
  "('fe::field, 'ge::ab_group_add, 'dlp, 'egp, 'vss) curv \<Rightarrow> ('ek, 'dk, 'ckp) paillier \<Rightarrow>
   ('fe, 'z) signing_scheme \<Rightarrow> 'fe \<Rightarrow> 'fe signature" where
  "sg_signature C P X r =
     \<lparr>sig_r = r, sig_s = (\<Sum>i\<leftarrow>u32_range (sg_count X). k_i (sg_keys C P X i)) *
       (fe_from C (sg_message X) + r * sg_x X)\<rparr>"

section \<open>Honest sessions\<close>

text \<open>At least two signers, who are different parties of the key generation.\<close>

definition signers_ok :: "('fe, 'z) signing_scheme \<Rightarrow> bool" where
  "signers_ok X \<longleftrightarrow> 1 \<le> sg_thr X \<and> sg_thr X < - 2 \<and> sg_parties X < - 1 \<and>
     inj_on (sg_party X) (set (u32_range (sg_count X))) \<and>
     sg_party X ` set (u32_range (sg_count X)) \<subseteq> set (u32_range (sg_parties X))"

text \<open>No exchange wraps around the Paillier modulus of its first party (\<open>mta_outcome\<close> says what
  happens when one does), and the joint draws are not zero.\<close>

definition no_wrap ::
  "('fe::field, 'ge::ab_group_add, 'dlp, 'egp, 'vss) curv \<Rightarrow> ('ek, 'dk, 'ckp) paillier \<Rightarrow>
   ('fe, 'z) signing_scheme \<Rightarrow> bool" where
  "no_wrap C P X \<longleftrightarrow> (\<forall>i\<in>set (u32_range (sg_count X)). \<forall>j\<in>set (others i (sg_count X)).
     0 \<le> mb_beta_tag (sr_mb_gamma (sg_draws X j) i) \<and> 0 \<le> mb_beta_tag (sr_mb_w (sg_draws X j) i) \<and>
     mta_plain C (k_i (sg_keys C P X i)) (gamma_i (sg_keys C P X j))
       (mb_beta_tag (sr_mb_gamma (sg_draws X j) i)) < ek_n P (sg_ek P X i) \<and>
     mta_plain C (k_i (sg_keys C P X i)) (w_i (sg_keys C P X j))
       (mb_beta_tag (sr_mb_w (sg_draws X j) i)) < ek_n P (sg_ek P X i))"

definition good_draws :: "('fe::field, 'z) signing_scheme \<Rightarrow> bool" where
  "good_draws X \<longleftrightarrow>
     (\<Sum>i\<leftarrow>u32_range (sg_count X). sr_k (sg_draws X i)) \<noteq> 0 \<and>
     (\<Sum>i\<leftarrow>u32_range (sg_count X). sr_gamma (sg_draws X i)) \<noteq> 0 \<and>
     (\<Sum>i\<leftarrow>u32_range (sg_count X). sr_rho (sg_draws X i)) \<noteq> 0"

lemma sg_keys_fields [simp]:
  "k_i (sg_keys C P X i) = sr_k (sg_draws X i)"
  "gamma_i (sg_keys C P X i) = sr_gamma (sg_draws X i)"
  "g_gamma_i (sg_keys C P X i) = smul C (generator C) (sr_gamma (sg_draws X i))"
  "w_i (sg_keys C P X i) = vss_map_share C (sg_vss C X i) (sg_index X i) (sg_list X) *
     honest_x_i C (sg_thr X) (sg_parties X) (sg_keygen X) (sg_party X i)"
  by (simp_all add: sg_keys_def sign_keys_create_def set_private_def sg_file_def honest_key_file_def Let_def)

lemma sg_file_fields [simp]:
  "kf_party (sg_file C P X i) = sg_party X i"
  "kf_y_sum (sg_file C P X i) = sg_y C X"
  "kf_vss (sg_file C P X i) =
     map (\<lambda>i. fst (honest_deal C (sg_thr X) (sg_parties X) (sg_keygen X) i)) (u32_range (sg_parties X))"
  "kf_paillier (sg_file C P X i) =
     map (\<lambda>i. fst (keypair P (kr_kp (sg_keygen X i)))) (u32_range (sg_parties X))"
  "k_ek (kf_keys (sg_file C P X i)) = sg_ek P X i" "k_dk (kf_keys (sg_file C P X i)) = sg_dk P X i"
  by (simp_all add: sg_file_def honest_key_file_def sg_y_def sg_x_def sg_ek_def sg_dk_def Let_def)

lemma signers_okD:
  assumes "signers_ok X"
  shows "sg_count X < - 1" "2 \<le> unat (sg_count X)" "sg_parties X < - 1"
    and "unat (sg_count X) = Suc (unat (sg_thr X))" "length (u32_range (sg_count X)) = unat (sg_count X)"
    and "i \<in> set (u32_range (sg_count X)) \<Longrightarrow> sg_party X i \<in> set (u32_range (sg_parties X))"
proof -
  have t: "1 \<le> sg_thr X" "sg_thr X < - 2" using assms by (simp_all add: signers_ok_def)
  show c: "unat (sg_count X) = Suc (unat (sg_thr X))"
    unfolding sg_count_def by (rule unat_plus_one [OF t(2)])
  have "unat (- 1 :: u32) = Suc (unat (- 2 :: u32))"
    by (simp add: unsigned_minus_1_eq_mask mask_eq_exp_minus_1)
  then show lt: "sg_count X < - 1" using t(2) c by (simp add: word_less_nat_alt)
  show "2 \<le> unat (sg_count X)" using t(1) c by (simp add: word_le_nat_alt)
  show "sg_parties X < - 1" using assms by (simp add: signers_ok_def)
  show "length (u32_range (sg_count X)) = unat (sg_count X)"
    by (rule length_u32_range [OF unat_plus_one [OF lt]])
  show "i \<in> set (u32_range (sg_count X)) \<Longrightarrow> sg_party X i \<in> set (u32_range (sg_parties X))"
    using assms by (auto simp: signers_ok_def)
qed

lemma sg_list_facts:
  assumes "signers_ok X"
  shows "distinct (sg_list X)" "length (sg_list X) = Suc (unat (sg_thr X))"
    and "\<forall>i\<in>set (sg_list X). i < unat (sg_parties X)"
proof -
  note ok = signers_okD [OF assms]
  have "inj_on (sg_index X) (set (u32_range (sg_count X)))"
  proof (rule inj_onI)
    fix i j assume ij: "i \<in> set (u32_range (sg_count X))" "j \<in> set (u32_range (sg_count X))"
      "sg_index X i = sg_index X j"
    then have "sg_party X i = sg_party X j" by (simp add: sg_index_def word_unat_eq_iff [symmetric])
    then show "i = j" using assms ij(1,2) by (auto simp: signers_ok_def dest: inj_onD)
  qed
  then show "distinct (sg_list X)" by (simp add: sg_list_def distinct_map distinct_u32_range)
  show "length (sg_list X) = Suc (unat (sg_thr X))" by (simp add: sg_list_def ok)
  show "\<forall>i\<in>set (sg_list X). i < unat (sg_parties X)"
    using u32_range_index [OF ok(3) ok(6)] by (simp add: sg_list_def sg_index_def)
qed

text \<open>What the files hold at the index of signer \<open>i\<close>.\<close>

lemma sg_file_at:
  assumes "signers_ok X" "i \<in> set (u32_range (sg_count X))"
  shows "vec_get (map f (u32_range (sg_parties X))) (sg_index X i) = Some (f (sg_party X i))"
  unfolding sg_index_def using signers_okD [OF assms(1)] assms(2) by (intro vec_get_range)

lemma sg_list_at:
  assumes "signers_ok X" "i \<in> set (u32_range (sg_count X))"
  shows "vec_get (sg_list X) (unat (i - 1)) = Some (sg_index X i)"
  unfolding sg_list_def using signers_okD [OF assms(1)] assms(2) by (intro vec_get_range)

section \<open>The shares of the key\<close>

text \<open>\<open>get_commitments_to_xi\<close> lists the public shares \<open>G * x_j\<close>.\<close>

lemma honest_commitments:
  assumes "curve_laws C" "vss_laws C (unat thr) (unat n)" "n < - 1"
  shows "get_commitments_to_xi C (map (\<lambda>i. fst (honest_deal C thr n R i)) (u32_range n)) =
    Some (map (\<lambda>j. smul C (generator C) (honest_x_i C thr n R j)) (u32_range n))"
proof -
  note len = length_u32_range [OF unat_plus_one [OF assms(3)]]
  have point: "vss_point C (fst (honest_deal C thr n R i)) (Suc l) =
      smul C (generator C) (honest_share C thr n R i (u32_range n ! l))" if "l < unat n" for i l
    using vss_share_point [OF assms(2) that] u32_range_nth [OF assms(3) that]
    by (simp add: honest_share_def honest_deal_def)
  have "(\<Sum>v\<leftarrow>map (\<lambda>i. fst (honest_deal C thr n R i)) (u32_range n). vss_point C v (Suc l)) =
      smul C (generator C) (honest_x_i C thr n R (u32_range n ! l))" if "l < unat n" for l
    by (simp add: comp_def point that honest_x_i_def smul_sum_list [OF assms(1)])
  then have "map (\<lambda>i. \<Sum>v\<leftarrow>map (\<lambda>i. fst (honest_deal C thr n R i)) (u32_range n). vss_point C v i)
      [1..<unat n + 1] = map (\<lambda>j. smul C (generator C) (honest_x_i C thr n R j)) (u32_range n)"
    by (intro nth_equalityI) (simp_all add: len del: upt_Suc map_map)
  then show ?thesis by (simp add: get_commitments_to_xi_eq len del: upt_Suc map_map)
qed

text \<open>The weighted key shares \<open>w_i\<close> of the signers add up to the secret of the group key.\<close>

lemma sum_w:
  assumes "signers_ok X" "vss_laws C (unat (sg_thr X)) (unat (sg_parties X))"
  shows "(\<Sum>i\<leftarrow>u32_range (sg_count X). w_i (sg_keys C P X i)) = sg_x X"
proof -
  let ?S = "sg_list X" and ?r = "u32_range (sg_parties X)"
  let ?deal = "honest_deal C (sg_thr X) (sg_parties X) (sg_keygen X)"
  have indep: "vss_map_share C (sg_vss C X i) j ?S = vss_map_share C (fst (?deal d)) j ?S" for i j d
    unfolding sg_vss_def honest_deal_def by (rule vss_map_share_indep [OF assms(2)])
  have share: "honest_share C (sg_thr X) (sg_parties X) (sg_keygen X) d (sg_party X i) =
      snd (?deal d) ! sg_index X i" if "i \<in> set (u32_range (sg_count X))" for d i
    using u32_range_index(1) [OF signers_okD(3,6) [OF assms(1)] , OF that] that assms(1)
    by (simp add: honest_share_def sg_index_def)
  have "(\<Sum>i\<leftarrow>u32_range (sg_count X). w_i (sg_keys C P X i)) =
      (\<Sum>i\<leftarrow>u32_range (sg_count X). \<Sum>d\<leftarrow>?r.
         vss_map_share C (fst (?deal d)) (sg_index X i) ?S * snd (?deal d) ! sg_index X i)"
  proof (rule arg_cong [of _ _ sum_list], rule map_cong [OF refl])
    fix i assume "i \<in> set (u32_range (sg_count X))"
    then have "w_i (sg_keys C P X i) =
        (\<Sum>d\<leftarrow>?r. vss_map_share C (sg_vss C X i) (sg_index X i) ?S * snd (?deal d) ! sg_index X i)"
      by (simp add: honest_x_i_def share sum_list_const_mult)
    also have "\<dots> = (\<Sum>d\<leftarrow>?r. vss_map_share C (fst (?deal d)) (sg_index X i) ?S * snd (?deal d) ! sg_index X i)"
      by (intro arg_cong [of _ _ sum_list] map_cong refl) (metis indep)
    finally show "w_i (sg_keys C P X i) = (\<Sum>d\<leftarrow>?r.
        vss_map_share C (fst (?deal d)) (sg_index X i) ?S * snd (?deal d) ! sg_index X i)" .
  qed
  also have "\<dots> = (\<Sum>d\<leftarrow>?r. \<Sum>i\<leftarrow>u32_range (sg_count X).
         vss_map_share C (fst (?deal d)) (sg_index X i) ?S * snd (?deal d) ! sg_index X i)"
    by (rule sum_list_swap)
  also have "\<dots> = (\<Sum>d\<leftarrow>?r. \<Sum>j\<leftarrow>?S. vss_map_share C (fst (?deal d)) j ?S * snd (?deal d) ! j)"
    by (simp add: sg_list_def comp_def)
  also have "\<dots> = (\<Sum>d\<leftarrow>?r. kr_u (sg_keygen X d))"
    unfolding honest_deal_def
    by (simp only: vss_reconstruct [OF assms(2) sg_list_facts [OF assms(1)]])
  finally show ?thesis by (simp add: sg_x_def)
qed

end
