(* ===== verification/Honest_Phases.thy ===== *)
theory Honest_Phases
  imports Honest_Signing
begin

text \<open>
  The phases of signing with the values of honest signers (\<open>Honest_Signing\<close>): the two products,
  the nonce point, the commitments of phase 5 and the signature.
\<close>

section \<open>The two products\<close>

lemma sum_u32_range:
  assumes "q < - 1"
  shows "(\<Sum>i\<leftarrow>u32_range q. f i) = (\<Sum>a<unat q. f (u32_range q ! a))"
  unfolding map_u32_range [OF assms] by (simp add: sum_list_distinct_conv_sum_set atLeast0LessThan)

text \<open>Row \<open>i\<close> of the shares is what signer \<open>i\<close> adds up.\<close>

lemma product_shares_u32:
  fixes a b :: "u32 \<Rightarrow> 'f::comm_ring"
  assumes "q < - 1"
    and "\<And>i j. i \<in> set (u32_range q) \<Longrightarrow> j \<in> set (others i q) \<Longrightarrow> \<alpha> i j + \<beta> j i = a i * b j"
  shows "(\<Sum>i\<leftarrow>u32_range q. a i * b i + ((\<Sum>j\<leftarrow>others i q. \<alpha> i j) + (\<Sum>j\<leftarrow>others i q. \<beta> i j))) =
    (\<Sum>i\<leftarrow>u32_range q. a i) * (\<Sum>j\<leftarrow>u32_range q. b j)"
proof -
  let ?p = "\<lambda>k. u32_range q ! k" and ?n = "unat q"
  have p: "?p k \<in> set (u32_range q)" "unat (?p k) - 1 = k" if "k < ?n" for k
    using that u32_range_nth [OF assms(1) that] length_u32_range [OF unat_plus_one [OF assms(1)]]
    by simp_all
  have row: "(\<Sum>j\<leftarrow>others (?p k) q. g j) = (\<Sum>l\<leftarrow>other_signers k ?n. g (?p l))"
    if "k < ?n" for k and g :: "u32 \<Rightarrow> 'f"
    using map_others [OF assms(1) p(1) [OF that], of g] p(2) [OF that] by simp
  have "\<alpha> (?p k) (?p l) + \<beta> (?p l) (?p k) = a (?p k) * b (?p l)" if "k < ?n" "l < ?n" "k \<noteq> l" for k l
  proof -
    have "?p k \<noteq> ?p l" using p(2) that by metis
    then show ?thesis using assms(2) [of "?p k" "?p l"] p(1) that by simp
  qed
  from product_shares [of ?n "\<lambda>k l. \<alpha> (?p k) (?p l)" "\<lambda>k l. \<beta> (?p k) (?p l)" "\<lambda>k. a (?p k)"
      "\<lambda>k. b (?p k)", OF this]
  show ?thesis by (simp add: sum_u32_range [OF assms(1)] row)
qed

lemma exchange_shares:
  assumes "curve_laws C" "proof_laws C"
  shows "sg_alpha C P X i j + snd (sg_mb_gamma C P X j i) = k_i (sg_keys C P X i) * gamma_i (sg_keys C P X j)"
    and "sg_miu C P X i j + snd (sg_mb_w C P X j i) = k_i (sg_keys C P X i) * w_i (sg_keys C P X j)"
  using mta_share_sum [OF assms(1)]
  by (simp_all add: sg_alpha_def sg_miu_def sg_mb_gamma_def sg_mb_w_def message_b_proofs(5) [OF assms(2)]
      del: sg_keys_fields)

lemma sum_delta:
  assumes "curve_laws C" "proof_laws C" "signers_ok X"
  shows "(\<Sum>i\<leftarrow>u32_range (sg_count X). sg_delta C P X i) =
    (\<Sum>i\<leftarrow>u32_range (sg_count X). k_i (sg_keys C P X i)) *
    (\<Sum>i\<leftarrow>u32_range (sg_count X). gamma_i (sg_keys C P X i))"
  unfolding sg_delta_def
  by (rule product_shares_u32 [OF signers_okD(1) [OF assms(3)]]) (rule exchange_shares(1) [OF assms(1,2)])

lemma sum_sigma:
  assumes "curve_laws C" "proof_laws C" "signers_ok X" "vss_laws C (unat (sg_thr X)) (unat (sg_parties X))"
  shows "(\<Sum>i\<leftarrow>u32_range (sg_count X). sg_sigma C P X i) =
    (\<Sum>i\<leftarrow>u32_range (sg_count X). k_i (sg_keys C P X i)) * sg_x X"
  unfolding sg_sigma_def sum_w [OF assms(3,4), of P, symmetric]
  by (rule product_shares_u32 [OF signers_okD(1) [OF assms(3)]]) (rule exchange_shares(2) [OF assms(1,2)])

section \<open>The nonce point\<close>

lemma sg_delta_nonzero:
  assumes "curve_laws C" "proof_laws C" "signers_ok X" "good_draws X"
  shows "(\<Sum>i\<leftarrow>u32_range (sg_count X). sg_delta C P X i) \<noteq> 0"
  using assms(4) by (simp add: sum_delta [OF assms(1-3)] good_draws_def)

lemma sg_nonce:
  assumes "curve_laws C" "proof_laws C" "signers_ok X" "good_draws X" "me \<in> set (u32_range (sg_count X))"
  shows "\<exists>R. phase4 C (sg_delta_inv C P X)
      (map (\<lambda>j. b_proof (fst (sg_mb_gamma C P X j me))) (others me (sg_count X)))
      (map (\<lambda>j. snd (sg_phase1 C P X j)) (others me (sg_count X)))
      (map (\<lambda>j. fst (sg_phase1 C P X j)) (others me (sg_count X))) = Some (Inr R) \<and>
    R + smul C (sd_g_gamma_i (snd (sg_phase1 C P X me))) (sg_delta_inv C P X) = sg_R C P X"
    and "(\<Sum>i\<leftarrow>u32_range (sg_count X). k_i (sg_keys C P X i)) * sg_kinv C P X = 1"
proof -
  let ?q = "sg_count X" and ?p = "\<lambda>k. u32_range (sg_count X) ! k" and ?i = "unat me - 1"
  note ok = signers_okD [OF assms(3)] and ix = u32_range_index [OF signers_okD(1) [OF assms(3)] assms(5)]
  let ?sks = "map (sg_keys C P X) (u32_range ?q)" and ?deltas = "map (sg_delta C P X) (u32_range ?q)"
  let ?bp = "\<lambda>k. b_proof (fst (sg_mb_gamma C P X (?p k) me))"
  have sks: "?sks ! k = sg_keys C P X (?p k)" if "k < unat ?q" for k using that ok(5) by simp
  have sums: "(\<Sum>sk\<leftarrow>?sks. f sk) = (\<Sum>i\<leftarrow>u32_range ?q. f (sg_keys C P X i))" for f :: "_ \<Rightarrow> 'a"
    by (simp add: comp_def)
  have gam: "g_gamma_i (?sks ! k) = smul C (generator C) (gamma_i (?sks ! k))"
    and bp: "dlog_pk C (?bp k) = smul C (generator C) (gamma_i (?sks ! k))" if "k < unat ?q" for k
    by (simp_all add: sks that sg_mb_gamma_def message_b_proofs [OF assms(2)])
  have len: "length ?sks = unat ?q" using ok(5) by simp
  have phase1: "map (\<lambda>k. f (phase1_broadcast C (?sks ! k) (sr_blind (sg_draws X (?p k)))))
      (other_signers ?i (unat ?q)) = map (\<lambda>j. f (sg_phase1 C P X j)) (others me ?q)" for f :: "_ \<Rightarrow> 'y"
  proof -
    have "k < unat ?q" if "k \<in> set (other_signers ?i (unat ?q))" for k
      using that set_others [OF ix(2)] by auto
    then show ?thesis by (simp add: map_others [OF ok(1) assms(5)] sks sg_phase1_def)
  qed
  have delta: "sum_list ?deltas = (\<Sum>sk\<leftarrow>?sks. k_i sk) * (\<Sum>sk\<leftarrow>?sks. gamma_i sk)"
    unfolding sums by (rule sum_delta [OF assms(1-3)])
  have "\<exists>R kinv. (\<Sum>sk\<leftarrow>?sks. k_i sk) * kinv = 1 \<and>
    phase4 C (phase3_reconstruct_delta C ?deltas) (map ?bp (other_signers ?i (unat ?q)))
      (map (\<lambda>k. snd (phase1_broadcast C (?sks ! k) (sr_blind (sg_draws X (?p k))))) (other_signers ?i (unat ?q)))
      (map (\<lambda>k. fst (phase1_broadcast C (?sks ! k) (sr_blind (sg_draws X (?p k))))) (other_signers ?i (unat ?q))) =
      Some (Inr R) \<and>
    R + smul C (sd_g_gamma_i (snd (phase1_broadcast C (?sks ! ?i) (sr_blind (sg_draws X (?p ?i))))))
      (phase3_reconstruct_delta C ?deltas) = smul C (generator C) kinv \<and>
    kinv = (\<Sum>sk\<leftarrow>?sks. gamma_i sk) * phase3_reconstruct_delta C ?deltas"
    by (rule phase4_honest [OF assms(1) ok(2) len ix(2) _ _ delta sg_delta_nonzero [OF assms(1-4)]])
      (fact gam bp)+
  note run = this [folded sg_delta_inv_def, unfolded phase1 sums]
  have me: "phase1_broadcast C (?sks ! ?i) (sr_blind (sg_draws X (?p ?i))) = sg_phase1 C P X me"
    by (simp only: sks [OF ix(2)] ix(3) sg_phase1_def)
  from run obtain R where R: "(\<Sum>i\<leftarrow>u32_range ?q. k_i (sg_keys C P X i)) * sg_kinv C P X = 1"
    "phase4 C (sg_delta_inv C P X) (map ?bp (other_signers ?i (unat ?q)))
      (map (\<lambda>j. snd (sg_phase1 C P X j)) (others me ?q))
      (map (\<lambda>j. fst (sg_phase1 C P X j)) (others me ?q)) = Some (Inr R)"
    "R + smul C (sd_g_gamma_i (snd (sg_phase1 C P X me))) (sg_delta_inv C P X) = sg_R C P X"
    by (auto simp only: me sg_kinv_def [symmetric] sg_R_def [symmetric])
  from R(1) show "(\<Sum>i\<leftarrow>u32_range ?q. k_i (sg_keys C P X i)) * sg_kinv C P X = 1" .
  from R(2,3) show "\<exists>R. phase4 C (sg_delta_inv C P X)
      (map (\<lambda>j. b_proof (fst (sg_mb_gamma C P X j me))) (others me ?q))
      (map (\<lambda>j. snd (sg_phase1 C P X j)) (others me ?q))
      (map (\<lambda>j. fst (sg_phase1 C P X j)) (others me ?q)) = Some (Inr R) \<and>
    R + smul C (sd_g_gamma_i (snd (sg_phase1 C P X me))) (sg_delta_inv C P X) = sg_R C P X"
    by (auto simp: map_others [OF ok(1) assms(5), of "\<lambda>j. b_proof (fst (sg_mb_gamma C P X j me))"])
qed

section \<open>Phase 5\<close>

lemma sg_local_eq:
  assumes "x_scalar C (sg_R C P X) = Some r"
  shows "phase5_local_sig C (k_i (sg_keys C P X i)) (sg_message X) (sg_R C P X) (sg_sigma C P X i)
      (sg_y C X) (sr_l (sg_draws X i)) (sr_rho (sg_draws X i)) = Some (sg_local C P X i)"
    and "sg_local C P X i = \<lparr>l_i = sr_l (sg_draws X i), rho_i = sr_rho (sg_draws X i), ls_R = sg_R C P X,
      s_i = fe_from C (sg_message X) * k_i (sg_keys C P X i) + r * sg_sigma C P X i,
      ls_m = sg_message X, ls_y = sg_y C X\<rparr>"
  using assms by (simp_all add: sg_local_def phase5_local_sig_def Let_def)

lemma sg_locals_nth:
  assumes "signers_ok X" "a < unat (sg_count X)"
  shows "sg_locals C P X ! a = sg_local C P X (u32_range (sg_count X) ! a)"
  using assms(2) signers_okD(5) [OF assms(1)] by (simp add: sg_locals_def)

lemma sg_5a_nth:
  assumes "signers_ok X"
  shows "map (\<lambda>a. phase5a_broadcast_5b_zkproof C (sg_locals C P X ! a)
      (sr_blind5a (sg_draws X (u32_range (sg_count X) ! a))) (sr_seed5b (sg_draws X (u32_range (sg_count X) ! a))))
      [0..<length (sg_locals C P X)] = map (sg_5a C P X) (u32_range (sg_count X))"
  using signers_okD(5) [OF assms] sg_locals_nth [OF assms, of _ C P]
  by (intro nth_equalityI) (simp_all add: sg_5a_def sg_locals_def)

lemma sg_phase5c:
  assumes "curve_laws C" "proof_laws C" "signers_ok X" "x_scalar C (sg_R C P X) = Some r"
    and "me \<in> set (u32_range (sg_count X))"
  shows "phase5c C (sg_local C P X me) (map (\<lambda>i. fst (snd (sg_5a C P X i))) (others me (sg_count X)))
      (map (\<lambda>i. fst (sg_5a C P X i)) (others me (sg_count X)))
      (map (\<lambda>i. snd (snd (sg_5a C P X i))) (others me (sg_count X)))
      (V_i (fst (snd (sg_5a C P X me)))) (sg_R C P X) (sr_blind5c (sg_draws X me)) =
    Some (Inr (sg_5c C P X r me))"
proof -
  let ?lss = "sg_locals C P X" and ?i = "unat me - 1"
  note ok = signers_okD [OF assms(3)] and ix = u32_range_index [OF signers_okD(1) [OF assms(3)] assms(5)]
  have len: "length ?lss = unat (sg_count X)" using ok(5) by (simp add: sg_locals_def)
  have common: "ls_R (?lss ! j) = sg_R C P X \<and> ls_m (?lss ! j) = sg_message X \<and> ls_y (?lss ! j) = sg_y C X"
    if "j < length ?lss" for j
    using that len by (simp add: sg_locals_nth [OF assms(3)] sg_local_eq(2) [OF assms(4)])
  have i: "?i < length ?lss" "2 \<le> length ?lss" using ix(2) len ok(2) by simp_all
  have me: "?lss ! ?i = sg_local C P X me" by (simp only: sg_locals_nth [OF assms(3) ix(2)] ix(3))
  have nth: "map f (u32_range (sg_count X)) ! ?i = f me" for f :: "_ \<Rightarrow> 'x"
    using ix ok(5) by (simp only: nth_map)
  note run = phase5c_joint [OF assms(1,2) i(2,1) assms(4) common, of
      "\<lambda>a. sr_blind5a (sg_draws X (u32_range (sg_count X) ! a))"
      "\<lambda>a. sr_seed5b (sg_draws X (u32_range (sg_count X) ! a))" "sr_blind5c (sg_draws X me)"]
  show ?thesis
    using run [unfolded sg_5a_nth [OF assms(3)] me map_map nth comp_def]
    unfolding sg_5c_def Let_def others_without [OF ok(1) assms(5)] map_without_nth by blast
qed

lemma sg_phase5d:
  assumes "curve_laws C" "signers_ok X" "good_draws X" "x_scalar C (sg_R C P X) = Some r"
    and "smul C (sg_R C P X) (\<Sum>ls\<leftarrow>sg_locals C P X. s_i ls) =
      smul C (generator C) (fe_from C (sg_message X)) + smul C (sg_y C X) r"
  shows "phase5d C (sg_local C P X me) (map (\<lambda>i. snd (sg_5c C P X r i)) (u32_range (sg_count X)))
      (map (\<lambda>i. fst (sg_5c C P X r i)) (u32_range (sg_count X)))
      (map (\<lambda>i. fst (snd (sg_5a C P X i))) (u32_range (sg_count X))) =
    Some (Inr (s_i (sg_local C P X me)))"
proof -
  let ?lss = "sg_locals C P X" and ?p = "\<lambda>a. u32_range (sg_count X) ! a"
  let ?E = "sig_error C ?lss (sg_R C P X) (sg_message X) (sg_y C X) r"
  have "(\<Sum>ls\<leftarrow>?lss. rho_i ls) \<noteq> 0"
    using assms(3) by (simp add: sg_locals_def comp_def sg_local_eq(2) [OF assms(4)] good_draws_def)
  note run = phase5d_joint [OF assms(1) this, where r = r and y = "sg_y C X" and m = "sg_message X"
      and R = "sg_R C P X" and ls = "sg_local C P X me"
      and ?b1.0 = "\<lambda>a. sr_blind5a (sg_draws X (?p a))" and sd = "\<lambda>a. sr_seed5b (sg_draws X (?p a))"
      and ?b2.0 = "\<lambda>a. sr_blind5c (sg_draws X (?p a))"]
  have "map (\<lambda>a. let d2 = decom2_of C ?lss ?E (?lss ! a) (sr_blind5c (sg_draws X (?p a))) in
      (\<lparr>com2 = create_commitment C (hash_from_ge C [d2_u_i d2, d2_t_i d2]) (sr_blind5c (sg_draws X (?p a)))\<rparr>, d2))
      [0..<length ?lss] = map (sg_5c C P X r) (u32_range (sg_count X))"
    using signers_okD(5) [OF assms(2)] sg_locals_nth [OF assms(2), of _ C P]
    by (intro nth_equalityI) (simp_all add: sg_5c_def sg_locals_def)
  from run [unfolded this sg_5a_nth [OF assms(2)]] assms(5) show ?thesis by (simp add: comp_def)
qed

section \<open>The signature\<close>

lemma sum_s_i:
  assumes "curve_laws C" "proof_laws C" "signers_ok X" "vss_laws C (unat (sg_thr X)) (unat (sg_parties X))"
    and "x_scalar C (sg_R C P X) = Some r"
  shows "(\<Sum>ls\<leftarrow>sg_locals C P X. s_i ls) = sig_s (sg_signature C P X r)"
proof -
  have "(\<Sum>ls\<leftarrow>sg_locals C P X. s_i ls) =
      (\<Sum>i\<leftarrow>u32_range (sg_count X). fe_from C (sg_message X) * k_i (sg_keys C P X i) + r * sg_sigma C P X i)"
    by (simp add: sg_locals_def comp_def sg_local_eq(2) [OF assms(5)])
  also have "\<dots> = fe_from C (sg_message X) * (\<Sum>i\<leftarrow>u32_range (sg_count X). k_i (sg_keys C P X i)) +
      r * (\<Sum>i\<leftarrow>u32_range (sg_count X). sg_sigma C P X i)"
    by (simp only: sum_list_addf sum_list_const_mult)
  finally show ?thesis
    unfolding sum_sigma [OF assms(1-4)] by (simp add: sg_signature_def algebra_simps)
qed

text \<open>The shares pass the check of phase 5, and the signature verifies.\<close>

lemma sg_check:
  assumes "curve_laws C" "proof_laws C" "signers_ok X" "good_draws X"
    and "vss_laws C (unat (sg_thr X)) (unat (sg_parties X))" "x_scalar C (sg_R C P X) = Some r"
  shows "smul C (sg_R C P X) (\<Sum>ls\<leftarrow>sg_locals C P X. s_i ls) =
      smul C (generator C) (fe_from C (sg_message X)) + smul C (sg_y C X) r"
    and "fe_from C (sg_message X) + r * sg_x X \<noteq> 0 \<Longrightarrow>
      verify C (sg_signature C P X r) (sg_y C X) (sg_message X) = Some (Inr ())"
proof -
  have me: "u32_range (sg_count X) \<noteq> []" using signers_okD(2,5) [OF assms(3)] by auto
  then have "u32_range (sg_count X) ! 0 \<in> set (u32_range (sg_count X))" by simp
  note inv = sg_nonce(2) [OF assms(1-4) this]
  let ?k = "\<Sum>i\<leftarrow>u32_range (sg_count X). k_i (sg_keys C P X i)"
  let ?v = "fe_from C (sg_message X) + r * sg_x X"
  have s: "sig_s (sg_signature C P X r) = ?k * ?v" by (simp add: sg_signature_def)
  have kv: "?k * ?v * sg_kinv C P X = ?v"
  proof -
    have "?k * ?v * sg_kinv C P X = (?k * sg_kinv C P X) * ?v" by (simp only: ac_simps)
    then show ?thesis by (simp only: inv mult_1)
  qed
  have "smul C (sg_R C P X) (?k * ?v) = smul C (generator C) ?v"
    using kv unfolding sg_R_def smul_smul [OF assms(1)] by (simp only: mult.commute [of "sg_kinv C P X"])
  then show "smul C (sg_R C P X) (\<Sum>ls\<leftarrow>sg_locals C P X. s_i ls) =
      smul C (generator C) (fe_from C (sg_message X)) + smul C (sg_y C X) r"
    unfolding sum_s_i [OF assms(1-3,5,6)] s
    by (simp add: sg_y_def smul_add [OF assms(1)] smul_smul [OF assms(1)] mult.commute)
  show "verify C (sg_signature C P X r) (sg_y C X) (sg_message X) = Some (Inr ())" if "?v \<noteq> 0"
  proof -
    have "?k \<noteq> 0" using inv by auto
    then have "?k * ?v \<noteq> 0" using that by simp
    from verify_point [OF assms(1) sg_y_def this sg_R_def kv assms(6)]
    show ?thesis by (simp only: sg_signature_def)
  qed
qed

lemma sg_output:
  assumes "curve_laws C" "proof_laws C" "signers_ok X" "good_draws X"
    and "vss_laws C (unat (sg_thr X)) (unat (sg_parties X))" "x_scalar C (sg_R C P X) = Some r"
    and "fe_from C (sg_message X) + r * sg_x X \<noteq> 0" "me \<in> set (u32_range (sg_count X))"
  shows "output_signature C (sg_local C P X me) (map (\<lambda>i. s_i (sg_local C P X i)) (others me (sg_count X))) =
    Some (Inr (sg_signature C P X r))"
proof -
  note ok = signers_okD [OF assms(3)] and ix = u32_range_index [OF signers_okD(1) [OF assms(3)] assms(8)]
  let ?s = "map (\<lambda>i. s_i (sg_local C P X i)) (u32_range (sg_count X))"
  have "?s ! (unat me - 1) = s_i (sg_local C P X me)" using ix ok(5) by simp
  then have "s_i (sg_local C P X me) + (\<Sum>i\<leftarrow>others me (sg_count X). s_i (sg_local C P X i)) = sum_list ?s"
    using sum_list_without_nth [of "unat me - 1" ?s] ix(2) ok(5)
    by (simp add: others_without [OF ok(1) assms(8)] map_without_nth)
  also have "sum_list ?s = sig_s (sg_signature C P X r)"
    using sum_s_i [OF assms(1-3,5,6)] by (simp add: sg_locals_def comp_def)
  finally show ?thesis
    using sg_check(2) [OF assms(1-7)] assms(6)
    by (simp add: output_signature_def foldl_add_sum Let_def sg_local_eq(2) [OF assms(6)] sg_signature_def)
qed

end
