(* ===== verification/Sign_Run_Correct.thy ===== *)
theory Sign_Run_Correct
  imports Honest_Phases
begin

text \<open>
  The whole run of \<open>sign.rs\<close> is correct: over the server, concurrently with the other signers, it
  ends with a signature of the message that verifies under the group key of the key files.
\<close>

section \<open>What the codec promises\<close>

definition sign_json_laws :: "('fe, 'ge, 'dlp, 'egp) sign_json \<Rightarrow> bool" where
  "sign_json_laws J \<longleftrightarrow>
     (\<forall>x. dec_id J (enc_id J x) = Some x \<and> utf8_valid (enc_id J x)) \<and>
     (\<forall>x. dec_com_ma J (enc_com_ma J x) = Some x \<and> utf8_valid (enc_com_ma J x)) \<and>
     (\<forall>x. dec_mbs J (enc_mbs J x) = Some x \<and> utf8_valid (enc_mbs J x)) \<and>
     (\<forall>x. dec_fe J (enc_fe J x) = Some x \<and> utf8_valid (enc_fe J x)) \<and>
     (\<forall>x. dec_decommit J (enc_decommit J x) = Some x \<and> utf8_valid (enc_decommit J x)) \<and>
     (\<forall>x. dec_com1 J (enc_com1 J x) = Some x \<and> utf8_valid (enc_com1 J x)) \<and>
     (\<forall>x. dec_decom1 J (enc_decom1 J x) = Some x \<and> utf8_valid (enc_decom1 J x)) \<and>
     (\<forall>x. dec_com2 J (enc_com2 J x) = Some x \<and> utf8_valid (enc_com2 J x)) \<and>
     (\<forall>x. dec_decom2 J (enc_decom2 J x) = Some x \<and> utf8_valid (enc_decom2 J x))"

lemma sign_jsonD:
  assumes "sign_json_laws J"
  shows "dec_id J (enc_id J a) = Some a" "utf8_valid (enc_id J a)"
    "dec_com_ma J (enc_com_ma J b) = Some b" "utf8_valid (enc_com_ma J b)"
    "dec_mbs J (enc_mbs J c) = Some c" "utf8_valid (enc_mbs J c)"
    "dec_fe J (enc_fe J d) = Some d" "utf8_valid (enc_fe J d)"
    "dec_decommit J (enc_decommit J e) = Some e" "utf8_valid (enc_decommit J e)"
    "dec_com1 J (enc_com1 J f) = Some f" "utf8_valid (enc_com1 J f)"
    "dec_decom1 J (enc_decom1 J g) = Some g" "utf8_valid (enc_decom1 J g)"
    "dec_com2 J (enc_com2 J h) = Some h" "utf8_valid (enc_com2 J h)"
    "dec_decom2 J (enc_decom2 J k) = Some k" "utf8_valid (enc_decom2 J k)"
  using assms unfolding sign_json_laws_def by blast+

section \<open>The loops\<close>

lemma round1_loop_reads:
  assumes "\<forall>i\<in>set is. i \<noteq> me \<longrightarrow> parse (enc i) = Some (b i, m i)"
  shows "round1_loop parse me (b me) (pre @ map enc (filter (\<lambda>i. i \<noteq> me) is)) (length pre) is =
    Some (map b is, map m (filter (\<lambda>i. i \<noteq> me) is))"
  using assms
proof (induction "is" arbitrary: pre)
  case (Cons i "is")
  show ?case
  proof (cases "i = me")
    case True
    then show ?thesis using Cons.IH [of pre] Cons.prems by simp
  next
    case False
    have "round1_loop parse me (b me) ((pre @ [enc i]) @ map enc (filter (\<lambda>i. i \<noteq> me) is))
        (length (pre @ [enc i])) is = Some (map b is, map m (filter (\<lambda>i. i \<noteq> me) is))"
      using Cons.prems by (intro Cons.IH) simp
    then show ?thesis using False Cons.prems by (simp add: nth_append)
  qed
qed simp

lemma mb_loop_reads:
  assumes "\<forall>i\<in>set is. vec_get signers (unat (i - 1)) = Some (ix i) \<and> vec_get eks (ix i) = Some (ek i)"
  shows "mb_loop C P rnd sk eks signers me (pre @ map ma (filter (\<lambda>i. i \<noteq> me) is)) (length pre) is =
    Some (map (\<lambda>i. (message_b C P (gamma_i sk) (ek i) (ma i) (sr_mb_gamma rnd i),
                    message_b C P (w_i sk) (ek i) (ma i) (sr_mb_w rnd i))) (filter (\<lambda>i. i \<noteq> me) is))"
  using assms
proof (induction "is" arbitrary: pre)
  case (Cons i "is")
  show ?case
  proof (cases "i = me")
    case True
    then show ?thesis using Cons.IH [of pre] Cons.prems by simp
  next
    case False
    have "mb_loop C P rnd sk eks signers me ((pre @ [ma i]) @ map ma (filter (\<lambda>i. i \<noteq> me) is))
        (length (pre @ [ma i])) is =
      Some (map (\<lambda>i. (message_b C P (gamma_i sk) (ek i) (ma i) (sr_mb_gamma rnd i),
                      message_b C P (w_i sk) (ek i) (ma i) (sr_mb_w rnd i))) (filter (\<lambda>i. i \<noteq> me) is))"
      using Cons.prems by (intro Cons.IH) simp
    then show ?thesis using False Cons.prems by (simp add: nth_append)
  qed
qed simp

lemma alpha_loop_reads:
  assumes "\<forall>i\<in>set is. i \<noteq> me \<longrightarrow>
      verify_proofs_get_alpha C P (fst (mb i)) dk k = Inr (al i) \<and>
      verify_proofs_get_alpha C P (snd (mb i)) dk k = Inr (mu i) \<and>
      vec_get signers (unat (i - 1)) = Some (ix i) \<and> vec_get xis (ix i) = Some (xi i) \<and>
      vec_get vsss (ix i) = Some (vs i) \<and>
      dlog_pk C (b_proof (snd (mb i))) = update_commitments_to_xi C (xi i) (vs i) (ix i) signers"
  shows "alpha_loop C P dk k xis vsss signers me (pre @ map mb (filter (\<lambda>i. i \<noteq> me) is)) (length pre) is =
    Some (map (\<lambda>i. (al i, mu i)) (filter (\<lambda>i. i \<noteq> me) is))"
  using assms
proof (induction "is" arbitrary: pre)
  case (Cons i "is")
  show ?case
  proof (cases "i = me")
    case True
    then show ?thesis using Cons.IH [of pre] Cons.prems by simp
  next
    case False
    have "alpha_loop C P dk k xis vsss signers me ((pre @ [mb i]) @ map mb (filter (\<lambda>i. i \<noteq> me) is))
        (length (pre @ [mb i])) is = Some (map (\<lambda>i. (al i, mu i)) (filter (\<lambda>i. i \<noteq> me) is))"
      using Cons.prems by (intro Cons.IH) simp
    then show ?thesis using False Cons.prems by (simp add: nth_append case_prod_beta)
  qed
qed simp

text \<open>\<open>format_vec_from_reads\<close> restores the vector of all signers.\<close>

lemma format_vec_reads:
  assumes "q < - 1" "me \<in> set (u32_range q)" "\<forall>i. parse (enc (val i)) = Some (val i)"
  shows "format_vec_from_reads parse (map (\<lambda>i. enc (val i)) (others me q)) (unat me) (val me) =
    Some (map val (u32_range q))"
proof -
  note len = length_u32_range [OF unat_plus_one [OF assms(1)]]
  have n: "unat (q + 1) = Suc (unat q)" by (rule unat_plus_one [OF assms(1)])
  have small: "unat q < 2 ^ 32" by (rule order_less_le_trans [OF unsigned_less]) simp
  have of_unat: "of_nat k = me \<longleftrightarrow> k = unat me" if "k \<in> set [1..<Suc (unat q)]" for k
    using that small by (auto simp: unat_of_nat)
  let ?is = "[1..<Suc (unat q)]"
  have range: "u32_range q = map of_nat ?is" by (simp add: u32_range_def n del: upt_Suc)
  have others: "others me q = map of_nat (filter (\<lambda>k. k \<noteq> unat me) ?is)"
  proof -
    have "filter (\<lambda>k. of_nat k \<noteq> me) ?is = filter (\<lambda>k. k \<noteq> unat me) ?is"
      by (intro filter_cong refl) (simp only: of_unat)
    then show ?thesis by (simp only: others_def range filter_map comp_def)
  qed
  have "length (others me q) = unat q - 1"
    using u32_range_index [OF assms(1,2)] len by (simp add: others_without [OF assms(1,2)])
  moreover have "0 < unat q" using u32_range_index(2) [OF assms(1,2)] by simp
  ultimately have bound: "[1..<length (map (\<lambda>i. enc (val i)) (others me q)) + 2] = ?is" by simp
  have "merge_loop parse (unat me) (val (of_nat (unat me)))
      (map (\<lambda>k. enc (val (of_nat k))) (filter (\<lambda>k. k \<noteq> unat me) ?is)) 0 ?is =
    Some (map (\<lambda>k. val (of_nat k)) ?is)"
    using merge_loop_reads [of ?is "unat me" parse "\<lambda>k. enc (val (of_nat k))" "\<lambda>k. val (of_nat k)" "[]"]
      assms(3) by (simp del: upt_Suc)
  then show ?thesis
    unfolding format_vec_from_reads_def bound unfolding others range by (simp add: comp_def del: upt_Suc)
qed

section \<open>The messages of the ten rounds\<close>

definition sign_script ::
  "('fe::field, 'ge::ab_group_add, 'dlp, 'egp, 'vss) curv \<Rightarrow> ('ek, 'dk, 'ckp) paillier \<Rightarrow>
   ('fe, 'ge, 'dlp, 'egp) sign_json \<Rightarrow> ('fe, 'z) signing_scheme \<Rightarrow> 'fe \<Rightarrow> script" where
  "sign_script C P J X r =
     [(''round0'', Cast (\<lambda>i. enc_id J (sg_party X i))),
      (''round1'', Cast (\<lambda>i. enc_com_ma J (fst (sg_phase1 C P X i), sg_ma C P X i))),
      (''round2'', Direct (\<lambda>i j. enc_mbs J (fst (sg_mb_gamma C P X i j), fst (sg_mb_w C P X i j)))),
      (''round3'', Cast (\<lambda>i. enc_fe J (sg_delta C P X i))),
      (''round4'', Cast (\<lambda>i. enc_decommit J (snd (sg_phase1 C P X i)))),
      (''round5'', Cast (\<lambda>i. enc_com1 J (fst (sg_5a C P X i)))),
      (''round6'', Cast (\<lambda>i. enc_decom1 J (snd (sg_5a C P X i)))),
      (''round7'', Cast (\<lambda>i. enc_com2 J (fst (sg_5c C P X r i)))),
      (''round8'', Cast (\<lambda>i. enc_decom2 J (snd (sg_5c C P X r i)))),
      (''round9'', Cast (\<lambda>i. enc_fe J (s_i (sg_local C P X i))))]"

lemma sign_script_nth:
  "length (sign_script C P J X r) = 10"
  "sign_script C P J X r ! 0 = (''round0'', Cast (\<lambda>i. enc_id J (sg_party X i)))"
  "sign_script C P J X r ! 1 = (''round1'', Cast (\<lambda>i. enc_com_ma J (fst (sg_phase1 C P X i), sg_ma C P X i)))"
  "sign_script C P J X r ! 2 =
     (''round2'', Direct (\<lambda>i j. enc_mbs J (fst (sg_mb_gamma C P X i j), fst (sg_mb_w C P X i j))))"
  "sign_script C P J X r ! 3 = (''round3'', Cast (\<lambda>i. enc_fe J (sg_delta C P X i)))"
  "sign_script C P J X r ! 4 = (''round4'', Cast (\<lambda>i. enc_decommit J (snd (sg_phase1 C P X i))))"
  "sign_script C P J X r ! 5 = (''round5'', Cast (\<lambda>i. enc_com1 J (fst (sg_5a C P X i))))"
  "sign_script C P J X r ! 6 = (''round6'', Cast (\<lambda>i. enc_decom1 J (snd (sg_5a C P X i))))"
  "sign_script C P J X r ! 7 = (''round7'', Cast (\<lambda>i. enc_com2 J (fst (sg_5c C P X r i))))"
  "sign_script C P J X r ! 8 = (''round8'', Cast (\<lambda>i. enc_decom2 J (snd (sg_5c C P X r i))))"
  "sign_script C P J X r ! 9 = (''round9'', Cast (\<lambda>i. enc_fe J (s_i (sg_local C P X i))))"
  by (simp_all add: sign_script_def)

lemma sign_script_ok: "sign_json_laws J \<Longrightarrow> script_ok (sign_script C P J X r)"
  by (simp add: script_ok_def sign_script_def sign_jsonD)

section \<open>The exchanges\<close>

lemma length_other_signers:
  assumes "signers_ok X" "me \<in> set (u32_range (sg_count X))"
  shows "length (others me (sg_count X)) = unat (sg_thr X)"
  using u32_range_index(2) [OF signers_okD(1) [OF assms(1)] assms(2)] signers_okD(4,5) [OF assms(1)]
  by (simp add: others_without [OF signers_okD(1) [OF assms(1)] assms(2)])

text \<open>The messages \<open>B\<close> that signer \<open>me\<close> gets pass its checks.\<close>

lemma sg_alphas:
  assumes laws: "curve_laws C" "proof_laws C" "vss_laws C (unat (sg_thr X)) (unat (sg_parties X))"
      "paillier_laws P"
    and X: "signers_ok X" "no_wrap C P X" "me \<in> set (u32_range (sg_count X))"
  shows "alpha_loop C P (sg_dk P X me) (k_i (sg_keys C P X me))
      (map (\<lambda>j. smul C (generator C) (honest_x_i C (sg_thr X) (sg_parties X) (sg_keygen X) j))
        (u32_range (sg_parties X)))
      (kf_vss (sg_file C P X me)) (sg_list X) me
      (map (\<lambda>i. (fst (sg_mb_gamma C P X i me), fst (sg_mb_w C P X i me))) (others me (sg_count X))) 0
      (u32_range (sg_count X)) =
    Some (map (\<lambda>i. (sg_alpha C P X me i, sg_miu C P X me i)) (others me (sg_count X)))"
proof -
  let ?q = "sg_count X" and ?x = "honest_x_i C (sg_thr X) (sg_parties X) (sg_keygen X)"
  have key: "paillier_key_laws P (sg_ek P X me) (sg_dk P X me)"
    using laws(4) by (simp add: paillier_laws_def sg_ek_def sg_dk_def)
  have "verify_proofs_get_alpha C P (fst (sg_mb_gamma C P X i me)) (sg_dk P X me) (k_i (sg_keys C P X me)) =
        Inr (sg_alpha C P X me i) \<and>
      verify_proofs_get_alpha C P (fst (sg_mb_w C P X i me)) (sg_dk P X me) (k_i (sg_keys C P X me)) =
        Inr (sg_miu C P X me i)" if "i \<in> set (others me ?q)" for i
    using mta_accepts [OF laws(1,2) key] X(2,3) that
    unfolding no_wrap_def sg_mb_gamma_def sg_mb_w_def sg_ma_def sg_alpha_def sg_miu_def by simp
  moreover have "dlog_pk C (b_proof (fst (sg_mb_w C P X i me))) =
      update_commitments_to_xi C (smul C (generator C) (?x (sg_party X i))) (sg_vss C X i) (sg_index X i)
        (sg_list X)" for i
    by (simp add: sg_mb_w_def message_b_proofs [OF laws(2)] update_commitments_to_xi_def Let_def
        smul_smul [OF laws(1)] mult.commute)
  moreover have "vec_get (sg_list X) (unat (i - 1)) = Some (sg_index X i) \<and>
      vec_get (map (\<lambda>j. smul C (generator C) (?x j)) (u32_range (sg_parties X))) (sg_index X i) =
        Some (smul C (generator C) (?x (sg_party X i))) \<and>
      vec_get (kf_vss (sg_file C P X me)) (sg_index X i) = Some (sg_vss C X i)"
    if "i \<in> set (u32_range ?q)" for i
    unfolding sg_file_fields sg_vss_def by (intro conjI sg_list_at [OF X(1) that] sg_file_at [OF X(1) that])
  ultimately show ?thesis
    using alpha_loop_reads [of "u32_range ?q" me C P
        "\<lambda>i. (fst (sg_mb_gamma C P X i me), fst (sg_mb_w C P X i me))" "sg_dk P X me"
        "k_i (sg_keys C P X me)" "sg_alpha C P X me" "sg_miu C P X me" "sg_list X" "sg_index X"
        "map (\<lambda>j. smul C (generator C) (?x j)) (u32_range (sg_parties X))"
        "\<lambda>i. smul C (generator C) (?x (sg_party X i))" "kf_vss (sg_file C P X me)" "sg_vss C X" "[]"]
    by (simp add: others_def del: sg_keys_fields sg_file_fields)
qed

lemma sg_sends:
  assumes "signers_ok X" "me \<in> set (u32_range (sg_count X))"
  shows "mb_loop C P (sg_draws X me) (sg_keys C P X me) (kf_paillier (sg_file C P X me)) (sg_list X) me
      (map (sg_ma C P X) (others me (sg_count X))) 0 (u32_range (sg_count X)) =
    Some (map (\<lambda>i. (sg_mb_gamma C P X me i, sg_mb_w C P X me i)) (others me (sg_count X)))"
proof -
  have "vec_get (sg_list X) (unat (i - 1)) = Some (sg_index X i) \<and>
      vec_get (kf_paillier (sg_file C P X me)) (sg_index X i) = Some (sg_ek P X i)"
    if "i \<in> set (u32_range (sg_count X))" for i
    unfolding sg_file_fields sg_ek_def by (intro conjI sg_list_at [OF assms(1) that] sg_file_at [OF assms(1) that])
  then show ?thesis
    using mb_loop_reads [of "u32_range (sg_count X)" "sg_list X" "sg_index X"
        "kf_paillier (sg_file C P X me)" "sg_ek P X" C P "sg_draws X me" "sg_keys C P X me" me "[]" "sg_ma C P X"]
    by (simp add: others_def sg_mb_gamma_def sg_mb_w_def del: sg_keys_fields sg_file_fields)
qed

section \<open>The four parts of the run\<close>

context session_board
begin

lemma runs_exchange:
  assumes "plays (sg_count X) uuid script me" "r < length script"
    and "script ! r = (round, Cast (\<lambda>i. enc (val i)))" "\<forall>i. parse (enc (val i)) = Some (val i)"
    and "signers_ok X" "me \<in> set (u32_range (sg_count X))"
  shows "runs quits (after (sg_count X) uuid script me r)
    (exchange enc parse net me (sg_thr X) round uuid (val me)) (map val (u32_range (sg_count X)))
    (after (sg_count X) uuid script me (Suc r))"
  unfolding exchange_def sg_count_def [symmetric]
  by (rule runs_bind [OF runs_broadcast_round [OF assms(1-3)]],
      rule runs_bind [OF runs_poll_round(1) [OF assms(1-3)]],
      rule runs_try, rule format_vec_reads [OF signers_okD(1) [OF assms(5)] assms(6,4)])

lemma runs_sign_setup:
  assumes laws: "curve_laws C" "vss_laws C (unat (sg_thr X)) (unat (sg_parties X))" "sign_json_laws J"
    and X: "signers_ok X" "me \<in> set (u32_range (sg_count X))"
    and plays: "plays (sg_count X) uuid (sign_script C P J X r) me"
  shows "runs quits (after (sg_count X) uuid (sign_script C P J X r) me 0)
    (sign_setup C P J net (sg_thr X) me uuid (sg_draws X me) (sg_file C P X me))
    (sg_list X, sg_keys C P X me,
     map (\<lambda>j. smul C (generator C) (honest_x_i C (sg_thr X) (sg_parties X) (sg_keygen X) j))
       (u32_range (sg_parties X)),
     snd (sg_phase1 C P X me), map (\<lambda>i. fst (sg_phase1 C P X i)) (u32_range (sg_count X)),
     map (sg_ma C P X) (others me (sg_count X)))
    (after (sg_count X) uuid (sign_script C P J X r) me 2)"
proof -
  let ?q = "sg_count X" and ?s = "sign_script C P J X r"
  note ok = signers_okD [OF X(1)]
  note casts = runs_broadcast_round [OF plays, unfolded sign_script_nth(1)]
    and polls = runs_poll_round(1) [OF plays, unfolded sign_script_nth(1)]
  have round0: "runs quits (after ?q uuid ?s me 0) (assert_ok (broadcast net me ''round0'' (enc_id J (sg_party X me)) uuid))
      () (after ?q uuid ?s me 1)"
    "runs quits (after ?q uuid ?s me 1) (poll_for_broadcasts net me ?q ''round0'' uuid)
      (map (\<lambda>i. enc_id J (sg_party X i)) (others me ?q)) (after ?q uuid ?s me 1)"
    using casts [OF _ sign_script_nth(2)] polls [OF _ sign_script_nth(2)] by simp_all
  have round1: "runs quits (after ?q uuid ?s me 1) (assert_ok (broadcast net me ''round1''
      (enc_com_ma J (fst (sg_phase1 C P X me), sg_ma C P X me)) uuid)) () (after ?q uuid ?s me 2)"
    "runs quits (after ?q uuid ?s me 2) (poll_for_broadcasts net me ?q ''round1'' uuid)
      (map (\<lambda>i. enc_com_ma J (fst (sg_phase1 C P X i), sg_ma C P X i)) (others me ?q)) (after ?q uuid ?s me 2)"
    using casts [OF _ sign_script_nth(3)] polls [OF _ sign_script_nth(3)] by (simp_all add: numeral_2_eq_2)
  have signers: "read_round (\<lambda>s. map_option (\<lambda>i. unat (i - 1)) (dec_id J s)) me (sg_index X me) ?q
      (map (\<lambda>i. enc_id J (sg_party X i)) (others me ?q)) = Some (sg_list X)"
    unfolding sg_list_def by (rule read_round_reads) (simp add: sign_jsonD [OF laws(3)] sg_index_def)
  have coms: "round1_loop (dec_com_ma J) me (fst (sg_phase1 C P X me))
      (map (\<lambda>i. enc_com_ma J (fst (sg_phase1 C P X i), sg_ma C P X i)) (others me ?q)) 0 (u32_range ?q) =
    Some (map (\<lambda>i. fst (sg_phase1 C P X i)) (u32_range ?q), map (sg_ma C P X) (others me ?q))"
    using round1_loop_reads [of "u32_range ?q" me "dec_com_ma J"
        "\<lambda>i. enc_com_ma J (fst (sg_phase1 C P X i), sg_ma C P X i)" "\<lambda>i. fst (sg_phase1 C P X i)"
        "sg_ma C P X" "[]"]
    by (simp add: sign_jsonD [OF laws(3)] others_def)
  have vss: "vec_get (kf_vss (sg_file C P X me)) (sg_index X me) = Some (sg_vss C X me)"
    unfolding sg_file_fields sg_vss_def by (rule sg_file_at [OF X])
  have xi: "get_commitments_to_xi C (kf_vss (sg_file C P X me)) =
      Some (map (\<lambda>j. smul C (generator C) (honest_x_i C (sg_thr X) (sg_parties X) (sg_keygen X) j))
        (u32_range (sg_parties X)))"
    unfolding sg_file_fields by (rule honest_commitments [OF laws(1,2) ok(3)])
  have len: "length (sg_list X) = length (map (\<lambda>i. fst (sg_phase1 C P X i)) (u32_range ?q))"
    by (simp add: sg_list_def)
  show ?thesis
    unfolding sign_setup_def Let_def sg_count_def [symmetric] sg_keys_def [symmetric] sg_file_fields(1,5)
      sg_index_def [symmetric] sg_phase1_def [symmetric] sg_ma_def [symmetric] case_prod_beta
    apply (rule runs_bind, rule round0(1), rule runs_bind, rule round0(2))
    apply (rule runs_bind, rule runs_try, rule signers)
    apply (rule runs_bind, rule runs_try, rule sg_list_at [OF X])
    apply (rule runs_bind, rule runs_try, rule vss)
    apply (unfold sg_keys_def [symmetric] sg_phase1_def [symmetric] sg_ma_def [symmetric])
    apply (rule runs_bind, rule runs_try, rule xi)
    apply (rule runs_bind, rule round1(1), rule runs_bind, rule round1(2))
    apply (rule runs_bind, rule runs_try, rule coms)
    apply (simp only: fst_conv snd_conv len simp_thms if_False)
    apply (rule runs_ret)
    done
qed

lemma runs_send_mbs:
  assumes "\<forall>i\<in>set is. i \<noteq> me \<longrightarrow> writable (party_key me ''round2'' uuid (u32_to_string i)) (enc (mb i))"
  shows "runs quits (knows (board_of kvs))
    (send_mbs enc net me uuid (pre @ map mb (filter (\<lambda>i. i \<noteq> me) is)) (length pre) is) ()
    (knows (board_of (kvs @ sent_to me ''round2'' uuid (\<lambda>i. enc (mb i)) (filter (\<lambda>i. i \<noteq> me) is))))"
  using assms
proof (induction "is" arbitrary: kvs pre)
  case Nil
  show ?case by (simp add: runs_ret sent_to_def)
next
  case (Cons i "is")
  show ?case
  proof (cases "i = me")
    case True
    then show ?thesis using Cons.IH [of kvs pre] Cons.prems by simp
  next
    case False
    let ?kvs = "kvs @ [(party_key me ''round2'' uuid (u32_to_string i), enc (mb i))]"
    from Cons.prems False have here: "writable (party_key me ''round2'' uuid (u32_to_string i)) (enc (mb i))" by auto
    have "runs quits (knows (board_of kvs)) (assert_ok (sendp2p net me i ''round2'' (enc (mb i)) uuid)) ()
        (knows (board_of ?kvs))"
      using runs_sendp2p [OF here] by simp
    moreover have "runs quits (knows (board_of ?kvs))
      (send_mbs enc net me uuid ((pre @ [mb i]) @ map mb (filter (\<lambda>i. i \<noteq> me) is)) (length (pre @ [mb i])) is) ()
      (knows (board_of (?kvs @ sent_to me ''round2'' uuid (\<lambda>i. enc (mb i)) (filter (\<lambda>i. i \<noteq> me) is))))"
      using Cons.prems by (intro Cons.IH) simp
    ultimately show ?thesis
      using False by (auto simp: sent_to_Cons nth_append intro!: runs_bind runs_try)
  qed
qed

lemma runs_sign_mta:
  assumes laws: "curve_laws C" "proof_laws C" "vss_laws C (unat (sg_thr X)) (unat (sg_parties X))"
      "paillier_laws P" "sign_json_laws J"
    and X: "signers_ok X" "no_wrap C P X" "me \<in> set (u32_range (sg_count X))"
    and plays: "plays (sg_count X) uuid (sign_script C P J X r) me"
  shows "runs quits (after (sg_count X) uuid (sign_script C P J X r) me 2)
    (sign_mta C P J net (sg_thr X) me uuid (sg_draws X me) (sg_file C P X me) (sg_list X) (sg_keys C P X me)
      (map (\<lambda>j. smul C (generator C) (honest_x_i C (sg_thr X) (sg_parties X) (sg_keygen X) j))
        (u32_range (sg_parties X)))
      (map (sg_ma C P X) (others me (sg_count X))))
    (map (\<lambda>i. fst (sg_mb_gamma C P X i me)) (others me (sg_count X)), sg_delta C P X me, sg_sigma C P X me)
    (after (sg_count X) uuid (sign_script C P J X r) me 3)"
proof -
  let ?q = "sg_count X" and ?s = "sign_script C P J X r" and ?o = "others me (sg_count X)"
  let ?mb = "\<lambda>i. (fst (sg_mb_gamma C P X me i), fst (sg_mb_w C P X me i))"
    and ?rec = "\<lambda>i. (fst (sg_mb_gamma C P X i me), fst (sg_mb_w C P X i me))"
  note ok = signers_okD [OF X(1)]
  have entry: "(party_key me ''round2'' uuid (u32_to_string i), enc_mbs J (?mb i)) \<in>
      set (written ?q uuid ?s me (length ?s))" if "i \<in> set (u32_range ?q)" "i \<noteq> me" for i
    using written_sends [of 2 "length ?s" ?s "party_key me ''round2'' uuid (u32_to_string i)"
        "enc_mbs J (?mb i)" ?q uuid me] that by (auto simp: sign_script_nth)
  then have "\<forall>i\<in>set (u32_range ?q). i \<noteq> me \<longrightarrow> writable (party_key me ''round2'' uuid (u32_to_string i)) (enc_mbs J (?mb i))"
    using plays unfolding plays_def by blast
  from runs_send_mbs [OF this, of "written ?q uuid ?s me 2" "[]"]
  have send: "runs quits (after ?q uuid ?s me 2) (send_mbs (enc_mbs J) net me uuid (map ?mb ?o) 0 (u32_range ?q)) ()
      (after ?q uuid ?s me 3)"
    using written_Suc [of 2 ?s ?q uuid me] by (simp add: after_def others_def sent_to_def sign_script_nth)
  have poll: "runs quits (after ?q uuid ?s me 3) (poll_for_p2p net me ?q ''round2'' uuid)
      (map (\<lambda>i. enc_mbs J (?rec i)) ?o) (after ?q uuid ?s me 3)"
    using runs_poll_round(2) [OF plays _ sign_script_nth(4)] by (simp add: sign_script_nth(1))
  note len = length_other_signers [OF X(1,3)]
  have recs: "map_panic (\<lambda>i. do { s \<leftarrow> vec_get (map (\<lambda>i. enc_mbs J (?rec i)) ?o) i; dec_mbs J s })
      [0..<unat (sg_thr X)] = Some (map ?rec ?o)"
  proof -
    have "map_panic (\<lambda>i. do { s \<leftarrow> vec_get (map (\<lambda>i. enc_mbs J (?rec i)) ?o) i; dec_mbs J s })
        [0..<unat (sg_thr X)] = Some (map (\<lambda>k. ?rec (?o ! k)) [0..<unat (sg_thr X)])"
      using len by (intro map_panic_total) (simp add: sign_jsonD [OF laws(5)])
    also have "map (\<lambda>k. ?rec (?o ! k)) [0..<unat (sg_thr X)] = map ?rec ?o"
      using len by (intro nth_equalityI) simp_all
    finally show ?thesis .
  qed
  have delta: "phase2_delta_i (sg_keys C P X me) (map fst (map (\<lambda>i. (sg_alpha C P X me i, sg_miu C P X me i)) ?o))
      (map (snd \<circ> fst) (map (\<lambda>i. (sg_mb_gamma C P X me i, sg_mb_w C P X me i)) ?o)) = Some (sg_delta C P X me)"
    by (subst phase2_delta_i_eq) (simp_all add: sg_delta_def comp_def)
  have sigma: "phase2_sigma_i (sg_keys C P X me) (map snd (map (\<lambda>i. (sg_alpha C P X me i, sg_miu C P X me i)) ?o))
      (map (snd \<circ> snd) (map (\<lambda>i. (sg_mb_gamma C P X me i, sg_mb_w C P X me i)) ?o)) = Some (sg_sigma C P X me)"
    by (subst phase2_sigma_i_eq) (simp_all add: sg_sigma_def comp_def)
  have outs: "map (\<lambda>(g, w). (fst g, fst w)) (map (\<lambda>i. (sg_mb_gamma C P X me i, sg_mb_w C P X me i)) ?o) =
      map ?mb ?o" "map fst (map ?rec ?o) = map (\<lambda>i. fst (sg_mb_gamma C P X i me)) ?o"
    by simp_all
  show ?thesis
    unfolding sign_mta_def sg_count_def [symmetric] sg_file_fields(6)
    apply (rule runs_bind, rule runs_try, rule sg_sends [OF X(1,3)])
    apply (unfold outs(1), rule runs_bind, rule send)
    apply (rule runs_bind, rule poll, rule runs_bind, rule runs_try, rule recs)
    apply (rule runs_bind, rule runs_try, rule sg_alphas [OF laws(1-4) X])
    apply (rule runs_bind, rule runs_try, rule delta)
    apply (rule runs_bind, rule runs_try, rule sigma)
    apply (unfold outs(2), rule runs_ret)
    done
qed

lemma runs_sign_nonce:
  assumes laws: "curve_laws C" "proof_laws C" "sign_json_laws J"
    and X: "signers_ok X" "good_draws X" "me \<in> set (u32_range (sg_count X))"
    and plays: "plays (sg_count X) uuid (sign_script C P J X r) me"
  shows "runs quits (after (sg_count X) uuid (sign_script C P J X r) me 3)
    (sign_nonce C J net (sg_thr X) me uuid (snd (sg_phase1 C P X me))
      (map (\<lambda>i. fst (sg_phase1 C P X i)) (u32_range (sg_count X)))
      (map (\<lambda>i. fst (sg_mb_gamma C P X i me)) (others me (sg_count X))) (sg_delta C P X me))
    (sg_R C P X) (after (sg_count X) uuid (sign_script C P J X r) me 5)"
proof -
  let ?q = "sg_count X" and ?s = "sign_script C P J X r" and ?o = "others me (sg_count X)"
  note ok = signers_okD [OF X(1)]
  note step = runs_exchange [OF plays, unfolded sign_script_nth(1), OF _ _ _ X(1,3)]
  have round3: "runs quits (after ?q uuid ?s me 3) (exchange (enc_fe J) (dec_fe J) net me (sg_thr X) ''round3'' uuid
      (sg_delta C P X me)) (map (sg_delta C P X) (u32_range ?q)) (after ?q uuid ?s me 4)"
    using step [where enc = "enc_fe J" and parse = "dec_fe J" and val = "sg_delta C P X", OF _ sign_script_nth(5)] by (simp add: sign_jsonD [OF laws(3)])
  have round4: "runs quits (after ?q uuid ?s me 4) (exchange (enc_decommit J) (dec_decommit J) net me (sg_thr X)
      ''round4'' uuid (snd (sg_phase1 C P X me))) (map (\<lambda>i. snd (sg_phase1 C P X i)) (u32_range ?q))
      (after ?q uuid ?s me 5)"
    using step [where enc = "enc_decommit J" and parse = "dec_decommit J" and val = "\<lambda>i. snd (sg_phase1 C P X i)", OF _ sign_script_nth(6)] by (simp add: sign_jsonD [OF laws(3)])
  note remove = vec_remove_range [OF ok(1) X(3)]
  from sg_nonce(1) [OF laws(1,2) X] obtain R where
    R: "phase4 C (sg_delta_inv C P X) (map (\<lambda>j. b_proof (fst (sg_mb_gamma C P X j me))) ?o)
      (map (\<lambda>j. snd (sg_phase1 C P X j)) ?o) (map (\<lambda>j. fst (sg_phase1 C P X j)) ?o) = Some (Inr R)"
    "R + smul C (sd_g_gamma_i (snd (sg_phase1 C P X me))) (sg_delta_inv C P X) = sg_R C P X" by blast
  have proofs: "map b_proof (map (\<lambda>i. fst (sg_mb_gamma C P X i me)) ?o) =
      map (\<lambda>j. b_proof (fst (sg_mb_gamma C P X j me))) ?o" by simp
  have phase4: "Option.bind (phase4 C (sg_delta_inv C P X) (map b_proof (map (\<lambda>i. fst (sg_mb_gamma C P X i me)) ?o))
      (map (\<lambda>j. snd (sg_phase1 C P X j)) ?o) (map (\<lambda>j. fst (sg_phase1 C P X j)) ?o)) expect = Some R"
    unfolding proofs by (simp add: R(1))
  show ?thesis
    unfolding sign_nonce_def Let_def
    apply (rule runs_bind, rule round3, unfold sg_delta_inv_def [symmetric], rule runs_bind, rule round4)
    apply (rule runs_bind2, rule runs_try, rule remove)
    apply (rule runs_bind2, rule runs_try, rule remove)
    apply (rule runs_bind, rule runs_try, rule phase4)
    apply (unfold R(2), rule runs_ret)
    done
qed

lemma runs_sign_commit:
  assumes laws: "curve_laws C" "proof_laws C" "sign_json_laws J"
    and X: "signers_ok X" "me \<in> set (u32_range (sg_count X))"
    and r: "x_scalar C (sg_R C P X) = Some r"
    and plays: "plays (sg_count X) uuid (sign_script C P J X r) me"
  shows "runs quits (after (sg_count X) uuid (sign_script C P J X r) me 5)
    (sign_commit C J net (sg_thr X) me uuid (sg_draws X me) (k_i (sg_keys C P X me)) (sg_message X)
      (sg_R C P X) (sg_sigma C P X me) (sg_y C X))
    (sg_local C P X me, map (\<lambda>i. snd (sg_5a C P X i)) (u32_range (sg_count X)), sg_5c C P X r me)
    (after (sg_count X) uuid (sign_script C P J X r) me 7)"
proof -
  let ?q = "sg_count X" and ?s = "sign_script C P J X r" and ?o = "others me (sg_count X)"
  note ok = signers_okD [OF X(1)]
  note step = runs_exchange [OF plays, unfolded sign_script_nth(1), OF _ _ _ X(1,2)]
  have rounds:
    "runs quits (after ?q uuid ?s me 5) (exchange (enc_com1 J) (dec_com1 J) net me (sg_thr X) ''round5'' uuid
      (fst (sg_5a C P X me))) (map (\<lambda>i. fst (sg_5a C P X i)) (u32_range ?q)) (after ?q uuid ?s me 6)"
    "runs quits (after ?q uuid ?s me 6) (exchange (enc_decom1 J) (dec_decom1 J) net me (sg_thr X) ''round6'' uuid
      (snd (sg_5a C P X me))) (map (\<lambda>i. snd (sg_5a C P X i)) (u32_range ?q)) (after ?q uuid ?s me 7)"
    using step [where enc = "enc_com1 J" and parse = "dec_com1 J" and val = "\<lambda>i. fst (sg_5a C P X i)", OF _ sign_script_nth(7)]
      step [where enc = "enc_decom1 J" and parse = "dec_decom1 J" and val = "\<lambda>i. snd (sg_5a C P X i)", OF _ sign_script_nth(8)]
    by (simp_all add: sign_jsonD [OF laws(3)])
  note remove = vec_remove_range [OF ok(1) X(2)]
  have len: "length (map f ?o) = unat (sg_thr X)" for f :: "u32 \<Rightarrow> 'x"
    using length_other_signers [OF X(1,2)] by simp
  have phase5c: "Option.bind (phase5c C (sg_local C P X me) (map fst (map (\<lambda>i. snd (sg_5a C P X i)) ?o))
      (map (\<lambda>i. fst (sg_5a C P X i)) ?o) (map snd (map (\<lambda>i. snd (sg_5a C P X i)) ?o))
      (V_i (fst (snd (sg_5a C P X me)))) (sg_R C P X) (sr_blind5c (sg_draws X me))) expect =
    Some (sg_5c C P X r me)"
    using sg_phase5c [OF laws(1,2) X(1) r X(2)] by (simp add: comp_def)
  show ?thesis
    unfolding sign_commit_def Let_def
    apply (rule runs_bind, rule runs_try, rule sg_local_eq(1) [OF r])
    apply (unfold sg_5a_def [symmetric] case_prod_beta prod.collapse)
    apply (rule runs_bind, rule rounds(1), rule runs_bind, rule rounds(2))
    apply (rule runs_bind, rule runs_try, rule remove, rule runs_bind, rule runs_try, rule remove)
    apply (unfold fst_conv snd_conv)
    apply (rule runs_bind, rule runs_try, rule map_panic_vec_get [OF len])
    apply (rule runs_bind, rule runs_try, rule map_panic_vec_get [OF len])
    apply (rule runs_bind, rule runs_try, rule phase5c)
    apply (rule runs_ret)
    done
qed

lemma runs_sign_reveal:
  assumes laws: "curve_laws C" "proof_laws C" "vss_laws C (unat (sg_thr X)) (unat (sg_parties X))"
      "sign_json_laws J"
    and X: "signers_ok X" "good_draws X" "me \<in> set (u32_range (sg_count X))"
    and r: "x_scalar C (sg_R C P X) = Some r" "fe_from C (sg_message X) + r * sg_x X \<noteq> 0"
    and plays: "plays (sg_count X) uuid (sign_script C P J X r) me"
  shows "runs quits (after (sg_count X) uuid (sign_script C P J X r) me 7)
    (sign_reveal C J net (sg_thr X) me uuid (sg_local C P X me)
      (map (\<lambda>i. snd (sg_5a C P X i)) (u32_range (sg_count X))) (fst (sg_5c C P X r me)) (snd (sg_5c C P X r me)))
    (sg_signature C P X r) (after (sg_count X) uuid (sign_script C P J X r) me 10)"
proof -
  let ?q = "sg_count X" and ?s = "sign_script C P J X r" and ?o = "others me (sg_count X)"
  note ok = signers_okD [OF X(1)]
  note step = runs_exchange [OF plays, unfolded sign_script_nth(1), OF _ _ _ X(1,3)]
  have rounds:
    "runs quits (after ?q uuid ?s me 7) (exchange (enc_com2 J) (dec_com2 J) net me (sg_thr X) ''round7'' uuid
      (fst (sg_5c C P X r me))) (map (\<lambda>i. fst (sg_5c C P X r i)) (u32_range ?q)) (after ?q uuid ?s me 8)"
    "runs quits (after ?q uuid ?s me 8) (exchange (enc_decom2 J) (dec_decom2 J) net me (sg_thr X) ''round8'' uuid
      (snd (sg_5c C P X r me))) (map (\<lambda>i. snd (sg_5c C P X r i)) (u32_range ?q)) (after ?q uuid ?s me 9)"
    "runs quits (after ?q uuid ?s me 9) (exchange (enc_fe J) (dec_fe J) net me (sg_thr X) ''round9'' uuid
      (s_i (sg_local C P X me))) (map (\<lambda>i. s_i (sg_local C P X i)) (u32_range ?q)) (after ?q uuid ?s me 10)"
    using step [where enc = "enc_com2 J" and parse = "dec_com2 J" and val = "\<lambda>i. fst (sg_5c C P X r i)", OF _ sign_script_nth(9)]
      step [where enc = "enc_decom2 J" and parse = "dec_decom2 J" and val = "\<lambda>i. snd (sg_5c C P X r i)", OF _ sign_script_nth(10)]
      step [where enc = "enc_fe J" and parse = "dec_fe J" and val = "\<lambda>i. s_i (sg_local C P X i)", OF _ sign_script_nth(11)]
    by (simp_all add: sign_jsonD [OF laws(4)])
  note remove = vec_remove_range [OF ok(1) X(3)]
  have len: "length (map g (u32_range ?q)) = unat (sg_thr X + 1)" for g :: "u32 \<Rightarrow> 'y"
    using ok(4,5) by (simp add: sg_count_def)
  have phase5d: "Option.bind (phase5d C (sg_local C P X me) (map (\<lambda>i. snd (sg_5c C P X r i)) (u32_range ?q))
      (map (\<lambda>i. fst (sg_5c C P X r i)) (u32_range ?q)) (map fst (map (\<lambda>i. snd (sg_5a C P X i)) (u32_range ?q))))
      expect = Some (s_i (sg_local C P X me))"
    using sg_phase5d [OF laws(1) X(1,2) r(1) sg_check(1) [OF laws(1,2) X(1,2) laws(3) r(1)]]
    by (simp add: comp_def)
  have signed: "Option.bind (output_signature C (sg_local C P X me) (map (\<lambda>i. s_i (sg_local C P X i)) ?o)) expect =
      Some (sg_signature C P X r)"
    using sg_output [OF laws(1,2) X(1,2) laws(3) r X(3)] by simp
  show ?thesis
    unfolding sign_reveal_def case_prod_beta
    apply (rule runs_bind, rule rounds(1), rule runs_bind, rule rounds(2))
    apply (rule runs_bind, rule runs_try, rule map_panic_vec_get [OF len])
    apply (rule runs_bind, rule runs_try, rule phase5d)
    apply (rule runs_bind, rule rounds(3), rule runs_bind, rule runs_try, rule remove)
    apply (unfold snd_conv, rule runs_try, rule signed)
    done
qed

lemma runs_sign_session:
  assumes laws: "curve_laws C" "proof_laws C" "vss_laws C (unat (sg_thr X)) (unat (sg_parties X))"
      "paillier_laws P" "sign_json_laws J"
    and X: "signers_ok X" "no_wrap C P X" "good_draws X" "me \<in> set (u32_range (sg_count X))"
    and r: "x_scalar C (sg_R C P X) = Some r" "fe_from C (message_bn G message) + r * sg_x X \<noteq> 0"
    and message: "sg_message X = message_bn G message"
    and plays: "plays (sg_count X) uuid (sign_script C P J X r) me"
  shows "runs quits (after (sg_count X) uuid (sign_script C P J X r) me 0)
    (sign_session C P G J net (sg_thr X) me uuid (sg_draws X me) (sg_file C P X me) message)
    (sg_signature C P X r) (after (sg_count X) uuid (sign_script C P J X r) me 10)"
  unfolding sign_session_def case_prod_beta sg_file_fields(2) message [symmetric]
  apply (rule runs_bind, rule runs_sign_setup [OF laws(1,3,5) X(1,4) plays], unfold fst_conv snd_conv)
  apply (rule runs_bind, rule runs_sign_mta [OF laws X(1,2,4) plays], unfold fst_conv snd_conv)
  apply (rule runs_bind, rule runs_sign_nonce [OF laws(1,2,5) X(1,3,4) plays])
  apply (unfold sign_phase5_def case_prod_beta)
  apply (rule runs_bind, rule runs_sign_commit [OF laws(1,2,5) X(1,4) r(1) plays], unfold fst_conv snd_conv)
  apply (rule runs_sign_reveal [OF laws(1-3,5) X(1,3,4) r(1) r(2) [folded message] plays])
  done

end

end
