(* ===== verification/Sample_Signing.thy ===== *)
theory Sample_Signing
  imports Sample_Codecs Sign_Run_Correct
begin

text \<open>
  An instance of the codec of the signing messages over \<open>Small_Curve\<close> which satisfies its laws, and
  the data of a run of two signers.
\<close>

section \<open>The codec\<close>

definition sign_json7 :: "(gf7, gf7, gf7, gf7 elgamal_witness) sign_json" where
  "sign_json7 = \<lparr>
     enc_id = (\<lambda>i. int_text (uint i)), dec_id = (\<lambda>s. Some (word_of_int (parse_int_text s))),
     enc_com_ma = (\<lambda>(b, m). pair_text (int_text (sb_com b)) (int_text (ma_c m))),
     dec_com_ma = (\<lambda>s. map_option (\<lambda>(b, m). (\<lparr>sb_com = parse_int_text b\<rparr>, \<lparr>ma_c = parse_int_text m\<rparr>))
       (parse_pair_text s)),
     enc_mbs = (\<lambda>(g, w). pair_text (pair_text (int_text (mb_c g)) (int_text (mb_c w)))
       (gf_text [b_proof g, beta_tag_proof g, b_proof w, beta_tag_proof w])),
     dec_mbs = (\<lambda>s. do {
       (cs, ps) \<leftarrow> parse_pair_text s;
       (c, d) \<leftarrow> parse_pair_text cs;
       let ps = parse_gf_text ps;
       Some (\<lparr>mb_c = parse_int_text c, b_proof = ps ! 0, beta_tag_proof = ps ! 1\<rparr>,
         \<lparr>mb_c = parse_int_text d, b_proof = ps ! 2, beta_tag_proof = ps ! 3\<rparr>) }),
     enc_fe = (\<lambda>x. gf_text [x]), dec_fe = (\<lambda>s. Some (hd (parse_gf_text s))),
     enc_decommit = (\<lambda>d. pair_text (int_text (sd_blind_factor d)) (gf_text [sd_g_gamma_i d])),
     dec_decommit = (\<lambda>s. map_option (\<lambda>(b, g). \<lparr>sd_blind_factor = parse_int_text b,
       sd_g_gamma_i = hd (parse_gf_text g)\<rparr>) (parse_pair_text s)),
     enc_com1 = (\<lambda>c. int_text (com1 c)), dec_com1 = (\<lambda>s. Some \<lparr>com1 = parse_int_text s\<rparr>),
     enc_decom1 = (\<lambda>(d, p). pair_text (int_text (d1_blind_factor d))
       (gf_text [V_i d, A_i d, B_i d, ew_r p, ew_x p])),
     dec_decom1 = (\<lambda>s. map_option (\<lambda>(b, gs). let gs = parse_gf_text gs in
       (\<lparr>V_i = gs ! 0, A_i = gs ! 1, B_i = gs ! 2, d1_blind_factor = parse_int_text b\<rparr>,
        \<lparr>ew_r = gs ! 3, ew_x = gs ! 4\<rparr>)) (parse_pair_text s)),
     enc_com2 = (\<lambda>c. int_text (com2 c)), dec_com2 = (\<lambda>s. Some \<lparr>com2 = parse_int_text s\<rparr>),
     enc_decom2 = (\<lambda>d. pair_text (int_text (d2_blind_factor d)) (gf_text [d2_u_i d, d2_t_i d])),
     dec_decom2 = (\<lambda>s. map_option (\<lambda>(b, gs). let gs = parse_gf_text gs in
       \<lparr>d2_u_i = gs ! 0, d2_t_i = gs ! 1, d2_blind_factor = parse_int_text b\<rparr>) (parse_pair_text s))\<rparr>"

lemma sign_json7_laws: "sign_json_laws sign_json7"
  by (simp add: sign_json_laws_def sign_json7_def ascii_utf8 Let_def split: prod.splits)

section \<open>A run of two signers\<close>

text \<open>Signer \<open>i\<close> is party \<open>3 - i\<close> of the key generation \<open>rnd7\<close>; the message is 3.\<close>

definition draws7 :: "u32 \<Rightarrow> gf7 sign_rnd" where
  "draws7 i = \<lparr>sr_gamma = (if i = 1 then Z2 else Z3), sr_k = (if i = 1 then Z1 else Z3), sr_blind = 21,
     sr_ma = 22, sr_mb_gamma = (\<lambda>j. \<lparr>mb_beta_tag = 10, mb_enc_seed = 1, mb_b_seed = 2, mb_beta_seed = 3\<rparr>),
     sr_mb_w = (\<lambda>j. \<lparr>mb_beta_tag = 20, mb_enc_seed = 4, mb_b_seed = 5, mb_beta_seed = 6\<rparr>),
     sr_l = Z4, sr_rho = (if i = 1 then Z5 else Z6), sr_blind5a = 23, sr_seed5b = 24, sr_blind5c = 25\<rparr>"

definition signing7 :: "gf7 signing" where
  "signing7 = \<lparr>sg_parties = 2, sg_thr = 1, sg_keygen = rnd7, sg_party = (\<lambda>i. 3 - i),
     sg_draws = draws7, sg_message = 3\<rparr>"

lemma signing7_simps [simp]:
  "sg_parties signing7 = 2" "sg_thr signing7 = 1" "sg_keygen signing7 = rnd7"
  "sg_party signing7 i = 3 - i" "sg_draws signing7 = draws7" "sg_message signing7 = 3"
  "sg_count signing7 = 2"
  by (simp_all add: signing7_def sg_count_def)

lemma draws7_simps [simp]:
  "mb_beta_tag (sr_mb_gamma (draws7 i) j) = 10" "mb_beta_tag (sr_mb_w (draws7 i) j) = 20"
  by (simp_all add: draws7_def)

lemma signers7: "signers_ok signing7"
proof -
  have "(1 :: u32) < - 2" "(2 :: u32) < - 1" by (code_simp, code_simp)
  then show ?thesis by (simp add: signers_ok_def range2)
qed

lemma mta_plain7: "bt \<le> 20 \<Longrightarrow> mta_plain C7 a b bt < 1000"
proof -
  assume bt: "bt \<le> 20"
  have "gf_to a * gf_to b \<le> 6 * 6"
    using gf_to_range [of a] gf_to_range [of b] by (intro mult_mono) auto
  then show ?thesis using bt by (simp add: mta_plain_def C7_def)
qed

lemma no_wrap7: "no_wrap C7 P7 signing7"
  by (simp add: no_wrap_def sg_ek_def mta_plain7)

lemma good_draws7: "good_draws signing7"
  by (simp add: good_draws_def range2 draws7_def gf7_defs gf_of_def)

lemma nonce7: "x_scalar C7 (sg_R C7 P7 signing7) = Some Z1"
proof -
  have me: "(1 :: u32) \<in> set (u32_range (sg_count signing7))" by (simp add: range2)
  have "Z4 * sg_kinv C7 P7 signing7 = Z1"
    using sg_nonce(2) [OF curve_laws_C7 proof_laws_C7 signers7 good_draws7 me]
    by (simp add: range2 draws7_def gf7_defs gf_of_def)
  then have "sg_kinv C7 P7 signing7 = Z2"
    by (cases "sg_kinv C7 P7 signing7") (simp_all add: gf7_defs gf_of_def)
  then show ?thesis by (simp add: sg_R_def x_scalar_def) (simp add: gf7_defs gf_of_def)
qed

lemma message7: "message_bn gcm7 ''111'' = 3"
  by (simp add: message_bn_def gcm7_def parse_int_text_def)

lemma signed7: "fe_from C7 3 + Z1 * sg_x signing7 \<noteq> 0"
  by (simp add: sg_x_def range2 rnd7_def gf7_defs gf_of_def)

end
