(* ===== verification/Processes.thy ===== *)
theory Processes
  imports Client
begin

text \<open>
  Several client programs at one server. The server answers one request at a time; between two
  requests of a program any number of requests of the others may come. A process is a program with
  the answers that it has received so far, which determine its next request: the program is run
  on these answers (\<open>tape_net\<close>), and asks for one more, or ends. \<open>replays\<close> and \<open>follows\<close> relate
  these runs to the run of the program over any other net.
\<close>

section \<open>Processes\<close>

type_synonym request = "string \<times> body"

text \<open>The answers that are left, and the requests that were made. A request for which no answer is
  left fails, so that the program ends.\<close>

type_synonym tape = "http_get list \<times> request list"

definition tape_post :: "string \<Rightarrow> body \<Rightarrow> tape \<Rightarrow> http_get \<times> tape" where
  "tape_post path body w =
     (case w of
        ([], log) \<Rightarrow> (Get_Err, ([], log @ [(path, body)]))
      | (r # rs, log) \<Rightarrow> (r, (rs, log @ [(path, body)])))"

definition tape_net :: "'w net \<Rightarrow> tape net" where
  "tape_net net =
     \<lparr>post = tape_post,
      dec_signup = dec_signup net, dec_unit = dec_unit net, dec_entry = dec_entry net\<rparr>"

definition next_request :: "(tape, 'a) prog \<Rightarrow> http_get list \<Rightarrow> request option" where
  "next_request m rs =
     (case m (rs, []) of
        None \<Rightarrow> None
      | Some (_, (_, log)) \<Rightarrow> if length rs < length log then Some (log ! length rs) else None)"

text \<open>How a process has ended: \<open>None\<close> while it waits for an answer, \<open>Some None\<close> for a panic.\<close>

definition outcome :: "(tape, 'a) prog \<Rightarrow> http_get list \<Rightarrow> 'a option option" where
  "outcome m rs =
     (case m (rs, []) of
        None \<Rightarrow> None
      | Some (x, (_, log)) \<Rightarrow> if length rs < length log then None else Some x)"

text \<open>A system: the programs, the schedule of their turns, the server's net at the time of each turn
  (the nets differ in what the server draws for a request), and the world of the server at the
  start.\<close>

record ('w, 'a) system =
  sy_progs :: "(tape, 'a) prog list"
  sy_sched :: "nat \<Rightarrow> nat"
  sy_net :: "nat \<Rightarrow> 'w net"
  sy_start :: 'w

text \<open>The state: the world of the server, and the answers of each process. In a turn the process makes
  its next request; a process that has ended does nothing.\<close>

definition process_turn ::
  "'w net \<Rightarrow> (tape, 'a) prog list \<Rightarrow> nat \<Rightarrow> 'w \<times> http_get list list \<Rightarrow> 'w \<times> http_get list list" where
  "process_turn net progs p s =
     (case s of (w, rss) \<Rightarrow>
        if p < length progs
        then (case next_request (progs ! p) (rss ! p) of
                None \<Rightarrow> (w, rss)
              | Some (path, body) \<Rightarrow>
                  (let (r, w') = post net path body w in (w', rss[p := rss ! p @ [r]])))
        else (w, rss))"

primrec system_run :: "('w, 'a) system \<Rightarrow> nat \<Rightarrow> 'w \<times> http_get list list" where
  "system_run S 0 = (sy_start S, replicate (length (sy_progs S)) [])"
| "system_run S (Suc t) = process_turn (sy_net S t) (sy_progs S) (sy_sched S t) (system_run S t)"

definition world_at :: "('w, 'a) system \<Rightarrow> nat \<Rightarrow> 'w" where
  "world_at S t = fst (system_run S t)"

definition answers_at :: "('w, 'a) system \<Rightarrow> nat \<Rightarrow> nat \<Rightarrow> http_get list" where
  "answers_at S p t = snd (system_run S t) ! p"

text \<open>How process \<open>p\<close> has ended by time \<open>t\<close>.\<close>

definition result_at :: "('w, 'a) system \<Rightarrow> nat \<Rightarrow> nat \<Rightarrow> 'a option option" where
  "result_at S p t = outcome (sy_progs S ! p) (answers_at S p t)"

text \<open>Every process takes its turn again and again.\<close>

definition fair_turns :: "('w, 'a) system \<Rightarrow> bool" where
  "fair_turns S \<longleftrightarrow> (\<forall>p < length (sy_progs S). \<forall>t. \<exists>t'\<ge>t. sy_sched S t' = p)"

section \<open>Replaying a program\<close>

text \<open>What a program and a net said to each other.\<close>

primrec dialogue :: "'w net \<Rightarrow> (request \<times> http_get) list \<Rightarrow> 'w \<Rightarrow> 'w \<Rightarrow> bool" where
  "dialogue net [] w w' \<longleftrightarrow> w' = w"
| "dialogue net (x # tr) w w' \<longleftrightarrow>
     (\<exists>w1. post net (fst (fst x)) (snd (fst x)) w = (snd x, w1) \<and> dialogue net tr w1 w')"

text \<open>On the answers of \<open>tr\<close> a program makes the requests of \<open>tr\<close> and ends with \<open>x\<close>; on fewer answers it
  makes the next request.\<close>

definition replays :: "(tape, 'a) prog \<Rightarrow> (request \<times> http_get) list \<Rightarrow> 'a option \<Rightarrow> bool" where
  "replays m tr x \<longleftrightarrow>
     (\<forall>log rest. m (map snd tr @ rest, log) = Some (x, (rest, log @ map fst tr))) \<and>
     (\<forall>log. \<forall>n < length tr. \<exists>log'.
        m (map snd (take n tr), log) = Some (None, ([], log @ map fst (take (Suc n) tr) @ log')))"

definition follows :: "'w net \<Rightarrow> (tape, 'a) prog \<Rightarrow> ('w, 'a) prog \<Rightarrow> bool" where
  "follows net m m' \<longleftrightarrow>
     (\<forall>w x w'. m' w = Some (x, w') \<longrightarrow> (\<exists>tr. dialogue net tr w w' \<and> replays m tr x))"

lemma followsE:
  assumes "follows net m m'" "m' w = Some (x, w')"
  obtains tr where "dialogue net tr w w'" "replays m tr x"
  using assms unfolding follows_def by blast

lemma replaysD:
  assumes "replays m tr x"
  shows "m (map snd tr @ rest, log) = Some (x, (rest, log @ map fst tr))"
    and "n < length tr \<Longrightarrow> \<exists>log'.
      m (map snd (take n tr), log) = Some (None, ([], log @ map fst (take (Suc n) tr) @ log'))"
  using assms unfolding replays_def by blast+

lemma replays_next:
  assumes "replays m tr x" "n < length tr"
  shows "next_request m (map snd (take n tr)) = Some (fst (tr ! n))"
proof -
  obtain log' where "m (map snd (take n tr), []) = Some (None, ([], map fst (take (Suc n) tr) @ log'))"
    using replaysD(2) [OF assms, of "[]"] by auto
  then show ?thesis
    using assms(2) by (simp add: next_request_def nth_append min_def take_Suc_conv_app_nth)
qed

lemma replays_outcome:
  assumes "replays m tr x"
  shows "outcome m (map snd tr) = Some x" "next_request m (map snd tr) = None"
proof -
  have "m (map snd tr, []) = Some (x, ([], map fst tr))"
    using replaysD(1) [OF assms, of "[]" "[]"] by simp
  then show "outcome m (map snd tr) = Some x" "next_request m (map snd tr) = None"
    by (simp_all add: outcome_def next_request_def)
qed

lemma dialogue_append:
  "dialogue net (tr @ tr') w w' \<longleftrightarrow> (\<exists>w1. dialogue net tr w w1 \<and> dialogue net tr' w1 w')"
  by (induction tr arbitrary: w) auto

section \<open>The rules\<close>

lemma follows_ret: "follows net (ret a) (ret a)"
  by (auto simp: follows_def ret_def replays_def intro!: exI [of _ "[]"])

lemma follows_try: "follows net (try_prog x) (try_prog x)"
  by (auto simp: follows_def try_prog_def replays_def intro!: exI [of _ "[]"])

lemma replays_bind:
  assumes "replays m tr (Some a)" "replays (k a) tr' x"
  shows "replays (bind_prog m k) (tr @ tr') x"
proof -
  have whole: "bind_prog m k (map snd (tr @ tr') @ rest, log) = Some (x, (rest, log @ map fst (tr @ tr')))"
    for log rest
    using assms by (simp add: replays_def bind_prog_def)
  have part: "\<exists>log'. bind_prog m k (map snd (take n (tr @ tr')), log) =
      Some (None, ([], log @ map fst (take (Suc n) (tr @ tr')) @ log'))"
    if n: "n < length (tr @ tr')" for n log
  proof (cases "n < length tr")
    case True
    then obtain log' where "m (map snd (take n tr), log) = Some (None, ([], log @ map fst (take (Suc n) tr) @ log'))"
      using assms(1) unfolding replays_def by blast
    then show ?thesis using True by (simp add: bind_prog_def)
  next
    case False
    let ?n = "n - length tr"
    have "?n < length tr'" using False n by auto
    then obtain log' where "k a (map snd (take ?n tr'), log @ map fst tr) =
        Some (None, ([], (log @ map fst tr) @ map fst (take (Suc ?n) tr') @ log'))"
      using assms(2) unfolding replays_def by blast
    moreover have "m (map snd tr @ map snd (take ?n tr'), log) =
        Some (Some a, (map snd (take ?n tr'), log @ map fst tr))"
      using assms(1) unfolding replays_def by blast
    ultimately show ?thesis using False by (simp add: bind_prog_def Suc_diff_le)
  qed
  show ?thesis unfolding replays_def by (intro conjI allI impI whole part)
qed

lemma replays_bind_panic:
  assumes "replays m tr None"
  shows "replays (bind_prog m k) tr None"
  unfolding replays_def bind_prog_def
proof (intro conjI allI impI)
  fix log n assume "n < length tr"
  from replaysD(2) [OF assms this, of log]
  show "\<exists>log'. (case m (map snd (take n tr), log) of None \<Rightarrow> None | Some (None, w') \<Rightarrow> Some (None, w')
      | Some (Some a, w') \<Rightarrow> k a w') = Some (None, ([], log @ map fst (take (Suc n) tr) @ log'))" by auto
qed (simp add: replaysD(1) [OF assms])

lemma follows_bind:
  assumes "follows net m m'" "\<And>a. follows net (k a) (k' a)"
  shows "follows net (bind_prog m k) (bind_prog m' k')"
  unfolding follows_def
proof (intro allI impI)
  fix w x w' assume run: "bind_prog m' k' w = Some (x, w')"
  then obtain y w1 where y: "m' w = Some (y, w1)" by (cases "m' w") (auto simp: bind_prog_def)
  from assms(1) y obtain tr where tr: "dialogue net tr w w1" "replays m tr y" by (rule followsE)
  show "\<exists>tr. dialogue net tr w w' \<and> replays (bind_prog m k) tr x"
  proof (cases y)
    case None
    then have "x = None" "w' = w1" using run y by (simp_all add: bind_prog_def)
    then show ?thesis using tr None replays_bind_panic by blast
  next
    case (Some a)
    then have "k' a w1 = Some (x, w')" using run y by (simp add: bind_prog_def)
    with assms(2) obtain tr' where "dialogue net tr' w1 w'" "replays (k a) tr' x" by (rule followsE)
    then show ?thesis
      using tr Some replays_bind [of m tr a k tr' x] dialogue_append [of net tr tr' w w'] by blast
  qed
qed

lemma tape_post_simps [simp]:
  "tape_post path body ([], log) = (Get_Err, ([], log @ [(path, body)]))"
  "tape_post path body (r # rs, log) = (r, (rs, log @ [(path, body)]))"
  by (simp_all add: tape_post_def)

lemma tape_net_simps [simp]:
  "post (tape_net net) = tape_post" "dec_signup (tape_net net) = dec_signup net"
  "dec_unit (tape_net net) = dec_unit net" "dec_entry (tape_net net) = dec_entry net"
  by (simp_all add: tape_net_def)

text \<open>A request whose answer is decoded by \<open>f\<close>: one or two requests over the net.\<close>

definition answer_of :: "http_get \<Rightarrow> (string \<Rightarrow> 'a option) \<Rightarrow> 'a option" where
  "answer_of r dec = (case r of Get_Ok (Some t) \<Rightarrow> dec t | _ \<Rightarrow> None)"

lemma request_answer_cases:
  "request_answer net path body dec w =
     (case post net path body w of
        (Get_Ok t, w1) \<Rightarrow> (answer_of (Get_Ok t) dec, w1)
      | (Get_Err, w1) \<Rightarrow> (case post net path body w1 of (r, w2) \<Rightarrow> (answer_of r dec, w2)))"
  by (auto simp: request_answer_def postb_def numeral_2_eq_2 and_then_def unwrap_def done_with_def
      panic_def answer_of_def split: http_get.split prod.split option.split)

lemma replays_request:
  fixes net :: "'w net" and path :: string and body :: body
    and dec :: "string \<Rightarrow> 'a option" and f :: "'a \<Rightarrow> 'b option"
  defines "m \<equiv> act_prog (and_then (request_answer (tape_net net) path body dec) (\<lambda>a w. (f a, w)))"
  shows "replays m [((path, body), Get_Ok t)] (Option.bind (answer_of (Get_Ok t) dec) f)"
    and "replays m [((path, body), Get_Err), ((path, body), r)] (Option.bind (answer_of r dec) f)"
  by (auto simp: replays_def m_def act_prog_def and_then_def request_answer_cases answer_of_def
      less_Suc_eq split: option.splits http_get.splits)

lemma follows_request:
  "follows net (act_prog (and_then (request_answer (tape_net net) path body dec) (\<lambda>a w. (f a, w))))
     (act_prog (and_then (request_answer net path body dec) (\<lambda>a w. (f a, w))))"
  (is "follows net ?m ?m'")
  unfolding follows_def
proof (intro allI impI)
  fix w x w' assume run: "?m' w = Some (x, w')"
  obtain r w1 where r: "post net path body w = (r, w1)" by (cases "post net path body w")
  show "\<exists>tr. dialogue net tr w w' \<and> replays ?m tr x"
  proof (cases r)
    case (Get_Ok t)
    then have "x = Option.bind (answer_of (Get_Ok t) dec) f \<and> w' = w1"
      using run r by (auto simp: act_prog_def and_then_def request_answer_cases split: option.splits)
    then show ?thesis
      using r Get_Ok replays_request(1)
      by (intro exI [of _ "[((path, body), Get_Ok t)]"]) simp
  next
    case Get_Err
    obtain r' w2 where r': "post net path body w1 = (r', w2)" by (cases "post net path body w1")
    then have "x = Option.bind (answer_of r' dec) f \<and> w' = w2"
      using run r Get_Err
      by (auto simp: act_prog_def and_then_def request_answer_cases split: option.splits)
    then show ?thesis
      using r r' Get_Err replays_request(2)
      by (intro exI [of _ "[((path, body), Get_Err), ((path, body), r')]"]) simp
  qed
qed

lemma and_then_done: "and_then m (\<lambda>a w. (Some a, w)) = m"
  by (auto simp: and_then_def fun_eq_iff split: prod.splits option.splits)

lemma follows_answer:
  "follows net (act_prog (request_answer (tape_net net) path body dec))
     (act_prog (request_answer net path body dec))"
  using follows_request [of net path body dec Some] by (simp only: and_then_done)

lemma poll_eq:
  "poll net ix = bind_prog (act_prog (get_entry net ix))
     (\<lambda>answer. case answer of Inr e \<Rightarrow> ret (en_value e) | Inl _ \<Rightarrow> poll net ix)"
  by (rule ext, subst poll.simps)
    (auto simp: bind_prog_def act_prog_def ret_def split: option.splits sum.splits prod.splits)

lemma follows_poll: "follows net (poll (tape_net net) ix) (poll net ix)"
proof -
  let ?replay = "\<lambda>net ix w y. \<exists>tr. dialogue net tr w (snd y) \<and> replays (poll (tape_net net) ix) tr (fst y)"
  have "?replay net ix w y" if "poll net ix w = Some y" for w y
  proof (rule poll.raw_induct [where P = ?replay, OF _ that])
    fix poll' :: "'a net \<Rightarrow> index \<Rightarrow> 'a \<Rightarrow> (string option \<times> 'a) option" and net ix w y
    assume IH: "\<And>net ix w y. poll' net ix w = Some y \<Longrightarrow> ?replay net ix w y"
      and run: "(case get_entry net ix w of
          (None, w') \<Rightarrow> Some (None, w')
        | (Some (Inl x), w') \<Rightarrow> poll' net ix w'
        | (Some (Inr e), w') \<Rightarrow> Some (Some (en_value e), w')) = Some y"
    obtain a w1 where a: "get_entry net ix w = (a, w1)" by (cases "get_entry net ix w")
    then have "act_prog (get_entry net ix) w = Some (a, w1)" by (simp add: act_prog_def)
    then obtain tr where tr: "dialogue net tr w w1" "replays (act_prog (get_entry (tape_net net) ix)) tr a"
      using follows_answer [of net "''get''" "Body_Index ix" "dec_entry net"]
      unfolding get_entry_def by (auto elim: followsE)
    consider "a = None" | e where "a = Some (Inr e)" | "a = Some (Inl ())"
      by (cases a) (auto split: sum.splits, metis old.sum.exhaust unit.exhaust)
    then show "?replay net ix w y"
    proof cases
      case 1
      then show ?thesis
        using run a tr by (subst poll_eq) (auto intro!: exI [of _ tr] replays_bind_panic)
    next
      case 2
      have "replays (ret (en_value e)) [] (Some (en_value e))" by (simp add: replays_def ret_def)
      then show ?thesis
        using 2 run a tr replays_bind [OF tr(2) [unfolded 2], of
            "\<lambda>answer. case answer of Inr e \<Rightarrow> ret (en_value e) | Inl _ \<Rightarrow> poll (tape_net net) ix" "[]"]
        by (subst poll_eq) (auto intro!: exI [of _ tr])
    next
      case 3
      then have "poll' net ix w1 = Some y" using run a by simp
      from IH [OF this] obtain tr' where
        "dialogue net tr' w1 (snd y)" "replays (poll (tape_net net) ix) tr' (fst y)" by blast
      then show ?thesis
        using tr(1) dialogue_append [of net tr tr' w "snd y"] replays_bind [OF tr(2) [unfolded 3], of
            "\<lambda>answer. case answer of Inr e \<Rightarrow> ret (en_value e) | Inl _ \<Rightarrow> poll (tape_net net) ix" tr']
        by (subst poll_eq) (auto intro!: exI [of _ "tr @ tr'"])
    qed
  qed
  then show ?thesis by (fastforce simp: follows_def)
qed

lemma follows_poll_list: "follows net (poll_list (tape_net net) ks) (poll_list net ks)"
  by (induction ks) (auto intro!: follows_ret follows_bind follows_poll)

lemma follows_polls:
  "follows net (poll_for_broadcasts (tape_net net) me n round uuid) (poll_for_broadcasts net me n round uuid)"
  "follows net (poll_for_p2p (tape_net net) me n round uuid) (poll_for_p2p net me n round uuid)"
  by (simp_all add: poll_for_broadcasts_def poll_for_p2p_def follows_poll_list)

end
