(* ===== verification/Environment.thy ===== *)
theory Environment
  imports Rounds Processes
begin

text \<open>
  A running system as one of its processes sees it. The requests of the other processes come at
  fixed times (the environment); the own requests are made at the own turns. If the environment
  only makes requests that a party of the session makes (\<open>polite\<close>), then a program that plays its
  part in a script ends with its result, or waits for a message that never comes, having written
  all messages that it owes until then: \<open>views\<close> interprets \<open>session_board\<close> on this net.
\<close>

section \<open>The net of one process\<close>

abbreviation set_req :: "tuple_key \<Rightarrow> string \<Rightarrow> request" where
  "set_req k v \<equiv> (''set'', Body_Entry \<lparr>en_key = k, en_value = v\<rparr>)"

abbreviation get_req :: "tuple_key \<Rightarrow> request" where
  "get_req k \<equiv> (''get'', Body_Index \<lparr>ix_key = k\<rparr>)"

type_synonym environment = "nat \<Rightarrow> request option"

text \<open>The request of a time step, and those of an interval.\<close>

definition serve :: "(nat \<Rightarrow> 'w net) \<Rightarrow> environment \<Rightarrow> nat \<Rightarrow> 'w \<Rightarrow> 'w" where
  "serve nets e t w =
     (case e t of None \<Rightarrow> w | Some q \<Rightarrow> snd (post (nets t) (fst q) (snd q) w))"

definition serve_between :: "(nat \<Rightarrow> 'w net) \<Rightarrow> environment \<Rightarrow> nat \<Rightarrow> nat \<Rightarrow> 'w \<Rightarrow> 'w" where
  "serve_between nets e t t' w = foldl (\<lambda>w s. serve nets e s w) w [t..<t']"

definition turn :: "(nat \<Rightarrow> nat) \<Rightarrow> nat \<Rightarrow> nat \<Rightarrow> nat" where
  "turn sched p t = (LEAST t'. t \<le> t' \<and> sched t' = p)"

text \<open>A view: the world at a time, whether the program is still answered, and the requests that it
  made. From the time \<open>T\<close> on it is not answered any more when it waits for a key that is never
  set.\<close>

record 'w view =
  v_world :: 'w
  v_time :: nat
  v_live :: bool
  v_made :: "request list"

definition never_set :: "environment \<Rightarrow> tuple_key \<Rightarrow> bool" where
  "never_set e k \<longleftrightarrow> (\<forall>s v. e s \<noteq> Some (set_req k v))"

definition hopeless :: "environment \<Rightarrow> request \<Rightarrow> bool" where
  "hopeless e q \<longleftrightarrow> (\<exists>k. q = get_req k \<and> never_set e k)"

definition view_post ::
  "(nat \<Rightarrow> 'w net) \<Rightarrow> (nat \<Rightarrow> nat) \<Rightarrow> nat \<Rightarrow> environment \<Rightarrow> nat \<Rightarrow> string \<Rightarrow> body \<Rightarrow> 'w view \<Rightarrow>
   http_get \<times> 'w view" where
  "view_post nets sched p e T path body v =
     (if \<not> v_live v then (Get_Err, v)
      else
        let t = turn sched p (v_time v); w = serve_between nets e (v_time v) t (v_world v) in
        if hopeless e (path, body) \<and> T \<le> t
        then (Get_Err, v\<lparr>v_world := w, v_time := t, v_live := False\<rparr>)
        else
          let (r, w') = post (nets t) path body w in
          (r, \<lparr>v_world = w', v_time = Suc t, v_live = True, v_made = v_made v @ [(path, body)]\<rparr>))"

definition view_net ::
  "(nat \<Rightarrow> 'w net) \<Rightarrow> (nat \<Rightarrow> nat) \<Rightarrow> nat \<Rightarrow> environment \<Rightarrow> nat \<Rightarrow> 'w view net" where
  "view_net nets sched p e T =
     \<lparr>post = view_post nets sched p e T, dec_signup = dec_signup (nets 0),
      dec_unit = dec_unit (nets 0), dec_entry = dec_entry (nets 0)\<rparr>"

lemma turn:
  assumes "\<forall>t. \<exists>t'\<ge>t. sched t' = p"
  shows "t \<le> turn sched p t" "sched (turn sched p t) = p"
    and "t \<le> s \<Longrightarrow> s < turn sched p t \<Longrightarrow> sched s \<noteq> p"
    and "t \<le> s \<Longrightarrow> sched s = p \<Longrightarrow> turn sched p t \<le> s"
proof -
  obtain t' where "t \<le> t' \<and> sched t' = p" using assms by blast
  then have "t \<le> turn sched p t \<and> sched (turn sched p t) = p" unfolding turn_def by (rule LeastI)
  then show "t \<le> turn sched p t" "sched (turn sched p t) = p" by simp_all
  show "t \<le> s \<Longrightarrow> s < turn sched p t \<Longrightarrow> sched s \<noteq> p" unfolding turn_def by (blast dest: not_less_Least)
  show "t \<le> s \<Longrightarrow> sched s = p \<Longrightarrow> turn sched p t \<le> s" unfolding turn_def by (simp add: Least_le)
qed

section \<open>Sessions\<close>

text \<open>All messages of a session, and the requests of its parties: a party reads, writes its own
  messages, and makes requests that leave the messages alone.\<close>

definition messages_of :: "u32 \<Rightarrow> string \<Rightarrow> script \<Rightarrow> (tuple_key \<times> string) set" where
  "messages_of n uuid script = (\<Union>i\<in>set (u32_range n). set (written n uuid script i (length script)))"

definition polite :: "(request \<Rightarrow> bool) \<Rightarrow> (tuple_key \<times> string) set \<Rightarrow> request \<Rightarrow> bool" where
  "polite harmless M q \<longleftrightarrow>
     harmless q \<or> (\<exists>k. q = get_req k) \<or> (\<exists>(k, v)\<in>M. q = set_req k v)"

lemma messages_of_functional:
  assumes "distinct (map fst script)"
    and "(k, v) \<in> messages_of n uuid script" "(k, v') \<in> messages_of n uuid script"
  shows "v = v'"
proof -
  obtain i where i: "(k, v) \<in> set (written n uuid script i (length script))"
    using assms(2) by (auto simp: messages_of_def)
  obtain j where j: "(k, v') \<in> set (written n uuid script j (length script))"
    using assms(3) by (auto simp: messages_of_def)
  have "i = j" using written_key [OF i] written_key [OF j] by simp
  then show ?thesis
    using i j distinct_written [OF assms(1), of n uuid i "length script"]
    by (auto intro: eq_key_imp_eq_value)
qed

lemma messages_of_written:
  assumes "i \<in> set (u32_range n)" "(k, v) \<in> set (written n uuid script i r)"
  shows "(k, v) \<in> messages_of n uuid script"
proof -
  have "(k, v) \<in> set (written n uuid script i (length script))"
    using assms(2) by (auto simp: written_def dest: in_set_takeD)
  then show ?thesis using assms(1) by (auto simp: messages_of_def)
qed

lemma messages_of_reads:
  assumes "i \<in> set (u32_range n)" "r < length script" "(k, v) \<in> set (reads n uuid i (script ! r))"
  obtains j where "j \<in> set (others i n)" "(k, v) \<in> set (sends n uuid j (script ! r))"
    "(k, v) \<in> messages_of n uuid script"
proof -
  obtain j where j: "j \<in> set (others i n)" "(k, v) \<in> set (sends n uuid j (script ! r))"
    using reads_sends [OF assms(1,3)] by blast
  then have "(k, v) \<in> set (written n uuid script j (length script))"
    using written_sends [OF assms(2,2)] by blast
  then show thesis using j by (intro that) (auto intro: messages_of_written)
qed

section \<open>A board that several programs share\<close>

text \<open>What \<open>board_client\<close> promises, at any time and for the messages of a session, and requests
  that leave the messages alone.\<close>

locale shared_board =
  fixes inv :: "'w \<Rightarrow> bool"
    and put :: "'w \<Rightarrow> tuple_key \<Rightarrow> string \<Rightarrow> 'w"
    and look :: "'w \<Rightarrow> tuple_key \<Rightarrow> string option"
    and vals :: "'w \<Rightarrow> tuple_key \<Rightarrow> string set"
    and storable :: "string \<Rightarrow> bool"
    and nets :: "nat \<Rightarrow> 'w net"
    and message :: "tuple_key \<Rightarrow> bool"
    and harmless :: "request \<Rightarrow> bool"
  assumes inv_put: "inv w \<Longrightarrow> storable v \<Longrightarrow> message k \<Longrightarrow> inv (put w k v)"
    and vals_put: "inv w \<Longrightarrow> storable v \<Longrightarrow> message k \<Longrightarrow>
      vals (put w k v) k' = (if k = k' then insert v (vals w k') else vals w k')"
    and look_none: "inv w \<Longrightarrow> look w k = None \<longleftrightarrow> vals w k = {}"
    and look_some: "inv w \<Longrightarrow> look w k = Some v \<Longrightarrow> v \<in> vals w k"
    and post_set: "inv w \<Longrightarrow> storable v \<Longrightarrow>
      \<exists>txt. post (nets t) ''set'' (Body_Entry \<lparr>en_key = k, en_value = v\<rparr>) w = (Get_Ok (Some txt), put w k v) \<and>
        dec_unit (nets 0) txt = Some (Inr ())"
    and post_get: "inv w \<Longrightarrow>
      \<exists>txt. post (nets t) ''get'' (Body_Index \<lparr>ix_key = k\<rparr>) w = (Get_Ok (Some txt), w) \<and>
        dec_entry (nets 0) txt =
          Some (case look w k of Some v \<Rightarrow> Inr \<lparr>en_key = k, en_value = v\<rparr> | None \<Rightarrow> Inl ())"
    and post_harmless: "inv w \<Longrightarrow> harmless q \<Longrightarrow>
      inv (snd (post (nets t) (fst q) (snd q) w)) \<and>
      (\<forall>k. message k \<longrightarrow> vals (snd (post (nets t) (fst q) (snd q) w)) k = vals w k)"
    and harmless_path: "harmless q \<Longrightarrow> fst q \<noteq> ''set''"
begin

text \<open>The messages of a session can be on the board, and nothing else under their keys.\<close>

definition proper :: "(tuple_key \<times> string) set \<Rightarrow> bool" where
  "proper M \<longleftrightarrow> (\<forall>(k, v)\<in>M. storable v \<and> message k) \<and> (\<forall>k v v'. (k, v) \<in> M \<longrightarrow> (k, v') \<in> M \<longrightarrow> v = v')"

definition settled :: "(tuple_key \<times> string) set \<Rightarrow> 'w \<Rightarrow> bool" where
  "settled M w \<longleftrightarrow> inv w \<and> (\<forall>(k, v)\<in>M. vals w k \<subseteq> {v})"

text \<open>A message has one value, so it does not matter which value is delivered.\<close>

lemma settled_look:
  assumes "settled M w" "(k, v) \<in> M"
  shows "look w k \<in> {None, Some v}" "look w k = Some v \<longleftrightarrow> v \<in> vals w k"
proof -
  have "inv w" "vals w k \<subseteq> {v}" using assms by (auto simp: settled_def)
  then show "look w k \<in> {None, Some v}" "look w k = Some v \<longleftrightarrow> v \<in> vals w k"
    using look_none [of w k] look_some [of w k] by (cases "look w k"; auto)+
qed

lemma polite_post:
  fixes q :: request and t :: nat and w :: 'w
  assumes "proper M" "settled M w" "polite harmless M q"
  defines "w' \<equiv> snd (post (nets t) (fst q) (snd q) w)"
  shows "settled M w'"
    and "(k, v) \<in> M \<Longrightarrow> look w k = Some v \<Longrightarrow> look w' k = Some v"
    and "(k, v) \<in> M \<Longrightarrow> q = set_req k v \<Longrightarrow> look w' k = Some v"
proof -
  have inv: "inv w" using assms(2) by (simp add: settled_def)
  have put: "w' = put w k v" if "q = set_req k v" "storable v" for k v
    using post_set [OF inv that(2), of t k] by (auto simp: w'_def that)
  consider (harmless) "harmless q" | (get) k where "q = get_req k"
    | (set) k v where "(k, v) \<in> M" "q = set_req k v"
    using assms(3) by (auto simp: polite_def)
  then have step: "settled M w' \<and> (\<forall>(k, v)\<in>M. v \<in> vals w k \<longrightarrow> v \<in> vals w' k)"
  proof cases
    case harmless
    then have w': "inv w'" "message k \<Longrightarrow> vals w' k = vals w k" for k
      using post_harmless [OF inv, of q t] by (simp_all add: w'_def)
    have "vals w' k = vals w k \<and> vals w k \<subseteq> {v}" if "(k, v) \<in> M" for k v
      using assms(1,2) that by (intro conjI w'(2)) (auto simp: proper_def settled_def)
    then show ?thesis using w'(1) by (auto simp: settled_def)
  next
    case get
    then have "w' = w" using post_get [OF inv, of t k] by (auto simp: w'_def)
    then show ?thesis using assms(2) by auto
  next
    case set
    have v: "storable v" "message k" using set(1) assms(1) by (auto simp: proper_def)
    note w' = put [OF set(2) v(1)]
    have "vals w' k' \<subseteq> {v'} \<and> (v' \<in> vals w k' \<longrightarrow> v' \<in> vals w' k')"
      if "(k', v') \<in> M" for k' v'
      using that set(1) assms(1,2)
      by (auto simp: w' vals_put [OF inv v] proper_def settled_def)
    then show ?thesis using inv_put [OF inv v] by (auto simp: settled_def w')
  qed
  then show settled: "settled M w'" by simp
  show "(k, v) \<in> M \<Longrightarrow> look w k = Some v \<Longrightarrow> look w' k = Some v"
    using step settled_look(2) [OF assms(2)] settled_look(2) [OF settled] by auto
  assume M: "(k, v) \<in> M" "q = set_req k v"
  then have "storable v" "message k" using assms(1) by (auto simp: proper_def)
  then have "v \<in> vals w' k" using M(2) put vals_put [OF inv] by simp
  then show "look w' k = Some v" using settled_look(2) [OF settled M(1)] by simp
qed

lemma polite_serve_between:
  assumes "proper M" "settled M w" "\<forall>s q. e s = Some q \<longrightarrow> polite harmless M q"
  shows "settled M (serve_between nets e t t' w)"
    and "(k, v) \<in> M \<Longrightarrow> look w k = Some v \<Longrightarrow> look (serve_between nets e t t' w) k = Some v"
    and "(k, v) \<in> M \<Longrightarrow> t \<le> s \<Longrightarrow> s < t' \<Longrightarrow> e s = Some (set_req k v) \<Longrightarrow>
      look (serve_between nets e t t' w) k = Some v"
proof -
  have step: "settled M (serve nets e s w)" "(k, v) \<in> M \<Longrightarrow> look w k = Some v \<Longrightarrow> look (serve nets e s w) k = Some v"
    "(k, v) \<in> M \<Longrightarrow> e s = Some (set_req k v) \<Longrightarrow> look (serve nets e s w) k = Some v"
    if "settled M w" for s w k v
    using that polite_post [OF assms(1) that assms(3) [rule_format]]
    by (auto simp: serve_def split: option.splits)
  have "settled M (serve_between nets e t t' w) \<and>
    (\<forall>(k, v)\<in>M. (look w k = Some v \<or> (\<exists>s. t \<le> s \<and> s < t' \<and> e s = Some (set_req k v))) \<longrightarrow>
       look (serve_between nets e t t' w) k = Some v)"
  proof (induction t')
    case 0
    show ?case using assms(2) by (auto simp: serve_between_def)
  next
    case (Suc t')
    show ?case
    proof (cases "t \<le> t'")
      case True
      then have "serve_between nets e t (Suc t') w = serve nets e t' (serve_between nets e t t' w)"
        by (simp add: serve_between_def)
      then show ?thesis using Suc step [of "serve_between nets e t t' w"] by (auto simp: less_Suc_eq)
    next
      case False
      then show ?thesis using assms(2) by (auto simp: serve_between_def)
    qed
  qed
  then show "settled M (serve_between nets e t t' w)"
    "(k, v) \<in> M \<Longrightarrow> look w k = Some v \<Longrightarrow> look (serve_between nets e t t' w) k = Some v"
    "(k, v) \<in> M \<Longrightarrow> t \<le> s \<Longrightarrow> s < t' \<Longrightarrow> e s = Some (set_req k v) \<Longrightarrow>
      look (serve_between nets e t t' w) k = Some v"
    by auto
qed

text \<open>What the process sees while it plays its part, and when it waits for a message that never
  comes.\<close>

definition env_ok :: "u32 \<Rightarrow> string \<Rightarrow> script \<Rightarrow> u32 \<Rightarrow> (nat \<Rightarrow> nat) \<Rightarrow> nat \<Rightarrow> environment \<Rightarrow> bool" where
  "env_ok n uuid script me sched p e \<longleftrightarrow>
     proper (messages_of n uuid script) \<and> me \<in> set (u32_range n) \<and> (\<forall>t. \<exists>t'\<ge>t. sched t' = p) \<and>
     (\<forall>s. sched s = p \<longrightarrow> e s = None) \<and>
     (\<forall>s q. e s = Some q \<longrightarrow> polite harmless (messages_of n uuid script) q)"

definition owes :: "u32 \<Rightarrow> string \<Rightarrow> script \<Rightarrow> u32 \<Rightarrow> request \<Rightarrow> bool" where
  "owes n uuid script me = polite (\<lambda>_. False) (set (written n uuid script me (length script)))"

definition arrived :: "(tuple_key \<times> string) set \<Rightarrow> environment \<Rightarrow> nat \<Rightarrow> 'w \<Rightarrow> bool" where
  "arrived M e t w \<longleftrightarrow> (\<forall>s<t. \<forall>(k, v)\<in>M. e s = Some (set_req k v) \<longrightarrow> look w k = Some v)"

lemma arrivedD:
  "arrived M e t w \<Longrightarrow> s < t \<Longrightarrow> (k, v) \<in> M \<Longrightarrow> e s = Some (set_req k v) \<Longrightarrow> look w k = Some v"
  unfolding arrived_def by blast

definition viewed ::
  "u32 \<Rightarrow> string \<Rightarrow> script \<Rightarrow> u32 \<Rightarrow> (nat \<Rightarrow> nat) \<Rightarrow> nat \<Rightarrow> environment \<Rightarrow> (tuple_key \<rightharpoonup> string) \<Rightarrow>
   'w view \<Rightarrow> bool" where
  "viewed n uuid script me sched p e K v \<longleftrightarrow>
     env_ok n uuid script me sched p e \<and> v_live v \<and>
     settled (messages_of n uuid script) (v_world v) \<and>
     arrived (messages_of n uuid script) e (v_time v) (v_world v) \<and>
     (\<forall>k x. K k = Some x \<longrightarrow> set_req k x \<in> set (v_made v)) \<and>
     (\<forall>q\<in>set (v_made v). owes n uuid script me q)"

definition waits :: "u32 \<Rightarrow> string \<Rightarrow> script \<Rightarrow> u32 \<Rightarrow> environment \<Rightarrow> 'w view \<Rightarrow> bool" where
  "waits n uuid script me e v \<longleftrightarrow>
     (\<forall>q\<in>set (v_made v). owes n uuid script me q) \<and>
     (\<exists>r<length script.
        (\<forall>(k, x)\<in>set (written n uuid script me (Suc r)). set_req k x \<in> set (v_made v)) \<and>
        (\<exists>(k, x)\<in>set (reads n uuid me (script ! r)). never_set e k))"

definition expects ::
  "u32 \<Rightarrow> string \<Rightarrow> script \<Rightarrow> u32 \<Rightarrow> environment \<Rightarrow> (tuple_key \<rightharpoonup> string) \<Rightarrow> tuple_key \<Rightarrow> string \<Rightarrow> bool" where
  "expects n uuid script me e K k x \<longleftrightarrow>
     (k, x) \<in> messages_of n uuid script \<and>
     (\<exists>r<length script. (k, x) \<in> set (reads n uuid me (script ! r)) \<and>
        (\<forall>(k, x)\<in>set (written n uuid script me (Suc r)). K k = Some x))"

lemma view_step:
  assumes "viewed n uuid script me sched p e K v" "owes n uuid script me q"
  defines "t \<equiv> turn sched p (v_time v)"
  defines "w \<equiv> serve_between nets e (v_time v) t (v_world v)"
  assumes "hopeless e q \<Longrightarrow> t < T"
  shows "post (view_net nets sched p e T) (fst q) (snd q) v =
      (fst (post (nets t) (fst q) (snd q) w),
       \<lparr>v_world = snd (post (nets t) (fst q) (snd q) w), v_time = Suc t, v_live = True,
        v_made = v_made v @ [q]\<rparr>)"
    and "viewed n uuid script me sched p e K
      \<lparr>v_world = snd (post (nets t) (fst q) (snd q) w), v_time = Suc t, v_live = True,
       v_made = v_made v @ [q]\<rparr>"
    and "settled (messages_of n uuid script) w" "arrived (messages_of n uuid script) e t w"
    and "v_time v \<le> t" "e t = None"
proof -
  let ?M = "messages_of n uuid script"
  have env: "proper ?M" "me \<in> set (u32_range n)" "\<forall>t. \<exists>t'\<ge>t. sched t' = p"
    "\<And>s. sched s = p \<Longrightarrow> e s = None" "\<forall>s q. e s = Some q \<longrightarrow> polite harmless ?M q"
    and v: "v_live v" "settled ?M (v_world v)" "arrived ?M e (v_time v) (v_world v)"
    using assms(1) by (auto simp: viewed_def env_ok_def)
  note turn = turn [OF env(3)]
  note serve = polite_serve_between [where e = e, OF env(1) v(2) env(5)]
  show t: "v_time v \<le> t" "e t = None" using turn env(4) by (simp_all add: t_def)
  show w: "settled ?M w" unfolding w_def by (rule serve(1))
  show arr: "arrived ?M e t w"
    unfolding arrived_def
  proof (intro allI impI ballI, clarify)
    fix s k x assume "s < t" "(k, x) \<in> ?M" "e s = Some (set_req k x)"
    then show "look w k = Some x"
      using arrivedD [OF v(3), of s k x] serve(2) [where k = k and v = x]
        serve(3) [where k = k and v = x and s = s]
      by (cases "s < v_time v") (auto simp: w_def)
  qed
  have polite: "polite harmless ?M q"
    using assms(2) messages_of_written [OF env(2)] by (auto simp: owes_def polite_def)
  note post = polite_post [where t = t, OF env(1) w polite]
  have "\<not> (hopeless e q \<and> T \<le> t)" using assms(5) by auto
  then show "post (view_net nets sched p e T) (fst q) (snd q) v =
      (fst (post (nets t) (fst q) (snd q) w),
       \<lparr>v_world = snd (post (nets t) (fst q) (snd q) w), v_time = Suc t, v_live = True,
        v_made = v_made v @ [q]\<rparr>)"
    using v(1) by (auto simp: view_net_def view_post_def Let_def t_def w_def split: prod.split)
  have "arrived ?M e (Suc t) (snd (post (nets t) (fst q) (snd q) w))"
    unfolding arrived_def
  proof (intro allI impI ballI, clarify)
    fix s k x assume s: "s < Suc t" "(k, x) \<in> ?M" "e s = Some (set_req k x)"
    with t(2) have "s < t" by (auto simp: less_Suc_eq)
    from arrivedD [OF arr this s(2,3)]
    show "look (snd (post (nets t) (fst q) (snd q) w)) k = Some x" by (rule post(2) [OF s(2)])
  qed
  then show "viewed n uuid script me sched p e K
      \<lparr>v_world = snd (post (nets t) (fst q) (snd q) w), v_time = Suc t, v_live = True,
       v_made = v_made v @ [q]\<rparr>"
    using assms(1,2) post(1) by (auto simp: viewed_def)
qed

lemma viewed_upd:
  "viewed n uuid script me sched p e K v \<Longrightarrow> set_req k x \<in> set (v_made v) \<Longrightarrow>
   viewed n uuid script me sched p e (K(k \<mapsto> x)) v"
  by (simp add: viewed_def)

lemma waits_expected:
  assumes "viewed n uuid script me sched p e K v" "expects n uuid script me e K k x" "never_set e k"
    and "v_made v' = v_made v"
  shows "waits n uuid script me e v'"
proof -
  obtain r where r: "r < length script" "(k, x) \<in> set (reads n uuid me (script ! r))"
    "\<forall>(k, x)\<in>set (written n uuid script me (Suc r)). K k = Some x"
    using assms(2) unfolding expects_def by blast
  have "\<forall>(k, x)\<in>set (written n uuid script me (Suc r)). set_req k x \<in> set (v_made v)"
    using r(3) assms(1) unfolding viewed_def by fast
  then show ?thesis
    using assms(1,3,4) r(1,2) unfolding waits_def viewed_def by auto
qed

lemma view_set:
  assumes "viewed n uuid script me sched p e K v"
    and "(k, x) \<in> set (written n uuid script me (length script))"
  shows "\<exists>v'. request_answer (view_net nets sched p e T) ''set'' (Body_Entry \<lparr>en_key = k, en_value = x\<rparr>)
      (dec_unit (view_net nets sched p e T)) v = (Some (Inr ()), v') \<and>
    viewed n uuid script me sched p e (K(k \<mapsto> x)) v'"
proof -
  let ?q = "set_req k x" and ?t = "turn sched p (v_time v)"
  let ?w = "serve_between nets e (v_time v) ?t (v_world v)"
  have "owes n uuid script me ?q" using assms(2) by (auto simp: owes_def polite_def)
  from view_step [OF assms(1) this, of T]
  have step: "post (view_net nets sched p e T) (fst ?q) (snd ?q) v =
      (fst (post (nets ?t) (fst ?q) (snd ?q) ?w),
       \<lparr>v_world = snd (post (nets ?t) (fst ?q) (snd ?q) ?w), v_time = Suc ?t, v_live = True,
        v_made = v_made v @ [?q]\<rparr>)"
    "viewed n uuid script me sched p e K
      \<lparr>v_world = snd (post (nets ?t) (fst ?q) (snd ?q) ?w), v_time = Suc ?t, v_live = True,
       v_made = v_made v @ [?q]\<rparr>"
    "settled (messages_of n uuid script) ?w"
    by (simp_all add: hopeless_def)
  have "storable x"
    using assms messages_of_written [of me n k x uuid script "length script"]
    by (auto simp: viewed_def env_ok_def proper_def)
  moreover have "inv ?w" using step(3) by (simp add: settled_def)
  ultimately obtain tx where "post (nets ?t) (fst ?q) (snd ?q) ?w = (Get_Ok (Some tx), put ?w k x)"
    "dec_unit (nets 0) tx = Some (Inr ())" using post_set [of ?w x ?t k] by auto
  with step(1) viewed_upd [OF step(2), of k x] show ?thesis
    by (intro exI conjI, intro request_answer_ok) (auto simp: view_net_def)
qed

lemma view_get:
  assumes "viewed n uuid script me sched p e K v"
  defines "t \<equiv> turn sched p (v_time v)"
  defines "w \<equiv> serve_between nets e (v_time v) t (v_world v)"
  assumes "never_set e k \<Longrightarrow> t < T"
  shows "\<exists>v'. get_entry (view_net nets sched p e T) \<lparr>ix_key = k\<rparr> v =
      (Some (case look w k of Some x \<Rightarrow> Inr \<lparr>en_key = k, en_value = x\<rparr> | None \<Rightarrow> Inl ()), v') \<and>
    viewed n uuid script me sched p e K v' \<and> v_time v' = Suc t"
proof -
  let ?q = "get_req k"
  have "owes n uuid script me ?q" by (auto simp: owes_def polite_def)
  moreover have "hopeless e ?q \<Longrightarrow> turn sched p (v_time v) < T" using assms(4) by (auto simp: hopeless_def t_def)
  ultimately have step: "post (view_net nets sched p e T) (fst ?q) (snd ?q) v =
      (fst (post (nets t) (fst ?q) (snd ?q) w),
       \<lparr>v_world = snd (post (nets t) (fst ?q) (snd ?q) w), v_time = Suc t, v_live = True,
        v_made = v_made v @ [?q]\<rparr>)"
    "viewed n uuid script me sched p e K
      \<lparr>v_world = snd (post (nets t) (fst ?q) (snd ?q) w), v_time = Suc t, v_live = True,
       v_made = v_made v @ [?q]\<rparr>"
    "settled (messages_of n uuid script) w"
    unfolding w_def t_def using view_step [OF assms(1), of ?q T] by blast+
  have "inv w" using step(3) by (simp add: settled_def)
  then obtain tx where "post (nets t) (fst ?q) (snd ?q) w = (Get_Ok (Some tx), w)"
    "dec_entry (nets 0) tx =
      Some (case look w k of Some x \<Rightarrow> Inr \<lparr>en_key = k, en_value = x\<rparr> | None \<Rightarrow> Inl ())"
    using post_get [of w t k] by auto
  with step(1,2) show ?thesis
    unfolding get_entry_def
    by (intro exI conjI, intro request_answer_ok) (auto simp: view_net_def)
qed

lemma view_get_hopeless:
  assumes "v_live v" "never_set e k" "T \<le> turn sched p (v_time v)"
  shows "\<exists>v'. get_entry (view_net nets sched p e T) \<lparr>ix_key = k\<rparr> v = (None, v') \<and>
    v_made v' = v_made v"
  using assms
  by (auto simp: get_entry_def request_answer_cases answer_of_def view_net_def view_post_def
      hopeless_def Let_def)

lemma view_poll:
  assumes "viewed n uuid script me sched p e K v" "expects n uuid script me e K k x"
  shows "(\<exists>v'. poll (view_net nets sched p e T) \<lparr>ix_key = k\<rparr> v = Some (Some x, v') \<and>
      viewed n uuid script me sched p e K v') \<or>
    (\<exists>v'. poll (view_net nets sched p e T) \<lparr>ix_key = k\<rparr> v = Some (None, v') \<and>
      waits n uuid script me e v')"
proof -
  let ?M = "messages_of n uuid script"
  have M: "(k, x) \<in> ?M" "proper ?M" "\<And>s q. e s = Some q \<Longrightarrow> polite harmless ?M q"
    using assms by (auto simp: expects_def viewed_def env_ok_def)
  obtain s where s: "never_set e k \<or> e s = Some (set_req k x)"
  proof (cases "never_set e k")
    case False
    then obtain s x' where "e s = Some (set_req k x')" by (auto simp: never_set_def)
    moreover from M(3) [OF this] have "(k, x') \<in> ?M"
      using harmless_path [of "set_req k x'"] by (auto simp: polite_def)
    ultimately have "x' = x" using M(1,2) unfolding proper_def by blast
    then show ?thesis using \<open>e s = Some (set_req k x')\<close> that by blast
  qed (auto intro: that)
  let ?B = "if never_set e k then T else s"
  show ?thesis
    using assms(1)
  proof (induction "?B - v_time v" arbitrary: v rule: less_induct)
    case less
    let ?t = "turn sched p (v_time v)"
    let ?w = "serve_between nets e (v_time v) ?t (v_world v)"
    show ?case
    proof (cases "never_set e k \<and> T \<le> ?t")
      case True
      moreover have "v_live v" using less.prems by (simp add: viewed_def)
      ultimately obtain v' where v': "get_entry (view_net nets sched p e T) \<lparr>ix_key = k\<rparr> v = (None, v')"
        "v_made v' = v_made v" using view_get_hopeless by blast
      have "waits n uuid script me e v'"
        using waits_expected [OF less.prems assms(2) _ v'(2)] True by blast
      then show ?thesis using v'(1) by (subst poll.simps) simp
    next
      case False
      have get: "owes n uuid script me (get_req k)" by (auto simp: owes_def polite_def)
      have "hopeless e (get_req k) \<Longrightarrow> ?t < T" using False by (auto simp: hopeless_def)
      note step = view_step(3-6) [OF less.prems get this]
      obtain v' where v': "get_entry (view_net nets sched p e T) \<lparr>ix_key = k\<rparr> v =
          (Some (case look ?w k of Some x \<Rightarrow> Inr \<lparr>en_key = k, en_value = x\<rparr> | None \<Rightarrow> Inl ()), v')"
        "viewed n uuid script me sched p e K v'" "v_time v' = Suc ?t"
        using view_get [OF less.prems, of k T] False by auto
      consider "look ?w k = Some x" | "look ?w k = None"
        using settled_look(1) [OF step(1) M(1)] by auto
      then show ?thesis
      proof cases
        case 1
        then show ?thesis using v' by (subst poll.simps) simp
      next
        case 2
        have "?t < ?B"
        proof (cases "never_set e k")
          case True
          then show ?thesis using False by simp
        next
          case set: False
          then have "e s = Some (set_req k x)" using s by simp
          then have "\<not> s < ?t" "s \<noteq> ?t"
            using arrivedD [OF step(2) _ M(1)] step(4) 2 by auto
          then show ?thesis using set by simp
        qed
        then have "?B - v_time v' < ?B - v_time v" using v'(3) step(3) by linarith
        from less.hyps [OF this v'(2)] show ?thesis using v'(1) 2 by (subst (1 2) poll.simps) simp
      qed
    qed
  qed
qed

text \<open>So the board that a process sees is one on which it can play its part.\<close>

lemma view_session_board:
  "session_board (view_net nets sched p e T)
     (\<lambda>k x. (k, x) \<in> set (written n uuid script me (length script)))
     (viewed n uuid script me sched p e) (expects n uuid script me e) (waits n uuid script me e)"
proof
  fix k x K assume "(k, x) \<in> set (written n uuid script me (length script))"
  then show "runs (waits n uuid script me e) (viewed n uuid script me sched p e K)
      (assert_ok (request_answer (view_net nets sched p e T) ''set''
        (Body_Entry \<lparr>en_key = k, en_value = x\<rparr>) (dec_unit (view_net nets sched p e T)))) ()
      (viewed n uuid script me sched p e (K(k \<mapsto> x)))"
    unfolding runs_def
  proof (intro allI impI disjI1)
    fix v assume "viewed n uuid script me sched p e K v"
    from view_set [OF this \<open>(k, x) \<in> _\<close>, of T] obtain v' where
      "request_answer (view_net nets sched p e T) ''set'' (Body_Entry \<lparr>en_key = k, en_value = x\<rparr>)
        (dec_unit (view_net nets sched p e T)) v = (Some (Inr ()), v')"
      "viewed n uuid script me sched p e (K(k \<mapsto> x)) v'" by blast
    then show "\<exists>v'. assert_ok (request_answer (view_net nets sched p e T) ''set''
        (Body_Entry \<lparr>en_key = k, en_value = x\<rparr>) (dec_unit (view_net nets sched p e T))) v =
        Some (Some (), v') \<and> viewed n uuid script me sched p e (K(k \<mapsto> x)) v'"
      by (simp add: assert_ok_def act_prog_def and_then_def done_with_def)
  qed
next
  fix K k x assume "expects n uuid script me e K k x"
  then show "runs (waits n uuid script me e) (viewed n uuid script me sched p e K)
      (poll (view_net nets sched p e T) \<lparr>ix_key = k\<rparr>) x (viewed n uuid script me sched p e K)"
    unfolding runs_def using view_poll by blast
qed

end

end
