(* ===== verification/Concurrency.thy ===== *)
theory Concurrency
  imports Environment
begin

text \<open>
  Several processes at one server, whatever the order of their requests. The view of each process
  agrees with the system (\<open>sync\<close> lemmas); so by induction over the time all requests are those of
  parties that play their part, and by induction over the rounds every message is written. Hence
  every process ends with its result (\<open>system_ends\<close>).
\<close>

section \<open>The system, step by step\<close>

definition request_at :: "('w, 'a) system \<Rightarrow> nat \<Rightarrow> request option" where
  "request_at S t =
     (let p = sy_sched S t in
      if p < length (sy_progs S) then next_request (sy_progs S ! p) (answers_at S p t) else None)"

text \<open>The environment of process \<open>p\<close>, and what it is before a time.\<close>

definition others_at :: "('w, 'a) system \<Rightarrow> nat \<Rightarrow> environment" where
  "others_at S p t = (if sy_sched S t = p then None else request_at S t)"

lemma others_atI:
  "sy_sched S s = p' \<and> request_at S s = Some q \<Longrightarrow> p' \<noteq> p \<Longrightarrow> others_at S p s = Some q"
  by (auto simp: others_at_def)

definition before :: "nat \<Rightarrow> environment \<Rightarrow> environment" where
  "before T e s = (if s < T then e s else None)"

lemma length_answers [simp]: "length (snd (system_run S t)) = length (sy_progs S)"
  by (induction t) (auto simp: process_turn_def split: prod.splits option.splits)

lemma start_at [simp]:
  "world_at S 0 = sy_start S" "p < length (sy_progs S) \<Longrightarrow> answers_at S p 0 = []"
  by (simp_all add: world_at_def answers_at_def)

lemma world_at_Suc:
  "world_at S (Suc t) = serve (sy_net S) (request_at S) t (world_at S t)"
  by (auto simp: world_at_def request_at_def answers_at_def serve_def process_turn_def Let_def
      split: prod.splits option.splits)

lemma answers_at_Suc:
  assumes "p < length (sy_progs S)"
  shows "answers_at S p (Suc t) =
    (case request_at S t of
       Some q \<Rightarrow>
         if sy_sched S t = p
         then answers_at S p t @ [fst (post (sy_net S t) (fst q) (snd q) (world_at S t))]
         else answers_at S p t
     | None \<Rightarrow> answers_at S p t)"
  using assms length_answers [of S t]
  by (cases "system_run S t")
    (auto simp: world_at_def request_at_def answers_at_def process_turn_def Let_def
      split: prod.splits option.splits)

lemma answers_at_idle:
  assumes "p < length (sy_progs S)" "t \<le> t'" "\<And>s. t \<le> s \<Longrightarrow> s < t' \<Longrightarrow> sy_sched S s \<noteq> p"
  shows "answers_at S p t' = answers_at S p t"
  using assms(2,3)
proof (induction t' rule: nat_induct_at_least)
  case (Suc t')
  then show ?case using answers_at_Suc [OF assms(1), of t'] by (simp split: option.split)
qed simp

lemma world_at_others:
  assumes "t \<le> t'" "\<And>s. t \<le> s \<Longrightarrow> s < t' \<Longrightarrow> e s = request_at S s"
  shows "serve_between (sy_net S) e t t' (world_at S t) = world_at S t'"
  using assms
proof (induction t' rule: nat_induct_at_least)
  case base
  show ?case by (simp add: serve_between_def)
next
  case (Suc t')
  then have "serve_between (sy_net S) e t (Suc t') (world_at S t) = serve (sy_net S) e t' (world_at S t')"
    by (simp add: serve_between_def)
  moreover have "e t' = request_at S t'" using Suc by simp
  ultimately show ?case by (simp add: world_at_Suc serve_def)
qed

text \<open>A process that has ended stays as it is.\<close>

lemma ended_stays:
  assumes "p < length (sy_progs S)" "next_request (sy_progs S ! p) (answers_at S p t) = None" "t \<le> t'"
  shows "answers_at S p t' = answers_at S p t"
  using assms(3)
proof (induction t' rule: nat_induct_at_least)
  case (Suc t')
  then have "sy_sched S t' = p \<Longrightarrow> request_at S t' = None"
    using assms(1,2) by (simp add: request_at_def Let_def)
  then show ?case using Suc answers_at_Suc [OF assms(1), of t'] by (simp split: option.split)
qed simp

lemma result_stays:
  assumes "p < length (sy_progs S)" "result_at S p t = Some x" "t \<le> t'"
  shows "result_at S p t' = Some x"
proof -
  have "next_request (sy_progs S ! p) (answers_at S p t) = None"
    using assms(2) by (auto simp: result_at_def outcome_def next_request_def split: option.splits if_splits)
  from ended_stays [OF assms(1) this assms(3)] show ?thesis using assms(2) by (simp add: result_at_def)
qed

section \<open>A process and its view\<close>

abbreviation view_at :: "('w, 'a) system \<Rightarrow> nat \<Rightarrow> request list \<Rightarrow> 'w view" where
  "view_at S t made \<equiv> \<lparr>v_world = world_at S t, v_time = t, v_live = True, v_made = made\<rparr>"

text \<open>The program makes the requests of \<open>tr\<close> on their answers, and then ends.\<close>

definition continues :: "(tape, 'a) prog \<Rightarrow> http_get list \<Rightarrow> (request \<times> http_get) list \<Rightarrow> bool" where
  "continues m rs tr \<longleftrightarrow>
     (\<forall>n < length tr. next_request m (rs @ map snd (take n tr)) = Some (fst (tr ! n))) \<and>
     next_request m (rs @ map snd tr) = None"

lemma continues_Nil [simp]: "continues m rs [] \<longleftrightarrow> next_request m rs = None"
  by (simp add: continues_def)

lemma continues_Cons:
  assumes "continues m rs (x # tr)"
  shows "next_request m rs = Some (fst x)" "continues m (rs @ [snd x]) tr"
proof -
  show "next_request m rs = Some (fst x)"
    using assms by (force simp: continues_def)
  have "next_request m (rs @ snd x # map snd (take n tr)) = Some (fst (tr ! n))" if "n < length tr" for n
    using assms that by (auto simp: continues_def dest: spec [of _ "Suc n"])
  then show "continues m (rs @ [snd x]) tr" using assms by (simp add: continues_def)
qed

lemma view_made_grows: "dialogue (view_net nets sched p e T) tr v v' \<Longrightarrow> set (v_made v) \<subseteq> set (v_made v')"
proof (induction tr arbitrary: v)
  case (Cons x tr)
  then obtain v1 where v1: "view_post nets sched p e T (fst (fst x)) (snd (fst x)) v = (snd x, v1)"
    "dialogue (view_net nets sched p e T) tr v1 v'" by (auto simp: view_net_def)
  then have "set (v_made v) \<subseteq> set (v_made v1)"
    by (auto simp: view_post_def Let_def split: if_splits prod.splits)
  then show ?case using Cons.IH [OF v1(2)] by simp
qed simp

lemma view_dead: "dialogue (view_net nets sched p e T) tr v v' \<Longrightarrow> \<not> v_live v \<Longrightarrow> v' = v"
  by (induction tr arbitrary: v) (auto simp: view_net_def view_post_def)

text \<open>One request: the process makes it in the system when the view is answered.\<close>

lemma sync_step:
  fixes S :: "('w, 'a) system"
  assumes S: "fair_turns S" "p < length (sy_progs S)"
    and cont: "continues (sy_progs S ! p) (answers_at S p t) (x # tr)"
    and run: "dialogue (view_net (sy_net S) (sy_sched S) p e T) (x # tr) (view_at S t made) v'"
  defines "t' \<equiv> turn (sy_sched S) p t"
  assumes env: "\<forall>s < t'. e s = others_at S p s"
  shows "t \<le> t'" "sy_sched S t' = p" "request_at S t' = Some (fst x)"
    and "(hopeless e (fst x) \<and> T \<le> t' \<and> \<not> v_live v' \<and> v_made v' = made) \<or>
      (dialogue (view_net (sy_net S) (sy_sched S) p e T) tr (view_at S (Suc t') (made @ [fst x])) v' \<and>
       answers_at S p (Suc t') = answers_at S p t @ [snd x] \<and>
       continues (sy_progs S ! p) (answers_at S p (Suc t')) tr)"
proof -
  have "\<forall>t. \<exists>t'\<ge>t. sy_sched S t' = p" using S by (simp add: fair_turns_def)
  note turn = turn [OF this, folded t'_def]
  show t': "t \<le> t'" "sy_sched S t' = p" by (simp_all add: t'_def turn)
  have idle: "answers_at S p t' = answers_at S p t"
    using turn(3) t'(1) by (intro answers_at_idle [OF S(2)]) (auto simp: t'_def)
  show req: "request_at S t' = Some (fst x)"
    using continues_Cons(1) [OF cont] idle S(2) t'(2) by (simp add: request_at_def)
  have world: "serve_between (sy_net S) e t t' (world_at S t) = world_at S t'"
    using env turn(3) t'(1) by (intro world_at_others) (auto simp: others_at_def t'_def)
  obtain v1 where v1: "view_post (sy_net S) (sy_sched S) p e T (fst (fst x)) (snd (fst x)) (view_at S t made) =
      (snd x, v1)" "dialogue (view_net (sy_net S) (sy_sched S) p e T) tr v1 v'"
    using run by (auto simp: view_net_def)
  show "(hopeless e (fst x) \<and> T \<le> t' \<and> \<not> v_live v' \<and> v_made v' = made) \<or>
      (dialogue (view_net (sy_net S) (sy_sched S) p e T) tr (view_at S (Suc t') (made @ [fst x])) v' \<and>
       answers_at S p (Suc t') = answers_at S p t @ [snd x] \<and>
       continues (sy_progs S ! p) (answers_at S p (Suc t')) tr)"
  proof (cases "hopeless e (fst x) \<and> T \<le> t'")
    case True
    then have "\<not> v_live v1 \<and> v_made v1 = made"
      using v1(1) by (auto simp: view_post_def t'_def [symmetric])
    then show ?thesis using True view_dead [OF v1(2)] by auto
  next
    case False
    obtain r w' where rw: "post (sy_net S t') (fst (fst x)) (snd (fst x)) (world_at S t') = (r, w')"
      by (cases "post (sy_net S t') (fst (fst x)) (snd (fst x)) (world_at S t')")
    then have "r = snd x" "v1 = \<lparr>v_world = w', v_time = Suc t', v_live = True, v_made = made @ [fst x]\<rparr>"
      using v1(1) False by (auto simp: view_post_def t'_def [symmetric] world Let_def)
    moreover have "w' = world_at S (Suc t')" using rw req by (simp add: world_at_Suc serve_def)
    moreover have "answers_at S p (Suc t') = answers_at S p t @ [r]"
      using rw req t'(2) idle by (simp add: answers_at_Suc [OF S(2)])
    ultimately show ?thesis using v1(2) continues_Cons(2) [OF cont] by simp
  qed
qed

text \<open>Before the time \<open>T\<close> the view is the system.\<close>

lemma sync_until:
  assumes "fair_turns S" "p < length (sy_progs S)" "sy_sched S T = p" "request_at S T = Some q"
    and "continues (sy_progs S ! p) (answers_at S p t) tr" "t \<le> T"
    and "dialogue (view_net (sy_net S) (sy_sched S) p (before T (others_at S p)) T) tr (view_at S t made) v'"
  shows "q \<in> set (v_made v') \<or> (\<exists>k. q = get_req k)"
  using assms(5-7)
proof (induction tr arbitrary: t made)
  case Nil
  then have "answers_at S p T = answers_at S p t" by (intro ended_stays [OF assms(2)]) simp_all
  then have "request_at S T = None" using Nil assms(2,3) by (simp add: request_at_def)
  then show ?case using assms(4) by simp
next
  case (Cons x tr)
  let ?e = "before T (others_at S p)" and ?t = "turn (sy_sched S) p t"
  have "\<forall>t. \<exists>t'\<ge>t. sy_sched S t' = p" using assms(1,2) by (simp add: fair_turns_def)
  from turn(4) [OF this Cons.prems(2) assms(3)] have T: "?t \<le> T" .
  then have "\<forall>s < ?t. ?e s = others_at S p s" by (simp add: before_def)
  note step = sync_step [OF assms(1,2) Cons.prems(1,3) this]
  show ?case
  proof (cases "?t = T")
    case True
    then have "q = fst x" using step(3) assms(4) by simp
    from step(4) show ?thesis
    proof (elim disjE conjE)
      assume "hopeless ?e (fst x)"
      then show ?thesis using \<open>q = fst x\<close> by (auto simp: hopeless_def)
    next
      assume "dialogue (view_net (sy_net S) (sy_sched S) p ?e T) tr (view_at S (Suc ?t) (made @ [fst x])) v'"
      from view_made_grows [OF this] show ?thesis using \<open>q = fst x\<close> by simp
    qed
  next
    case False
    then have "Suc ?t \<le> T" "\<not> T \<le> ?t" using T by auto
    then show ?thesis using step(4) Cons.IH [of "Suc ?t"] by auto
  qed
qed

text \<open>With the whole environment all requests of the view are made in the system, and a program that
  ends in its view ends in the system.\<close>

lemma sync_requests:
  assumes "fair_turns S" "p < length (sy_progs S)"
    and "continues (sy_progs S ! p) (answers_at S p t) tr"
    and "dialogue (view_net (sy_net S) (sy_sched S) p (others_at S p) T) tr (view_at S t made) v'"
    and "q \<in> set (v_made v')"
  shows "q \<in> set made \<or> (\<exists>s. sy_sched S s = p \<and> request_at S s = Some q)"
  using assms(3,4)
proof (induction tr arbitrary: t made)
  case (Cons x tr)
  have "\<forall>s < turn (sy_sched S) p t. others_at S p s = others_at S p s" by simp
  note step = sync_step [OF assms(1,2) Cons.prems this]
  from step(4) show ?case
  proof (elim disjE conjE)
    assume "v_made v' = made"
    then show ?thesis using assms(5) by simp
  next
    assume "dialogue (view_net (sy_net S) (sy_sched S) p (others_at S p) T) tr
        (view_at S (Suc (turn (sy_sched S) p t)) (made @ [fst x])) v'"
      "continues (sy_progs S ! p) (answers_at S p (Suc (turn (sy_sched S) p t))) tr"
    from Cons.IH [OF this(2,1)] show ?thesis using step(2,3) by auto
  qed
qed (use assms(5) in auto)

lemma sync_end:
  assumes "fair_turns S" "p < length (sy_progs S)"
    and "continues (sy_progs S ! p) (answers_at S p t) tr"
    and "dialogue (view_net (sy_net S) (sy_sched S) p (others_at S p) T) tr (view_at S t made) v'"
    and "v_live v'"
  shows "\<exists>t'\<ge>t. answers_at S p t' = answers_at S p t @ map snd tr"
  using assms(3,4)
proof (induction tr arbitrary: t made)
  case (Cons x tr)
  have "\<forall>s < turn (sy_sched S) p t. others_at S p s = others_at S p s" by simp
  note step = sync_step [OF assms(1,2) Cons.prems this]
  let ?t = "Suc (turn (sy_sched S) p t)"
  have later: "dialogue (view_net (sy_net S) (sy_sched S) p (others_at S p) T) tr (view_at S ?t (made @ [fst x])) v'"
    "answers_at S p ?t = answers_at S p t @ [snd x]" "continues (sy_progs S ! p) (answers_at S p ?t) tr"
    using step(4) assms(5) by auto
  from Cons.IH [OF later(3,1)] obtain t' where "t' \<ge> ?t" "answers_at S p t' = answers_at S p ?t @ map snd tr"
    by blast
  then show ?case using later(2) step(1) by (intro exI [of _ t']) simp
qed auto

section \<open>A session\<close>

context shared_board
begin

text \<open>Process \<open>p\<close> is party \<open>num p\<close> of a session from the time \<open>st p\<close> on: it has made harmless requests
  before, and then runs \<open>ses p\<close>, which plays its part in the script with the result \<open>res p\<close>;
  \<open>fin p\<close> is what the process makes of a result.\<close>

definition starts_well ::
  "('w, 'b) system \<Rightarrow> nat \<Rightarrow> nat \<Rightarrow> ('w view net \<Rightarrow> ('w view, 'a) prog) \<Rightarrow> ('a \<Rightarrow> 'b option) \<Rightarrow> bool" where
  "starts_well S p t ses fin \<longleftrightarrow>
     (\<forall>e T v x v'. ses (view_net nets (sy_sched S) p e T) v = Some (x, v') \<longrightarrow>
        (\<exists>tr. dialogue (view_net nets (sy_sched S) p e T) tr v v' \<and>
           continues (sy_progs S ! p) (answers_at S p t) tr \<and>
           (\<forall>a. x = Some a \<longrightarrow> outcome (sy_progs S ! p) (answers_at S p t @ map snd tr) = Some (fin a))))"

definition plays_part ::
  "('w, 'b) system \<Rightarrow> u32 \<Rightarrow> string \<Rightarrow> script \<Rightarrow> nat \<Rightarrow> u32 \<Rightarrow> ('w view net \<Rightarrow> ('w view, 'a) prog) \<Rightarrow> 'a \<Rightarrow> bool" where
  "plays_part S n uuid script p me ses a \<longleftrightarrow>
     (\<forall>e T. runs (waits n uuid script me e) (viewed n uuid script me (sy_sched S) p e Map.empty)
        (ses (view_net nets (sy_sched S) p e T)) a
        (viewed n uuid script me (sy_sched S) p e (board_of (written n uuid script me (length script)))))"

text \<open>Playing the part of a script, in the terms of \<open>session_board\<close>.\<close>

lemma view_plays:
  assumes "me \<in> set (u32_range n)" "distinct (map fst script)"
  shows "session_board.plays (\<lambda>k x. (k, x) \<in> set (written n uuid script me (length script)))
    (expects n uuid script me e) n uuid script me"
proof -
  have "expects n uuid script me e (board_of (written n uuid script me (Suc r))) k x"
    if "r < length script" "(k, x) \<in> set (reads n uuid me (script ! r))" for r k x
    using messages_of_reads [OF assms(1) that] that board_of_distinct [OF distinct_written [OF assms(2)]]
    unfolding expects_def by blast
  then show ?thesis
    unfolding session_board.plays_def [OF view_session_board] by auto
qed

lemma plays_partI:
  assumes "me \<in> set (u32_range n)" "distinct (map fst script)"
    and "\<And>e T. session_board.plays (\<lambda>k x. (k, x) \<in> set (written n uuid script me (length script)))
        (expects n uuid script me e) n uuid script me \<Longrightarrow>
      runs (waits n uuid script me e)
        (session_board.after (viewed n uuid script me (sy_sched S) p e) n uuid script me 0)
        (ses (view_net nets (sy_sched S) p e T)) a
        (session_board.after (viewed n uuid script me (sy_sched S) p e) n uuid script me (length script))"
  shows "plays_part S n uuid script p me ses a"
  using assms(3) [OF view_plays [OF assms(1,2)]]
  by (simp add: plays_part_def session_board.after_def [OF view_session_board])

text \<open>Before its time a process makes harmless requests, and then those of its part.\<close>

definition behaves ::
  "('w, 'b) system \<Rightarrow> u32 \<Rightarrow> string \<Rightarrow> script \<Rightarrow> (nat \<Rightarrow> u32) \<Rightarrow> (nat \<Rightarrow> nat) \<Rightarrow> nat \<Rightarrow> bool" where
  "behaves S n uuid script num st t \<longleftrightarrow>
     (\<forall>q. request_at S t = Some q \<longrightarrow>
        (if t < st (sy_sched S t) then harmless q else owes n uuid script (num (sy_sched S t)) q))"

definition session_system ::
  "('w, 'b) system \<Rightarrow> u32 \<Rightarrow> string \<Rightarrow> script \<Rightarrow> (nat \<Rightarrow> u32) \<Rightarrow> (nat \<Rightarrow> nat) \<Rightarrow>
   (nat \<Rightarrow> 'w view net \<Rightarrow> ('w view, 'a) prog) \<Rightarrow> (nat \<Rightarrow> 'a) \<Rightarrow> (nat \<Rightarrow> 'a \<Rightarrow> 'b option) \<Rightarrow> bool" where
  "session_system S n uuid script num st ses res fin \<longleftrightarrow>
     sy_net S = nets \<and> fair_turns S \<and>
     proper (messages_of n uuid script) \<and> distinct (map fst script) \<and>
     settled (messages_of n uuid script) (sy_start S) \<and>
     num ` {..<length (sy_progs S)} = set (u32_range n) \<and>
     (\<forall>p < length (sy_progs S). \<forall>s < st p. \<forall>q. sy_sched S s = p \<longrightarrow> request_at S s = Some q \<longrightarrow> harmless q) \<and>
     (\<forall>p < length (sy_progs S).
        (\<forall>s < st p. behaves S n uuid script num st s) \<longrightarrow>
        starts_well S p (st p) (ses p) (fin p)) \<and>
     (\<forall>p < length (sy_progs S). plays_part S n uuid script p (num p) (ses p) (res p))"

lemma session_systemD:
  assumes "session_system S n uuid script num st ses res fin"
  shows "sy_net S = nets" "fair_turns S" "proper (messages_of n uuid script)"
    "distinct (map fst script)" "settled (messages_of n uuid script) (sy_start S)"
    "num ` {..<length (sy_progs S)} = set (u32_range n)"
    and "p < length (sy_progs S) \<Longrightarrow> s < st p \<Longrightarrow> sy_sched S s = p \<Longrightarrow> request_at S s = Some q \<Longrightarrow> harmless q"
    and "p < length (sy_progs S) \<Longrightarrow>
      \<forall>s < st p. behaves S n uuid script num st s \<Longrightarrow> starts_well S p (st p) (ses p) (fin p)"
    and "p < length (sy_progs S) \<Longrightarrow> plays_part S n uuid script p (num p) (ses p) (res p)"
  using assms by (simp_all add: session_system_def del: split_paired_All)

lemma behaves_polite:
  assumes session: "session_system S n uuid script num st ses res fin"
    and "behaves S n uuid script num st t" "request_at S t = Some q"
  shows "polite harmless (messages_of n uuid script) q"
proof -
  note S = session_systemD [OF session]
  have "sy_sched S t < length (sy_progs S)"
    using assms(3) by (simp add: request_at_def Let_def split: if_splits)
  then have "num (sy_sched S t) \<in> set (u32_range n)" using S(6) by blast
  then show ?thesis
    using assms(2,3) messages_of_written by (auto simp: behaves_def owes_def polite_def split: if_splits)
qed

text \<open>The first view of a process, and what its run does there.\<close>

lemma first_view:
  assumes session: "session_system S n uuid script num st ses res fin" and p: "p < length (sy_progs S)"
    and past: "\<forall>s < st p. behaves S n uuid script num st s"
    and env: "\<forall>s q. e s = Some q \<longrightarrow> request_at S s = Some q \<and> sy_sched S s \<noteq> p \<and>
      polite harmless (messages_of n uuid script) q"
  shows "\<exists>x v' tr. dialogue (view_net nets (sy_sched S) p e T) tr (view_at S (st p) []) v' \<and>
    continues (sy_progs S ! p) (answers_at S p (st p)) tr \<and>
    (x = Some (res p) \<and>
       outcome (sy_progs S ! p) (answers_at S p (st p) @ map snd tr) = Some (fin p (res p)) \<and>
       viewed n uuid script (num p) (sy_sched S) p e
         (board_of (written n uuid script (num p) (length script))) v' \<or>
     x = None \<and> waits n uuid script (num p) e v')"
proof -
  let ?M = "messages_of n uuid script" and ?t = "st p"
  note S = session_systemD [OF session]
  have e: "\<forall>s q. before ?t (request_at S) s = Some q \<longrightarrow> polite harmless ?M q"
    using past behaves_polite [OF session] unfolding before_def by (metis option.distinct(1))
  have world: "world_at S ?t = serve_between nets (before ?t (request_at S)) 0 ?t (sy_start S)"
    using world_at_others [of 0 ?t "before ?t (request_at S)" S] S(1) by (simp add: before_def)
  note serve = polite_serve_between [where e = "before ?t (request_at S)", OF S(3,5) e]
  have "num p \<in> set (u32_range n)" using S(6) p by blast
  moreover have "e s = None" if "sy_sched S s = p" for s using env that by (cases "e s") auto
  ultimately have "env_ok n uuid script (num p) (sy_sched S) p e"
    using S(2,3) p env by (simp add: env_ok_def fair_turns_def)
  moreover have "arrived ?M e ?t (world_at S ?t)"
    unfolding arrived_def world
  proof (intro allI impI ballI, clarify)
    fix s k x assume "s < ?t" "(k, x) \<in> ?M" "e s = Some (set_req k x)"
    then show "look (serve_between nets (before ?t (request_at S)) 0 ?t (sy_start S)) k = Some x"
      using env serve(3) [where k = k and v = x and s = s] by (simp add: before_def)
  qed
  ultimately have "viewed n uuid script (num p) (sy_sched S) p e Map.empty (view_at S ?t [])"
    using serve(1) by (simp add: viewed_def world)
  from runsE [OF S(9) [OF p, unfolded plays_part_def, rule_format] this, of T] obtain x v' where
    run: "ses p (view_net nets (sy_sched S) p e T) (view_at S ?t []) = Some (x, v')"
    "x = Some (res p) \<and> viewed n uuid script (num p) (sy_sched S) p e
       (board_of (written n uuid script (num p) (length script))) v' \<or>
     x = None \<and> waits n uuid script (num p) e v'" by blast
  with S(8) [OF p past] obtain tr where
    "dialogue (view_net nets (sy_sched S) p e T) tr (view_at S ?t []) v'"
    "continues (sy_progs S ! p) (answers_at S p ?t) tr"
    "\<forall>a. x = Some a \<longrightarrow> outcome (sy_progs S ! p) (answers_at S p ?t @ map snd tr) = Some (fin p a)"
    unfolding starts_well_def by blast
  then show ?thesis using run(2) by blast
qed

text \<open>All requests are those of the parties.\<close>

lemma all_behave:
  assumes session: "session_system S n uuid script num st ses res fin"
  shows "behaves S n uuid script num st t"
proof (induction t rule: less_induct)
  case (less t)
  let ?M = "messages_of n uuid script"
  note S = session_systemD [OF session]
  define p where "p = sy_sched S t"
  show ?case
    unfolding behaves_def p_def [symmetric]
  proof (intro allI impI)
    fix q assume q: "request_at S t = Some q"
    then have p: "p < length (sy_progs S)"
      by (simp add: request_at_def p_def Let_def split: if_splits)
    show "if t < st p then harmless q else owes n uuid script (num p) q"
    proof (cases "t < st p")
      case True
      then show ?thesis using S(7) [OF p True] q by (simp add: p_def)
    next
      case False
      let ?e = "before t (others_at S p)"
      have past: "\<forall>s < st p. behaves S n uuid script num st s"
        using False by (intro allI impI less.IH) simp
      have env: "\<forall>s q. ?e s = Some q \<longrightarrow> request_at S s = Some q \<and> sy_sched S s \<noteq> p \<and> polite harmless ?M q"
        using behaves_polite [OF session less.IH] by (auto simp: before_def others_at_def split: if_splits)
      obtain x v' tr where run:
        "dialogue (view_net nets (sy_sched S) p ?e t) tr (view_at S (st p) []) v'"
        "continues (sy_progs S ! p) (answers_at S p (st p)) tr"
        "x = Some (res p) \<and> outcome (sy_progs S ! p) (answers_at S p (st p) @ map snd tr) = Some (fin p (res p)) \<and>
         viewed n uuid script (num p) (sy_sched S) p ?e
           (board_of (written n uuid script (num p) (length script))) v' \<or>
         x = None \<and> waits n uuid script (num p) ?e v'"
        using first_view [OF session p past env, of t] by blast
      have "\<forall>q\<in>set (v_made v'). owes n uuid script (num p) q"
        using run(3) by (auto simp: viewed_def waits_def)
      moreover have "q \<in> set (v_made v') \<or> (\<exists>k. q = get_req k)"
        using False run(1,2) by (intro sync_until [OF S(2) p p_def [symmetric] q run(2)]) (simp_all add: S(1))
      ultimately show ?thesis using False by (auto simp: owes_def polite_def)
    qed
  qed
qed

lemma whole_view:
  assumes session: "session_system S n uuid script num st ses res fin" and p: "p < length (sy_progs S)"
  shows "\<exists>v' tr. dialogue (view_net nets (sy_sched S) p (others_at S p) 0) tr (view_at S (st p) []) v' \<and>
    continues (sy_progs S ! p) (answers_at S p (st p)) tr \<and>
    (outcome (sy_progs S ! p) (answers_at S p (st p) @ map snd tr) = Some (fin p (res p)) \<and>
       viewed n uuid script (num p) (sy_sched S) p (others_at S p)
         (board_of (written n uuid script (num p) (length script))) v' \<or>
     waits n uuid script (num p) (others_at S p) v')"
proof -
  have "\<forall>s < st p. behaves S n uuid script num st s"
    using all_behave [OF session] by blast
  moreover have "\<forall>s q. others_at S p s = Some q \<longrightarrow> request_at S s = Some q \<and> sy_sched S s \<noteq> p \<and>
      polite harmless (messages_of n uuid script) q"
    using behaves_polite [OF session all_behave [OF session]] by (auto simp: others_at_def split: if_splits)
  ultimately show ?thesis using first_view [OF session p] by blast
qed

lemma sender:
  assumes session: "session_system S n uuid script num st ses res fin" and p: "p < length (sy_progs S)"
    and "r < length script" "(k, x) \<in> set (reads n uuid (num p) (script ! r))"
  obtains p' where "p' < length (sy_progs S)" "p' \<noteq> p" "(k, x) \<in> set (sends n uuid (num p') (script ! r))"
proof -
  note S = session_systemD [OF session]
  have "num p \<in> set (u32_range n)" using S(6) p by blast
  from messages_of_reads [OF this assms(3,4)] obtain j where
    j: "j \<in> set (others (num p) n)" "(k, x) \<in> set (sends n uuid j (script ! r))" by blast
  then have "j \<in> num ` {..<length (sy_progs S)}" "j \<noteq> num p" using S(6) by simp_all
  then show thesis using j(2) that by blast
qed

text \<open>Every message of the first \<open>R\<close> rounds is written.\<close>

lemma all_written:
  assumes session: "session_system S n uuid script num st ses res fin"
  shows "R \<le> length script \<Longrightarrow> p < length (sy_progs S) \<Longrightarrow>
    (k, x) \<in> set (written n uuid script (num p) R) \<Longrightarrow>
    \<exists>s. sy_sched S s = p \<and> request_at S s = Some (set_req k x)"
proof (induction R arbitrary: p k x)
  case (Suc R)
  note S = session_systemD [OF session]
  have made: "\<exists>s. sy_sched S s = p \<and> request_at S s = Some q"
    if "dialogue (view_net nets (sy_sched S) p (others_at S p) 0) tr (view_at S (st p) []) v'"
      "continues (sy_progs S ! p) (answers_at S p (st p)) tr" "q \<in> set (v_made v')" for tr v' q
    using sync_requests [OF S(2) Suc.prems(2) that(2) _ that(3), of 0 "[]"] that(1) S(1) by simp
  have sooner: "(k, x) \<in> set (written n uuid script (num p) r)" if "Suc R \<le> r" for r
    using Suc.prems(3) set_take_subset_set_take [OF that, of script] by (auto simp: written_def)
  obtain v' tr where run:
    "dialogue (view_net nets (sy_sched S) p (others_at S p) 0) tr (view_at S (st p) []) v'"
    "continues (sy_progs S ! p) (answers_at S p (st p)) tr"
    "viewed n uuid script (num p) (sy_sched S) p (others_at S p)
       (board_of (written n uuid script (num p) (length script))) v' \<or>
     waits n uuid script (num p) (others_at S p) v'"
    using whole_view [OF session Suc.prems(2)] by blast
  from run(3) have "set_req k x \<in> set (v_made v')"
  proof
    assume "viewed n uuid script (num p) (sy_sched S) p (others_at S p)
       (board_of (written n uuid script (num p) (length script))) v'"
    moreover have "board_of (written n uuid script (num p) (length script)) k = Some x"
      using sooner [OF Suc.prems(1)] distinct_written [OF S(4)] by (intro board_of_distinct)
    ultimately show ?thesis by (simp add: viewed_def)
  next
    assume "waits n uuid script (num p) (others_at S p) v'"
    then obtain r k' x' where r: "r < length script"
      "\<forall>(k, x)\<in>set (written n uuid script (num p) (Suc r)). set_req k x \<in> set (v_made v')"
      "(k', x') \<in> set (reads n uuid (num p) (script ! r))" "never_set (others_at S p) k'"
      unfolding waits_def by blast
    from sender [OF session Suc.prems(2) r(1,3)] obtain p' where
      p': "p' < length (sy_progs S)" "p' \<noteq> p" "(k', x') \<in> set (sends n uuid (num p') (script ! r))" .
    have "\<not> r < R"
    proof
      assume "r < R"
      then have "(k', x') \<in> set (written n uuid script (num p') R)"
        using written_sends [OF _ r(1), of R] p'(3) by blast
      from Suc.IH [OF Suc_leD [OF Suc.prems(1)] p'(1) this] obtain s where
        "others_at S p s = Some (set_req k' x')" using others_atI p'(2) by blast
      then show False using r(4) unfolding never_set_def by blast
    qed
    then show ?thesis using r(2) sooner [of "Suc r"] by auto
  qed
  then show ?case using made [OF run(1,2)] by blast
qed simp

text \<open>So every process ends.\<close>

lemma process_ends:
  assumes session: "session_system S n uuid script num st ses res fin" and p: "p < length (sy_progs S)"
  shows "\<exists>t. \<forall>t'\<ge>t. result_at S p t' = Some (fin p (res p))"
proof -
  note S = session_systemD [OF session]
  obtain v' tr where run:
    "dialogue (view_net nets (sy_sched S) p (others_at S p) 0) tr (view_at S (st p) []) v'"
    "continues (sy_progs S ! p) (answers_at S p (st p)) tr"
    "outcome (sy_progs S ! p) (answers_at S p (st p) @ map snd tr) = Some (fin p (res p)) \<and>
       viewed n uuid script (num p) (sy_sched S) p (others_at S p)
         (board_of (written n uuid script (num p) (length script))) v' \<or>
     waits n uuid script (num p) (others_at S p) v'"
    using whole_view [OF session p] by blast
  have "\<not> waits n uuid script (num p) (others_at S p) v'"
  proof
    assume "waits n uuid script (num p) (others_at S p) v'"
    then obtain r k' x' where r: "r < length script"
      "(k', x') \<in> set (reads n uuid (num p) (script ! r))" "never_set (others_at S p) k'"
      unfolding waits_def by blast
    from sender [OF session p r(1,2)] obtain p' where
      p': "p' < length (sy_progs S)" "p' \<noteq> p" "(k', x') \<in> set (sends n uuid (num p') (script ! r))" .
    have "(k', x') \<in> set (written n uuid script (num p') (length script))"
      using written_sends [OF r(1) r(1)] p'(3) by blast
    from all_written [OF session order_refl p'(1) this] obtain s where
      "others_at S p s = Some (set_req k' x')" using others_atI p'(2) by blast
    then show False using r(3) unfolding never_set_def by blast
  qed
  then have ended: "outcome (sy_progs S ! p) (answers_at S p (st p) @ map snd tr) = Some (fin p (res p))"
    "v_live v'" using run(3) by (auto simp: viewed_def)
  obtain t' where t': "t' \<ge> st p" "answers_at S p t' = answers_at S p (st p) @ map snd tr"
    using sync_end [OF S(2) p run(2) _ ended(2), of 0 "[]"] run(1) S(1) by blast
  have "next_request (sy_progs S ! p) (answers_at S p t') = None"
    using run(2) t'(2) by (simp add: continues_def)
  then have "answers_at S p t'' = answers_at S p t'" if "t'' \<ge> t'" for t''
    using ended_stays [OF p] that by blast
  then show ?thesis using ended(1) t'(2) by (intro exI [of _ t']) (simp add: result_at_def)
qed

lemma system_ends:
  assumes session: "session_system S n uuid script num st ses res fin"
  shows "\<exists>t. \<forall>t'\<ge>t. \<forall>p < length (sy_progs S). result_at S p t' = Some (fin p (res p))"
proof -
  have "\<forall>p. \<exists>t. p < length (sy_progs S) \<longrightarrow> (\<forall>t'\<ge>t. result_at S p t' = Some (fin p (res p)))"
    using process_ends [OF session] by blast
  then obtain t where t: "\<And>p t'. p < length (sy_progs S) \<Longrightarrow> t p \<le> t' \<Longrightarrow> result_at S p t' = Some (fin p (res p))"
    by metis
  have "t p \<le> sum t {..<length (sy_progs S)}" if "p < length (sy_progs S)" for p
    using that by (intro member_le_sum) auto
  then show ?thesis using t order_trans by blast
qed

end

end
