(* ===== verification/Joining.thy ===== *)
theory Joining
  imports Concurrency
begin

text \<open>
  Processes that sign up at the server and then play their part: the server of \<open>Server\<close> as the
  board of a running system (\<open>joined\<close> interprets \<open>shared_board\<close>), what the processes must have
  received from their sign-ups to form a session (\<open>signed_up\<close>), and the end of all of them
  (\<open>joined_system_ends\<close>). The order in which the DHT delivers values is arbitrary.
\<close>

section \<open>The server as a shared board\<close>

definition signup_route :: "string \<Rightarrow> tuple_key \<Rightarrow> (codecs \<Rightarrow> string option \<Rightarrow> u32 option) \<Rightarrow> bool" where
  "signup_route path key lim \<longleftrightarrow>
     path = ''signupkeygen'' \<and> key = keygen_key \<and> lim = keygen_limit \<or>
     path = ''signupsign'' \<and> key = sign_key \<and> lim = sign_limit"

definition ready ::
  "string \<Rightarrow> tuple_key \<Rightarrow> (codecs \<Rightarrow> string option \<Rightarrow> u32 option) \<Rightarrow> string option \<Rightarrow> (nat \<Rightarrow> string) \<Rightarrow>
   ('d, 'h) api_world \<Rightarrow> bool" where
  "ready path key lim conf fresh w \<longleftrightarrow>
     signup_route path key lim \<and> (\<forall>t. utf8_valid (fresh t)) \<and>
     (case w of (L, J, s) \<Rightarrow> counter_inv lim key (L, J, conf, s))"

definition is_message :: "tuple_key \<Rightarrow> bool" where
  "is_message k \<longleftrightarrow> key_first k \<noteq> ''signup''"

lemma signup_not_message: "signup_route path key lim \<Longrightarrow> \<not> is_message key"
  by (auto simp: signup_route_def is_message_def keygen_key_def sign_key_def)

text \<open>Whether a counter is well-formed depends on its values only.\<close>

lemma counter_entries_values:
  "counter_entries L J s key = {p. \<exists>t\<in>api_values (L, J, s) key. parse_signup J t = Some p}"
  by (simp add: counter_entries_def)

lemma counter_ok_values:
  "counter_ok L J s key \<longleftrightarrow>
     api_values (L, J, s) key \<noteq> {} \<and>
     (\<forall>t\<in>api_values (L, J, s) key. \<exists>p. parse_signup J t = Some p \<and> utf8_valid (ps_uuid p))"
  by (simp add: counter_ok_def counter_clean_def)

text \<open>A sign-up hands out the successor of the entry that it is delivered.\<close>

lemma route_post:
  assumes "signup_route path key lim" "codec_laws J" "unlocked s" "lim J conf = Some l"
    and "counter_value L J s key = Some prev" "utf8_valid (ps_uuid prev)" "utf8_valid u"
  obtains t tx where "post (http_net A conf u) path (Body_Key key) (L, J, s) =
      (Get_Ok (Some tx), (L, J, s\<lparr>dht := put_signed L (dht s) (key_hash L J s key) t True\<rparr>))"
    "get_signup (Rep_lawful_codec A) tx = Some (Inr (next_signup l u prev))"
    "utf8_valid t" "parse_signup J t = Some (next_signup l u prev)"
proof -
  let ?p = "next_signup l u prev"
  obtain t where t: "signup_body L J key l u s =
      (Some (Inr ?p), s\<lparr>dht := put_signed L (dht s) (key_hash L J s key) t True\<rparr>)"
    "utf8_valid t" "parse_signup J t = Some ?p"
    using signup_body_ok [OF assms(2,3,5-7) refl] by blast
  have "server_post (Rep_lawful_codec A) L J conf u path (Body_Key key) s =
      (Get_Ok (Some (put_signup (Rep_lawful_codec A) (Inr ?p))),
       s\<lparr>dht := put_signed L (dht s) (key_hash L J s key) t True\<rparr>)"
    using assms(1,4) t(1)
    by (auto simp: signup_route_def server_post_def reply_text_def signup_keygen_eq signup_sign_eq)
  then have "post (http_net A conf u) path (Body_Key key) (L, J, s) =
      (Get_Ok (Some (put_signup (Rep_lawful_codec A) (Inr ?p))),
       (L, J, s\<lparr>dht := put_signed L (dht s) (key_hash L J s key) t True\<rparr>))"
    by (simp add: http_net_def server_net_def)
  moreover have "get_signup (Rep_lawful_codec A) (put_signup (Rep_lawful_codec A) (Inr ?p)) = Some (Inr ?p)"
    using lawful_codec [of A] by (simp add: answer_laws_def)
  ultimately show thesis using t(2,3) that by blast
qed

text \<open>It keeps the counter well-formed and leaves all other keys alone.\<close>

lemma route_signup:
  assumes "signup_route path key lim" "counter_inv lim key (L, J, conf, s)" "utf8_valid u"
  shows "\<exists>tx s'. post (http_net A conf u) path (Body_Key key) (L, J, s) = (Get_Ok (Some tx), (L, J, s')) \<and>
    counter_inv lim key (L, J, conf, s') \<and>
    (\<forall>k. k \<noteq> key \<longrightarrow> api_values (L, J, s') k = api_values (L, J, s) k)"
proof -
  have laws: "dht_store L" "no_collisions L" "codec_laws J" "unlocked s"
    and clean: "counter_clean L J s key"
    using assms(2) by (simp_all add: counter_inv_def api_ok_def counter_ok_def)
  obtain l where l: "lim J conf = Some l" using assms(2) by (auto simp: counter_inv_def)
  obtain prev where prev: "counter_value L J s key = Some prev" "utf8_valid (ps_uuid prev)"
    using assms(2) by (auto simp: counter_inv_def elim: counter_okE)
  obtain t tx where t: "post (http_net A conf u) path (Body_Key key) (L, J, s) =
      (Get_Ok (Some tx), (L, J, s\<lparr>dht := put_signed L (dht s) (key_hash L J s key) t True\<rparr>))"
    "utf8_valid t" "parse_signup J t = Some (next_signup l u prev)"
    by (rule route_post [OF assms(1) laws(3,4) l prev assms(3)])
  let ?s = "s\<lparr>dht := put_signed L (dht s) (key_hash L J s key) t True\<rparr>"
  have "counter_inv lim key (L, J, conf, ?s)"
    using counter_put(2) [OF laws(1-3) t(2) refl t(3) _ clean, of True] laws l prev(2) assms(3)
    by (simp add: counter_inv_def api_ok_def utf8_next_signup)
  moreover have "api_values (L, J, ?s) k = api_values (L, J, s) k" if "k \<noteq> key" for k
    using laws t(2) that by (simp add: held_put key_hash_inject)
  ultimately show ?thesis using t(1) by blast
qed

interpretation joined: shared_board "ready path key lim conf fresh" api_put api_look api_values utf8_valid
  "\<lambda>t. http_net A conf (fresh t)" is_message
  "\<lambda>q. signup_route path key lim \<and> q = (path, Body_Key key)"
  for path key lim conf fresh A
proof
  fix w :: "('a, 'b) api_world" and v :: string and k k' :: tuple_key and t :: nat and q :: request
  obtain L J s where w: "w = (L, J, s)" by (cases w)
  { assume ready: "ready path key lim conf fresh w" and v: "utf8_valid v"
    then have ok: "api_ok w" by (simp add: w ready_def counter_inv_def)
    show "\<exists>txt. post (http_net A conf (fresh t)) ''set'' (Body_Entry \<lparr>en_key = k, en_value = v\<rparr>) w =
        (Get_Ok (Some txt), api_put w k v) \<and> dec_unit (http_net A conf (fresh 0)) txt = Some (Inr ())"
      using http.post_set [OF ok v, of A conf "fresh t" k] by (simp add: http_net_def server_net_def)
    assume k: "is_message k"
    show "api_values (api_put w k v) k' = (if k = k' then insert v (api_values w k') else api_values w k')"
      by (rule board.vals_put [OF ok v])
    have "k \<noteq> key" using k signup_not_message ready by (auto simp: ready_def)
    then have "api_values (api_put w k v) key = api_values w key"
      using board.vals_put [OF ok v, of k key] by simp
    moreover obtain s' where "api_put w k v = (L, J, s')"
      using ok by (auto simp: w api_ok_def api_put_eq)
    ultimately show "ready path key lim conf fresh (api_put w k v)"
      using ready board.inv_put [OF ok v, of k]
      by (simp add: w ready_def counter_inv_def counter_ok_values del: api_values_eq)
  }
  { assume "ready path key lim conf fresh w"
    then have ok: "api_ok w" by (simp add: w ready_def counter_inv_def)
    show "api_look w k = None \<longleftrightarrow> api_values w k = {}" by (rule board.look_none [OF ok])
    show "api_look w k = Some v \<Longrightarrow> v \<in> api_values w k" by (rule board.look_some [OF ok])
    show "\<exists>txt. post (http_net A conf (fresh t)) ''get'' (Body_Index \<lparr>ix_key = k\<rparr>) w = (Get_Ok (Some txt), w) \<and>
        dec_entry (http_net A conf (fresh 0)) txt =
          Some (case api_look w k of Some v \<Rightarrow> Inr \<lparr>en_key = k, en_value = v\<rparr> | None \<Rightarrow> Inl ())"
      using http.post_get [OF ok, of A conf "fresh t" k] by (simp add: http_net_def server_net_def)
  }
  { assume ready: "ready path key lim conf fresh w"
      and q: "signup_route path key lim \<and> q = (path, Body_Key key)"
    then have "counter_inv lim key (L, J, conf, s)" "utf8_valid (fresh t)" by (simp_all add: w ready_def)
    with route_signup [OF conjunct1 [OF q], of L J conf s "fresh t" A] obtain tx s' where
      "post (http_net A conf (fresh t)) path (Body_Key key) (L, J, s) = (Get_Ok (Some tx), (L, J, s'))"
      "counter_inv lim key (L, J, conf, s')"
      "\<forall>k. k \<noteq> key \<longrightarrow> api_values (L, J, s') k = api_values (L, J, s) k"
      by blast
    then show "ready path key lim conf fresh (snd (post (http_net A conf (fresh t)) (fst q) (snd q) w)) \<and>
      (\<forall>k. is_message k \<longrightarrow>
         api_values (snd (post (http_net A conf (fresh t)) (fst q) (snd q) w)) k = api_values w k)"
      using ready q signup_not_message [of path key lim] by (auto simp: w ready_def)
  }
  assume "signup_route path key lim \<and> q = (path, Body_Key key)"
  then show "fst q \<noteq> ''set''" by (auto simp: signup_route_def)
qed

text \<open>So every process sees a board on which it can play its part, see \<open>Rounds\<close>.\<close>

interpretation joined_view: session_board
  "view_net (\<lambda>t. http_net A conf (fresh t)) sched p e T"
  "\<lambda>k x. (k, x) \<in> set (written n uuid script me (length script))"
  "joined.viewed path key lim conf fresh n uuid script me sched p e"
  "joined.expects n uuid script me e" "joined.waits n uuid script me e"
  for A conf fresh sched p T path key lim n uuid script me e
  by (rule joined.view_session_board)

section \<open>The numbers\<close>

definition first_turn :: "('w, 'a) system \<Rightarrow> nat \<Rightarrow> nat" where
  "first_turn S p = turn (sy_sched S) p 0"

lemma first_turn:
  assumes "fair_turns S" "p < length (sy_progs S)"
  shows "sy_sched S (first_turn S p) = p" "sy_sched S s = p \<Longrightarrow> first_turn S p \<le> s"
    and "answers_at S p (first_turn S p) = []"
proof -
  have often: "\<forall>t. \<exists>t'\<ge>t. sy_sched S t' = p" using assms by (simp add: fair_turns_def)
  note turn = turn [OF often, of 0, folded first_turn_def]
  show "sy_sched S (first_turn S p) = p" "sy_sched S s = p \<Longrightarrow> first_turn S p \<le> s"
    using turn(2,4) by simp_all
  have "answers_at S p (first_turn S p) = answers_at S p 0"
    using turn(3) by (intro answers_at_idle [OF assms(2)]) simp_all
  then show "answers_at S p (first_turn S p) = []" using assms(2) by simp
qed

text \<open>The answers to the first requests of the processes, their sign-ups, make them the parties of one
  session: process \<open>p\<close> has received the number \<open>num p\<close>, a different one for every process, and all
  of them the same identifier. The counter on the DHT does not guarantee this, see
  \<open>stale_counter_duplicates\<close>.\<close>

definition signed_up ::
  "('w, 'a) system \<Rightarrow> lawful_codec \<Rightarrow> u32 \<Rightarrow> (nat \<Rightarrow> u32) \<Rightarrow> string \<Rightarrow> bool" where
  "signed_up S A n num uuid \<longleftrightarrow>
     num ` {..<length (sy_progs S)} = set (u32_range n) \<and>
     (\<forall>p < length (sy_progs S). \<exists>tx.
        answers_at S p (Suc (first_turn S p)) = [Get_Ok (Some tx)] \<and>
        get_signup (Rep_lawful_codec A) tx = Some (Inr \<lparr>ps_number = num p, ps_uuid = uuid\<rparr>))"

lemma sum_by_number:
  fixes f :: "u32 \<Rightarrow> 'c::comm_monoid_add"
  assumes "num ` {..<N} = set (u32_range n)" "N = unat n" "n < - 1" "\<And>p. p < N \<Longrightarrow> f (num p) = g p"
  shows "(\<Sum>i\<leftarrow>u32_range n. f i) = (\<Sum>p\<leftarrow>[0..<N]. g p)"
proof -
  have "card (set (u32_range n)) = unat n"
    using distinct_card [OF distinct_u32_range] length_u32_range [OF unat_plus_one [OF assms(3)]] by simp
  then have inj: "inj_on num {..<N}" using assms(1,2) by (intro eq_card_imp_inj_on) simp_all
  have "(\<Sum>i\<leftarrow>u32_range n. f i) = (\<Sum>i\<in>set (u32_range n). f i)"
    using distinct_u32_range by (simp add: sum_list_distinct_conv_sum_set)
  also have "\<dots> = (\<Sum>p\<in>{..<N}. g p)"
    unfolding assms(1) [symmetric] using inj assms(4) by (subst sum.reindex) auto
  also have "\<dots> = (\<Sum>p\<leftarrow>[0..<N]. g p)"
    by (simp add: sum_list_distinct_conv_sum_set atLeast0LessThan)
  finally show ?thesis .
qed

section \<open>Signing up\<close>

text \<open>A process that signs up first, and then runs \<open>ses\<close> with the entry \<open>party\<close> that it received.\<close>

definition joins ::
  "(tape, 'b) prog \<Rightarrow> request \<Rightarrow> (string \<Rightarrow> (unit + party_signup) option) \<Rightarrow> party_signup \<Rightarrow>
   (tape, 'a) prog \<Rightarrow> ('a \<Rightarrow> 'b option) \<Rightarrow> bool" where
  "joins m q dec party ses fin \<longleftrightarrow>
     next_request m [] = Some q \<and>
     (\<forall>tx tr x. dec tx = Some (Inr party) \<longrightarrow> replays ses tr x \<longrightarrow>
        continues m [Get_Ok (Some tx)] tr \<and>
        (\<forall>a. x = Some a \<longrightarrow> outcome m (Get_Ok (Some tx) # map snd tr) = Some (fin a)))"

lemma sends_third: "(k, v) \<in> set (sends n uuid i rd) \<Longrightarrow> key_third k = uuid"
  by (cases rd rule: sends.cases [of "(n, uuid, i, rd)" for rd, simplified]) (auto simp: party_key_def)

lemma messages_third: "(k, v) \<in> messages_of n uuid script \<Longrightarrow> key_third k = uuid"
  by (auto simp: messages_of_def written_def dest: sends_third)

lemma signup_not_number: "u32_to_string i \<noteq> ''signup''"
proof
  assume "u32_to_string i = ''signup''"
  then have "parse_u32 ''signup'' = Some i" using parse_u32_to_string [of i] by simp
  moreover have "parse_u32 ''signup'' = None"
    by (simp add: parse_u32_def parse_unsigned_def digit_val_def)
  ultimately show False by simp
qed

lemma proper_messages:
  assumes "script_ok script"
  shows "joined.proper (messages_of n uuid script)"
  unfolding joined.proper_def
proof (intro conjI allI impI)
  show "\<forall>(k, v)\<in>messages_of n uuid script. utf8_valid v \<and> is_message k"
  proof clarify
    fix k v assume "(k, v) \<in> messages_of n uuid script"
    then obtain i where "(k, v) \<in> set (written n uuid script i (length script))"
      by (auto simp: messages_of_def)
    from written_utf8 [OF assms this] written_key [OF this]
    show "utf8_valid v \<and> is_message k" by (simp add: is_message_def signup_not_number)
  qed
  show "v = v'" if "(k, v) \<in> messages_of n uuid script" "(k, v') \<in> messages_of n uuid script" for k v v'
    using messages_of_functional [OF _ that] assms by (simp add: script_ok_def)
qed

text \<open>The time at which a process starts its part.\<close>

abbreviation joined_at :: "('w, 'a) system \<Rightarrow> nat \<Rightarrow> nat" where
  "joined_at S p \<equiv> Suc (first_turn S p)"

text \<open>A server with a well-formed counter, as many processes as a session has, and no message of the
  session on the board.\<close>

definition joining ::
  "(('d, 'h) api_world, 'b) system \<Rightarrow> lawful_codec \<Rightarrow> string option \<Rightarrow> (nat \<Rightarrow> string) \<Rightarrow> string \<Rightarrow>
   tuple_key \<Rightarrow> (codecs \<Rightarrow> string option \<Rightarrow> u32 option) \<Rightarrow> u32 \<Rightarrow> (nat \<Rightarrow> u32) \<Rightarrow> string \<Rightarrow> bool" where
  "joining S A conf fresh path key lim n num uuid \<longleftrightarrow>
     fair_turns S \<and> length (sy_progs S) = unat n \<and> n < - 1 \<and>
     sy_net S = (\<lambda>t. http_net A conf (fresh t)) \<and>
     ready path key lim conf fresh (sy_start S) \<and>
     (\<forall>k. is_message k \<longrightarrow> key_third k = uuid \<longrightarrow> api_values (sy_start S) k = {}) \<and>
     (\<forall>p < length (sy_progs S). next_request (sy_progs S ! p) [] = Some (path, Body_Key key)) \<and>
     signed_up S A n num uuid"

lemma joiningI:
  assumes "fair_turns S" "signed_up S A n num uuid" "length (sy_progs S) = unat n" "n < - 1"
    and "sy_net S = (\<lambda>t. http_net A conf (fresh t))" "sy_start S = (L, J, s)"
    and "signup_route path key lim" "\<forall>t. utf8_valid (fresh t)" "api_ok (L, J, s)" "lim J conf = Some l"
    and "counter_ok L J s key"
    and "\<forall>k. is_message k \<longrightarrow> key_third k = uuid \<longrightarrow> api_values (L, J, s) k = {}"
    and "\<And>p. p < length (sy_progs S) \<Longrightarrow> next_request (sy_progs S ! p) [] = Some (path, Body_Key key)"
  shows "joining S A conf fresh path key lim n num uuid"
  using assms by (simp add: joining_def ready_def counter_inv_def)

lemma joiningD:
  assumes "joining S A conf fresh path key lim n num uuid"
  shows "fair_turns S" "length (sy_progs S) = unat n" "n < - 1" "num ` {..<length (sy_progs S)} = set (u32_range n)"
  using assms unfolding joining_def signed_up_def by blast+

lemma first_request:
  assumes "joining S A conf fresh path key lim n num uuid" "p < length (sy_progs S)"
  shows "request_at S (first_turn S p) = Some (path, Body_Key key)"
  using assms first_turn [of S p] by (simp add: joining_def request_at_def)

text \<open>All that happens to the board: the counter stays well-formed, and only messages of the session are
  written besides.\<close>

definition board_kept ::
  "tuple_key \<Rightarrow> string \<Rightarrow> ('d, 'h) api_world \<Rightarrow> ('d, 'h) api_world \<Rightarrow> bool" where
  "board_kept key uuid w w' \<longleftrightarrow>
     (\<forall>k. k \<noteq> key \<longrightarrow> (is_message k \<longrightarrow> key_third k \<noteq> uuid) \<longrightarrow> api_values w' k = api_values w k)"

lemma board_at:
  assumes J: "joining S A conf fresh path key lim n num uuid" "sy_start S = (L, J, s)"
    and script: "script_ok script"
    and past: "\<forall>s<t. joined.behaves path key lim S n uuid script num (joined_at S) s"
  shows "\<exists>s'. world_at S t = (L, J, s') \<and> counter_inv lim key (L, J, conf, s') \<and>
    board_kept key uuid (L, J, s) (L, J, s')"
  using past
proof (induction t)
  case 0
  then show ?case using J by (simp add: joining_def ready_def board_kept_def)
next
  case (Suc t)
  note j = J(1) [unfolded joining_def J(2), simplified]
  have fair: "fair_turns S" and net: "sy_net S = (\<lambda>t. http_net A conf (fresh t))"
    and route: "signup_route path key lim" and fresh: "utf8_valid (fresh t)"
    using j by (simp_all add: ready_def)
  let ?p = "sy_sched S t"
  obtain s' where s': "world_at S t = (L, J, s')" "counter_inv lim key (L, J, conf, s')"
    "board_kept key uuid (L, J, s) (L, J, s')"
    using Suc by auto
  then have ok: "api_ok (L, J, s')" by (simp add: counter_inv_def)
  show ?case
  proof (cases "request_at S t")
    case None
    then show ?thesis using s' by (simp add: world_at_Suc serve_def)
  next
    case (Some q)
    then have p: "?p < length (sy_progs S)" by (simp add: request_at_def Let_def split: if_splits)
    have first: "first_turn S ?p \<le> t" using first_turn(2) [OF fair p refl] .
    consider (signup) "q = (path, Body_Key key)" | (get) k where "q = get_req k"
      | (set) k v where "q = set_req k v" "(k, v) \<in> set (written n uuid script (num ?p) (length script))"
    proof (cases "first_turn S ?p = t")
      case True
      then show ?thesis using that(1) first_request [OF J(1) p] Some by simp
    next
      case False
      then have "\<not> t < joined_at S ?p" using first by auto
      then have "joined.owes n uuid script (num ?p) q"
        using Suc.prems [rule_format, of t] Some by (cases q) (simp add: joined.behaves_def)
      then show ?thesis using that(2,3) by (auto simp: joined.owes_def polite_def)
    qed
    then show ?thesis
    proof cases
      case signup
      obtain tx s'' where "post (http_net A conf (fresh t)) path (Body_Key key) (L, J, s') =
          (Get_Ok (Some tx), (L, J, s''))" "counter_inv lim key (L, J, conf, s'')"
        "\<forall>k. k \<noteq> key \<longrightarrow> api_values (L, J, s'') k = api_values (L, J, s') k"
        using route_signup [OF route s'(2) fresh, of A] by blast
      then show ?thesis
        using s'(1,3) signup Some by (simp add: world_at_Suc serve_def net board_kept_def)
    next
      case get
      then show ?thesis
        using s' Some http.post_get [OF ok, of A conf "fresh t" k] net
        by (auto simp: world_at_Suc serve_def)
    next
      case set
      have v: "utf8_valid v" "is_message k" "key_third k = uuid"
        using written_utf8 [OF script set(2)] written_key [OF set(2)] signup_not_number set(2)
        by (auto simp: is_message_def written_def dest: sends_third)
      then have "k \<noteq> key" using signup_not_message [OF route] by auto
      obtain s'' where s'': "api_put (L, J, s') k v = (L, J, s'')"
        using ok by (auto simp: api_ok_def api_put_eq)
      then have "world_at S (Suc t) = (L, J, s'')"
        using s'(1) Some set(1) http.post_set [OF ok v(1), of A conf "fresh t" k] net
        by (auto simp: world_at_Suc serve_def)
      moreover have "api_ok (L, J, s'')" using board.inv_put [OF ok v(1), of k] s'' by simp
      moreover have vals: "api_values (L, J, s'') k' = api_values (L, J, s') k'" if "k' \<noteq> k" for k'
        using board.vals_put [OF ok v(1), of k k'] s'' that by simp
      moreover have "counter_ok L J s'' key"
        using s'(2) vals [of key] \<open>k \<noteq> key\<close> by (simp add: counter_inv_def counter_ok_values del: api_values_eq)
      moreover have "board_kept key uuid (L, J, s) (L, J, s'')"
        unfolding board_kept_def
      proof (intro allI impI)
        fix k' :: tuple_key assume k': "k' \<noteq> key" "is_message k' \<longrightarrow> key_third k' \<noteq> uuid"
        then have "k' \<noteq> k" using v by auto
        then show "api_values (L, J, s'') k' = api_values (L, J, s) k'"
          using vals s'(3) k' by (simp only: board_kept_def) blast
      qed
      ultimately show ?thesis using s'(2) by (simp add: counter_inv_def)
    qed
  qed
qed

text \<open>What the sign-up of a process brings it.\<close>

lemma joined_starts_well:
  assumes J: "joining S A conf fresh path key lim n num uuid" and p: "p < length (sy_progs S)"
    and joins: "joins (sy_progs S ! p) (path, Body_Key key) (get_signup (Rep_lawful_codec A))
      \<lparr>ps_number = num p, ps_uuid = uuid\<rparr> sesT fin"
    and follows: "\<And>e T. follows (view_net (\<lambda>t. http_net A conf (fresh t)) (sy_sched S) p e T) sesT
      (ses (view_net (\<lambda>t. http_net A conf (fresh t)) (sy_sched S) p e T))"
  shows "joined.starts_well A conf fresh S p (joined_at S p) ses fin"
proof -
  have "signed_up S A n num uuid" using J by (simp add: joining_def)
  then obtain tx where answers: "answers_at S p (joined_at S p) = [Get_Ok (Some tx)]"
    and tx: "get_signup (Rep_lawful_codec A) tx = Some (Inr \<lparr>ps_number = num p, ps_uuid = uuid\<rparr>)"
    using p unfolding signed_up_def by blast
  show ?thesis
    unfolding joined.starts_well_def answers
  proof (intro allI impI)
    fix e T v x v'
    assume "ses (view_net (\<lambda>t. http_net A conf (fresh t)) (sy_sched S) p e T) v = Some (x, v')"
    with follows obtain tr where tr:
      "dialogue (view_net (\<lambda>t. http_net A conf (fresh t)) (sy_sched S) p e T) tr v v'" "replays sesT tr x"
      by (rule followsE)
    then show "\<exists>tr. dialogue (view_net (\<lambda>t. http_net A conf (fresh t)) (sy_sched S) p e T) tr v v' \<and>
        continues (sy_progs S ! p) [Get_Ok (Some tx)] tr \<and>
        (\<forall>a. x = Some a \<longrightarrow> outcome (sy_progs S ! p) ([Get_Ok (Some tx)] @ map snd tr) = Some (fin a))"
      using joins tx unfolding joins_def by auto
  qed
qed

text \<open>Any fair order of the requests leads all processes to their results.\<close>

lemma joined_session:
  assumes J: "joining S A conf fresh path key lim n num uuid" and script: "script_ok script"
    and joins: "\<And>p. p < length (sy_progs S) \<Longrightarrow>
      joins (sy_progs S ! p) (path, Body_Key key) (get_signup (Rep_lawful_codec A))
        \<lparr>ps_number = num p, ps_uuid = uuid\<rparr> (sesT p) (fin p)"
    and follows: "\<And>p e T. follows (view_net (\<lambda>t. http_net A conf (fresh t)) (sy_sched S) p e T) (sesT p)
      (ses p (view_net (\<lambda>t. http_net A conf (fresh t)) (sy_sched S) p e T))"
    and parts: "\<And>p. p < length (sy_progs S) \<Longrightarrow>
      joined.plays_part path key lim conf fresh A S n uuid script p (num p) (ses p) (res p)"
  shows "joined.session_system path key lim conf fresh A S n uuid script num (joined_at S)
    ses res fin"
proof -
  note fair = joiningD(1) [OF J] and num = joiningD(4) [OF J]
  have "is_message k" if "(k, v) \<in> messages_of n uuid script" for k v
    using proper_messages [OF script, of n uuid] that by (auto simp: joined.proper_def)
  then have "joined.settled path key lim conf fresh (messages_of n uuid script) (sy_start S)"
    using J by (auto simp: joined.settled_def joining_def dest: messages_third) (metis empty_iff messages_third)
  moreover have "signup_route path key lim \<and> q = (path, Body_Key key)"
    if "p < length (sy_progs S)" "s < joined_at S p" "sy_sched S s = p" "request_at S s = Some q" for p s q
  proof -
    have "first_turn S p \<le> s" using first_turn(2) [OF fair that(1,3)] .
    then have "s = first_turn S p" using that(2) by simp
    then show ?thesis
      using first_request [OF J that(1)] that(4) J by (auto simp: joining_def ready_def split: prod.splits)
  qed
  ultimately show ?thesis
    using J joined_starts_well [OF J _ joins follows] parts proper_messages [OF script] num script
    unfolding joined.session_system_def
    by (auto simp: joining_def script_ok_def)
qed

lemmas joined_system_ends = joined.system_ends [OF joined_session]

text \<open>And the server is ready for other sessions at any time.\<close>

lemma joined_world:
  assumes session: "joined.session_system path key lim conf fresh A S n uuid script num
      (joined_at S) ses res fin"
    and J: "joining S A conf fresh path key lim n num uuid" "sy_start S = (L, J, s)" and script: "script_ok script"
  shows "\<exists>s'. world_at S t = (L, J, s') \<and> api_ok (L, J, s') \<and> board_kept key uuid (L, J, s) (L, J, s')"
  using board_at [OF J script] joined.all_behave [OF session] by (fastforce simp: counter_inv_def)

end
