(* ===== verification/Process_Programs.thy ===== *)
theory Process_Programs
  imports Processes Sign_Run
begin

text \<open>
  The programs \<open>generate_key\<close> and \<open>sign\<close> as processes: their runs on the answers that they received
  follow their runs over any net. The proofs follow the structure of the programs.
\<close>

lemma assert_ok_eq:
  "assert_ok m = act_prog (and_then m (\<lambda>r w. ((case r of Inl _ \<Rightarrow> None | Inr _ \<Rightarrow> Some ()), w)))"
  by (auto simp: assert_ok_def act_prog_def and_then_def panic_def done_with_def fun_eq_iff
      split: prod.splits option.splits sum.splits)

lemma follows_assert_ok:
  "follows net (assert_ok (broadcast (tape_net net) me round data uuid))
     (assert_ok (broadcast net me round data uuid))"
  "follows net (assert_ok (sendp2p (tape_net net) me to round data uuid))
     (assert_ok (sendp2p net me to round data uuid))"
  by (simp_all add: assert_ok_eq broadcast_def sendp2p_def follows_request)

lemmas follows_intros =
  follows_ret follows_try follows_bind follows_assert_ok follows_polls

section \<open>Key generation\<close>

lemma follows_send_shares:
  "follows net (send_shares C G enc (tape_net net) me uuid ks ss j k is)
     (send_shares C G enc net me uuid ks ss j k is)"
  by (induction "is" arbitrary: j k) (auto intro!: follows_intros)

lemma follows_keygen_session:
  "follows net (keygen_session C P G J (tape_net net) n thr me uuid rnd)
     (keygen_session C P G J net n thr me uuid rnd)"
  unfolding keygen_session_def keygen_deal_def keygen_confirm_def Let_def case_prod_beta
  by (intro follows_intros follows_send_shares)

section \<open>Signing\<close>

lemma follows_send_mbs:
  "follows net (send_mbs enc (tape_net net) me uuid ms j is) (send_mbs enc net me uuid ms j is)"
  by (induction "is" arbitrary: j) (auto intro!: follows_intros)

lemma follows_exchange:
  "follows net (exchange enc dec (tape_net net) me thr round uuid own)
     (exchange enc dec net me thr round uuid own)"
  unfolding exchange_def by (intro follows_intros)

lemma follows_if: "follows net m m' \<Longrightarrow> follows net k k' \<Longrightarrow> follows net (if b then m else k) (if b then m' else k')"
  by simp

lemma follows_sign_session:
  "follows net (sign_session C P G J (tape_net net) thr me uuid rnd kf message)
     (sign_session C P G J net thr me uuid rnd kf message)"
  unfolding sign_session_def sign_setup_def sign_mta_def sign_nonce_def sign_phase5_def sign_commit_def
    sign_reveal_def Let_def case_prod_beta
  by (intro follows_intros follows_if follows_send_mbs follows_exchange)

end
