(* ===== verification/Keygen_Processes.thy ===== *)
theory Keygen_Processes
  imports Joining Process_Programs Keygen_Run_Correct
begin

text \<open>
  \<open>n\<close> programs \<open>generate_key\<close> at one server, from their start to their key files: nothing is assumed
  about the order of their requests but that every program gets its turn again and again.
\<close>

section \<open>The program as a process\<close>

text \<open>The net of a client whose answers are encoded by \<open>A\<close>.\<close>

definition client_net :: "lawful_codec \<Rightarrow> tape net" where
  "client_net A = \<lparr>post = tape_post, dec_signup = get_signup (Rep_lawful_codec A),
     dec_unit = get_unit (Rep_lawful_codec A), dec_entry = get_entry_text (Rep_lawful_codec A)\<rparr>"

lemma tape_net_client:
  "tape_net (view_net (\<lambda>t. http_net A conf (fresh t)) sched p e T) = client_net A"
  by (simp add: client_net_def tape_net_def view_net_def http_net_def server_net_def)

lemma tape_signup:
  assumes "dec t = Some r"
  shows "request_answer (client_net A) path body dec (Get_Ok (Some t) # rs, log) =
    (Some r, (rs, log @ [(path, body)]))"
  using assms by (simp add: request_answer_cases answer_of_def client_net_def)

lemma tape_signup_waits:
  "request_answer (client_net A) path body dec ([], log) =
    (None, ([], log @ [(path, body), (path, body)]))"
  by (simp add: request_answer_cases answer_of_def client_net_def)

text \<open>A program that starts with a sign-up, after a prefix that only depends on its surroundings.\<close>

lemma joinsI:
  fixes ses :: "(tape, 'a) prog" and path :: string and key :: tuple_key
  assumes wait: "\<And>log. m ([], log) = Some (None, ([], log @ [(path, Body_Key key), (path, Body_Key key)]))"
    and run: "\<And>tx rs log. dec tx = Some (Inr party) \<Longrightarrow>
      m (Get_Ok (Some tx) # rs, log) =
      bind_prog ses (\<lambda>a. try_prog (fin a)) (rs, log @ [(path, Body_Key key)])"
  shows "joins m (path, Body_Key key) dec party ses fin"
  unfolding joins_def
proof (intro conjI allI impI)
  show "next_request m [] = Some (path, Body_Key key)" by (simp add: next_request_def wait)
  fix tx tr x assume tx: "dec tx = Some (Inr party)" and ses: "replays ses tr x"
  have short: "next_request m (Get_Ok (Some tx) # map snd (take k tr)) = Some (fst (tr ! k))"
    if k: "k < length tr" for k
  proof -
    obtain log' where "ses (map snd (take k tr), [(path, Body_Key key)]) =
        Some (None, ([], [(path, Body_Key key)] @ map fst (take (Suc k) tr) @ log'))"
      using replaysD(2) [OF ses k] by blast
    then show ?thesis
      using k by (simp add: next_request_def run [OF tx] bind_prog_def nth_append min_def take_Suc_conv_app_nth)
  qed
  have whole: "ses (map snd tr, [(path, Body_Key key)]) = Some (x, ([], (path, Body_Key key) # map fst tr))"
    using replaysD(1) [OF ses, of "[]" "[(path, Body_Key key)]"] by simp
  show "continues m [Get_Ok (Some tx)] tr"
    using short whole
    by (auto simp: continues_def next_request_def run [OF tx] bind_prog_def try_prog_def split: option.split)
  fix a assume "x = Some a"
  then show "outcome m (Get_Ok (Some tx) # map snd tr) = Some (fin a)"
    using whole by (simp add: outcome_def run [OF tx] bind_prog_def try_prog_def)
qed

text \<open>What \<open>generate_key\<close> needs of its surroundings.\<close>

definition keygen_os_ok :: "(string \<Rightarrow> params option) \<Rightarrow> u32 \<Rightarrow> u32 \<Rightarrow> os \<Rightarrow> bool" where
  "keygen_os_ok parse_conf n thr sys \<longleftrightarrow>
     length (os_args sys) = 3 \<and> os_writable sys (os_args sys ! 2) \<and>
     (case config_file sys of None \<Rightarrow> False
      | Some data \<Rightarrow>
          (case parse_conf data of None \<Rightarrow> False
           | Some params \<Rightarrow>
               parse_u32 (pa_parties params) = Some n \<and> parse_u32 (pa_threshold params) = Some thr))"

lemma keygen_joins:
  assumes "keygen_os_ok parse_conf n thr sys"
  shows "joins (generate_key_main C P G J (client_net A) parse_conf sys rnd)
    (''signupkeygen'', Body_Key keygen_key) (get_signup (Rep_lawful_codec A)) party
    (keygen_session C P G J (client_net A) n thr (ps_number party) (ps_uuid party) rnd)
    (\<lambda>kf. Some (os_args sys ! 2, kf))"
proof -
  have main: "generate_key_main C P G J (client_net A) parse_conf sys rnd =
      bind_prog (act_prog (keygen_signup (client_net A))) (\<lambda>r.
        case r of Inl _ \<Rightarrow> try_prog None
        | Inr party_i_signup \<Rightarrow>
            bind_prog (keygen_session C P G J (client_net A) n thr (ps_number party_i_signup)
              (ps_uuid party_i_signup) rnd) (\<lambda>kf. try_prog (Some (os_args sys ! 2, kf))))"
    using assms
    by (auto simp: keygen_os_ok_def generate_key_main_def arg_panic_def write_file_def fun_eq_iff
        ret_def try_prog_def bind_prog_def split: option.splits sum.splits)
  have dec: "dec_signup (client_net A) = get_signup (Rep_lawful_codec A)" by (simp add: client_net_def)
  show ?thesis
    by (rule joinsI)
      (simp_all add: main bind_prog_def act_prog_def keygen_signup_def tape_signup tape_signup_waits dec)
qed

section \<open>All processes\<close>

text \<open>The programs with their surroundings and random draws, at a server whose net draws \<open>fresh t\<close> for
  the request at time \<open>t\<close>.\<close>

definition keygen_system ::
  "('fe::field, 'ge::ab_group_add, 'dlp, 'egp, 'vss) curv \<Rightarrow> ('ek, 'dk, 'ckp) paillier \<Rightarrow> gcm_lib \<Rightarrow>
   ('ge, 'ek, 'ckp, 'vss, 'dlp) keygen_json \<Rightarrow> (string \<Rightarrow> params option) \<Rightarrow> lawful_codec \<Rightarrow>
   string option \<Rightarrow> (nat \<Rightarrow> string) \<Rightarrow> (os \<times> 'fe keygen_rnd) list \<Rightarrow> (nat \<Rightarrow> nat) \<Rightarrow>
   ('d, 'h) api_world \<Rightarrow>
   (('d, 'h) api_world, string \<times> ('fe, 'ge, 'ek, 'dk, 'vss) key_file) system" where
  "keygen_system C P G J parse_conf A conf fresh parties sched w =
     \<lparr>sy_progs = map (\<lambda>(sys, rnd). generate_key_main C P G J (client_net A) parse_conf sys rnd) parties,
      sy_sched = sched, sy_net = (\<lambda>t. http_net A conf (fresh t)), sy_start = w\<rparr>"

lemma keygen_system_simps [simp]:
  "length (sy_progs (keygen_system C P G J parse_conf A conf fresh parties sched w)) = length parties"
  "p < length parties \<Longrightarrow> sy_progs (keygen_system C P G J parse_conf A conf fresh parties sched w) ! p =
     generate_key_main C P G J (client_net A) parse_conf (fst (parties ! p)) (snd (parties ! p))"
  "sy_sched (keygen_system C P G J parse_conf A conf fresh parties sched w) = sched"
  "sy_net (keygen_system C P G J parse_conf A conf fresh parties sched w) = (\<lambda>t. http_net A conf (fresh t))"
  "sy_start (keygen_system C P G J parse_conf A conf fresh parties sched w) = w"
  by (simp_all add: keygen_system_def split: prod.split)

lemma u32_range_wherever:
  assumes "num ` {..<N} = set (u32_range n)" "i \<in> set (u32_range n)"
  obtains p where "p < N" "num p = i"
  using assms by (metis imageE lessThan_iff)

lemma keygen_system_session:
  fixes C :: "('fe::field, 'ge::ab_group_add, 'dlp, 'egp, 'vss) curv"
    and parties :: "(os \<times> 'fe keygen_rnd) list"
  assumes S_def: "S = keygen_system C P G J parse_conf A conf fresh parties sched w"
    and laws: "curve_laws C" "proof_laws C" "vss_laws C (unat thr) (unat n)" "paillier_laws P"
      "bytes_laws G" "keygen_json_laws J"
    and joining: "joining S A conf fresh ''signupkeygen'' keygen_key keygen_limit n num uuid"
    and oss: "\<forall>(sys, rnd)\<in>set parties. keygen_os_ok parse_conf n thr sys"
    and pairs: "\<forall>p < length parties. \<forall>q < length parties. p \<noteq> q \<longrightarrow>
      pair_ok C G (smul C (generator C) (kr_u (snd (parties ! p)))) (smul C (generator C) (kr_u (snd (parties ! q))))"
    and draws: "\<forall>p < length parties. R (num p) = snd (parties ! p)"
  shows "joined.session_system ''signupkeygen'' keygen_key keygen_limit conf fresh A S n uuid
    (keygen_script C P G J thr n R) num (joined_at S)
    (\<lambda>p net. keygen_session C P G J net n thr (num p) uuid (R (num p)))
    (\<lambda>p. honest_key_file C P thr n R (num p))
    (\<lambda>p kf. Some (os_args (fst (parties ! p)) ! 2, kf))"
proof -
  let ?s = "keygen_script C P G J thr n R"
  have script: "script_ok ?s" by (rule keygen_script_ok [OF laws(6)])
  note fair = joiningD(1) [OF joining] and n = joiningD(2,3) [OF joining]
  have len [simp]: "length (sy_progs S) = length parties" by (simp add: S_def)
  have nums: "num ` {..<length parties} = set (u32_range n)"
    using joiningD(4) [OF joining] by simp
  have me: "num p \<in> set (u32_range n)" if "p < length parties" for p
    using nums that by auto
  have R: "R (num p) = snd (parties ! p)" if "p < length parties" for p
    using draws that by simp
  have joins: "joins (sy_progs S ! p) (''signupkeygen'', Body_Key keygen_key) (get_signup (Rep_lawful_codec A))
      \<lparr>ps_number = num p, ps_uuid = uuid\<rparr>
      (keygen_session C P G J (client_net A) n thr (num p) uuid (R (num p)))
      (\<lambda>kf. Some (os_args (fst (parties ! p)) ! 2, kf))" if "p < length (sy_progs S)" for p
  proof -
    have p: "p < length parties" using that by simp
    then have "(fst (parties ! p), snd (parties ! p)) \<in> set parties" by simp
    with oss have "keygen_os_ok parse_conf n thr (fst (parties ! p))" by blast
    from keygen_joins [OF this, of C P G J A _ "\<lparr>ps_number = num p, ps_uuid = uuid\<rparr>"]
    show ?thesis using p by (simp add: S_def R [OF p, unfolded S_def])
  qed
  have pair: "pair_ok C G (honest_point C R (num p)) (honest_point C R i)"
    if p: "p < length parties" and i: "i \<in> set (others (num p) n)" for p i
  proof -
    obtain q where "q < length parties" "num q = i"
      using i nums by (auto elim: u32_range_wherever [where num = num])
    moreover from this i have "p \<noteq> q" by auto
    ultimately show ?thesis using pairs p R by (auto simp: honest_point_def)
  qed
  have part: "joined.plays_part ''signupkeygen'' keygen_key keygen_limit conf fresh A S n uuid ?s p
      (num p)
      (\<lambda>net. keygen_session C P G J net n thr (num p) uuid (R (num p)))
      (honest_key_file C P thr n R (num p))" if "p < length (sy_progs S)" for p
  proof (rule joined.plays_partI)
    have p: "p < length parties" using that by simp
    show "num p \<in> set (u32_range n)" by (rule me [OF p])
    show "distinct (map fst ?s)" using script by (simp add: script_ok_def)
    fix e T
    assume "session_board.plays (\<lambda>k x. (k, x) \<in> set (written n uuid ?s (num p) (length ?s)))
        (joined.expects n uuid ?s (num p) e) n uuid ?s (num p)"
    from session_board.honest_session_runs [OF joined.view_session_board laws n(2) me [OF p] _ this] pair [OF p]
    show "runs (joined.waits n uuid ?s (num p) e)
       (session_board.after (joined.viewed ''signupkeygen'' keygen_key keygen_limit conf fresh n uuid ?s (num p) (sy_sched S) p e)
         n uuid ?s (num p) 0)
       (keygen_session C P G J (view_net (\<lambda>t. http_net A conf (fresh t)) (sy_sched S) p e T) n thr
         (num p) uuid (R (num p)))
       (honest_key_file C P thr n R (num p))
       (session_board.after (joined.viewed ''signupkeygen'' keygen_key keygen_limit conf fresh n uuid ?s (num p) (sy_sched S) p e)
         n uuid ?s (num p) (length ?s))"
      by simp
  qed
  have "follows (view_net (\<lambda>t. http_net A conf (fresh t)) (sy_sched S) p e T)
      (keygen_session C P G J (client_net A) n thr (num p) uuid (R (num p)))
      (keygen_session C P G J (view_net (\<lambda>t. http_net A conf (fresh t)) (sy_sched S) p e T) n thr
        (num p) uuid (R (num p)))" for p e T
    using follows_keygen_session [of "view_net (\<lambda>t. http_net A conf (fresh t)) (sy_sched S) p e T"]
    by (simp only: tape_net_client)
  from joined_session [OF joining script joins this part] show ?thesis .
qed

text \<open>The hypotheses: the laws of the libraries and codecs; a server that is about to start, under whose
  keys nothing is stored; and programs with the same configuration, of which every two can derive a
  symmetric key from their draws.\<close>

definition keygen_laws ::
  "('fe::field, 'ge::ab_group_add, 'dlp, 'egp, 'vss) curv \<Rightarrow> ('ek, 'dk, 'ckp) paillier \<Rightarrow> gcm_lib \<Rightarrow>
   ('ge, 'ek, 'ckp, 'vss, 'dlp) keygen_json \<Rightarrow> u32 \<Rightarrow> u32 \<Rightarrow> bool" where
  "keygen_laws C P G J n thr \<longleftrightarrow>
     curve_laws C \<and> proof_laws C \<and> vss_laws C (unat thr) (unat n) \<and> paillier_laws P \<and>
     bytes_laws G \<and> keygen_json_laws J"

definition new_server ::
  "('d, 'h) api_world \<Rightarrow> string option \<Rightarrow> (nat \<Rightarrow> string) \<Rightarrow> u32 \<Rightarrow> string \<Rightarrow> string \<Rightarrow> bool" where
  "new_server w conf fresh n uk us \<longleftrightarrow>
     api_ok w \<and> utf8_valid uk \<and> utf8_valid us \<and> (\<forall>t. utf8_valid (fresh t)) \<and>
     (\<forall>k. api_values w k = {}) \<and> (case w of (L, K, s) \<Rightarrow> keygen_limit K conf = Some n)"

definition keygen_parties ::
  "('fe::field, 'ge::ab_group_add, 'dlp, 'egp, 'vss) curv \<Rightarrow> gcm_lib \<Rightarrow> (string \<Rightarrow> params option) \<Rightarrow>
   u32 \<Rightarrow> u32 \<Rightarrow> (os \<times> 'fe keygen_rnd) list \<Rightarrow> bool" where
  "keygen_parties C G parse_conf n thr parties \<longleftrightarrow>
     length parties = unat n \<and> n < - 1 \<and> (\<forall>(sys, rnd)\<in>set parties. keygen_os_ok parse_conf n thr sys) \<and>
     (\<forall>p < length parties. \<forall>q < length parties. p \<noteq> q \<longrightarrow>
        pair_ok C G (smul C (generator C) (kr_u (snd (parties ! p))))
          (smul C (generator C) (kr_u (snd (parties ! q)))))"

text \<open>The state in which the server has been started.\<close>

definition started :: "('d, 'h) api_world \<Rightarrow> string \<Rightarrow> string \<Rightarrow> ('d, 'h) api_world" where
  "started w uk us = (case w of (L, K, s) \<Rightarrow> (L, K, snd (server_init L K uk us s)))"

lemma startedE:
  assumes "new_server (L, K, s) conf fresh n uk us"
  obtains s' where "started (L, K, s) uk us = (L, K, s')" "api_ok (L, K, s')"
    "counter_ok L K s' keygen_key" "counter_ok L K s' sign_key"
    "\<forall>k. is_message k \<longrightarrow> api_values (L, K, s') k = {}"
    "counter_entries L K s' keygen_key = {\<lparr>ps_number = 0, ps_uuid = uk\<rparr>}"
    "counter_entries L K s' sign_key = {\<lparr>ps_number = 0, ps_uuid = us\<rparr>}"
proof -
  have server: "api_ok (L, K, s)" "utf8_valid uk" "utf8_valid us" "\<And>k. api_values (L, K, s) k = {}"
    using assms by (simp_all add: new_server_def)
  obtain s' where s': "server_init L K uk us s = (Some (), s')" "api_ok (L, K, s')"
    "counter_ok L K s' keygen_key" "counter_ok L K s' sign_key"
    "counter_entries L K s' keygen_key = {\<lparr>ps_number = 0, ps_uuid = uk\<rparr>}"
    "counter_entries L K s' sign_key = {\<lparr>ps_number = 0, ps_uuid = us\<rparr>}"
    "\<forall>k. k \<noteq> keygen_key \<longrightarrow> k \<noteq> sign_key \<longrightarrow> api_values (L, K, s') k = api_values (L, K, s) k"
    by (rule signup_start [OF server(1-3) server(4) server(4)])
  have "\<not> is_message keygen_key" "\<not> is_message sign_key"
    by (simp_all add: is_message_def keygen_key_def sign_key_def)
  then have "\<forall>k. is_message k \<longrightarrow> api_values (L, K, s') k = {}"
    using s'(7) server(4) by (metis (no_types))
  then show thesis using s' by (intro that) (simp_all add: started_def)
qed

lemma keygen_joining:
  assumes server: "new_server (L, K, s) conf fresh n uk us"
    and parties: "keygen_parties C G parse_conf n thr parties"
    and S_def: "S = keygen_system C P G J parse_conf A conf fresh parties sched (started (L, K, s) uk us)"
    and fair: "fair_turns S" and signed_up: "signed_up S A n num uuid"
  shows "joining S A conf fresh ''signupkeygen'' keygen_key keygen_limit n num uuid"
proof -
  obtain s' where s': "started (L, K, s) uk us = (L, K, s')" "api_ok (L, K, s')"
    "counter_ok L K s' keygen_key" "\<forall>k. is_message k \<longrightarrow> api_values (L, K, s') k = {}"
    by (rule startedE [OF server])
  show ?thesis
  proof (rule joiningI [OF fair signed_up])
    fix p assume "p < length (sy_progs S)"
    then have p: "p < length parties" by (simp add: S_def)
    then have "(fst (parties ! p), snd (parties ! p)) \<in> set parties" by simp
    with parties have "keygen_os_ok parse_conf n thr (fst (parties ! p))"
      unfolding keygen_parties_def by blast
    from keygen_joins [OF this, of C P G J A "snd (parties ! p)" undefined] p
    show "next_request (sy_progs S ! p) [] = Some (''signupkeygen'', Body_Key keygen_key)"
      by (simp add: S_def joins_def)
  next
    show "\<forall>k. is_message k \<longrightarrow> key_third k = uuid \<longrightarrow> api_values (L, K, s') k = {}" using s'(4) by blast
  qed (use server parties s'(1-3) in \<open>simp_all add: S_def signup_route_def new_server_def keygen_parties_def\<close>)
qed

lemma keygen_runs:
  assumes laws: "keygen_laws C P G J n thr"
    and server: "new_server (L, K, s) conf fresh n uk us"
    and parties: "keygen_parties C G parse_conf n thr parties"
    and S_def: "S = keygen_system C P G J parse_conf A conf fresh parties sched (started (L, K, s) uk us)"
    and fair: "fair_turns S" and signed_up: "signed_up S A n num uuid"
    and draws: "\<forall>p < length parties. R (num p) = snd (parties ! p)"
  shows "joined.session_system ''signupkeygen'' keygen_key keygen_limit conf fresh A S n uuid
    (keygen_script C P G J thr n R) num (joined_at S)
    (\<lambda>p net. keygen_session C P G J net n thr (num p) uuid (R (num p)))
    (\<lambda>p. honest_key_file C P thr n R (num p))
    (\<lambda>p kf. Some (os_args (fst (parties ! p)) ! 2, kf))"
  using laws parties
  by (intro keygen_system_session [OF S_def _ _ _ _ _ _ keygen_joining [OF server parties S_def fair signed_up] _ _ draws])
    (simp_all add: keygen_laws_def keygen_parties_def)

lemma keygen_secret:
  assumes S_def: "S = keygen_system C P G J parse_conf A conf fresh parties sched w"
    and parties: "keygen_parties C G parse_conf n thr parties" and signed_up: "signed_up S A n num uuid"
    and draws: "\<forall>p < length parties. R (num p) = snd (parties ! p)"
  shows "(\<Sum>i\<leftarrow>u32_range n. kr_u (R i)) = (\<Sum>(sys, rnd)\<leftarrow>parties. kr_u rnd)"
proof -
  have num: "num ` {..<length parties} = set (u32_range n)"
    using signed_up by (simp add: signed_up_def S_def)
  have n: "length parties = unat n" "n < - 1" using parties by (simp_all add: keygen_parties_def)
  have "(\<Sum>i\<leftarrow>u32_range n. kr_u (R i)) = (\<Sum>p\<leftarrow>[0..<length parties]. kr_u (snd (parties ! p)))"
    using sum_by_number [OF num n, of "\<lambda>i. kr_u (R i)"] draws by simp
  also have "\<dots> = (\<Sum>(sys, rnd)\<leftarrow>parties. kr_u rnd)"
    by (rule arg_cong [where f = sum_list], rule nth_equalityI) (simp_all add: case_prod_beta)
  finally show ?thesis .
qed

lemma keygen_system_ends:
  assumes "keygen_laws C P G J n thr" "new_server (L, K, s) conf fresh n uk us"
    and "keygen_parties C G parse_conf n thr parties"
    and S_def: "S = keygen_system C P G J parse_conf A conf fresh parties sched (started (L, K, s) uk us)"
    and "fair_turns S" "signed_up S A n num uuid" "\<forall>p < length parties. R (num p) = snd (parties ! p)"
  shows "\<exists>t. \<forall>t'\<ge>t. \<forall>p < length parties. result_at S p t' =
      Some (Some (os_args (fst (parties ! p)) ! 2, honest_key_file C P thr n R (num p)))"
proof -
  have len: "length (sy_progs S) = length parties" using S_def by simp
  from joined.system_ends [OF keygen_runs [OF assms], unfolded len] show ?thesis .
qed

lemma keygen_ended:
  assumes "keygen_laws C P G J n thr" "new_server (L, K, s) conf fresh n uk us"
    and "keygen_parties C G parse_conf n thr parties"
    and S_def: "S = keygen_system C P G J parse_conf A conf fresh parties sched (started (L, K, s) uk us)"
    and "fair_turns S" "signed_up S A n num uuid" "\<forall>p < length parties. R (num p) = snd (parties ! p)"
    and p: "p < length parties" and ended: "result_at S p t = Some x"
  shows "x = Some (os_args (fst (parties ! p)) ! 2, honest_key_file C P thr n R (num p))"
proof -
  have len: "p < length (sy_progs S)" using S_def p by simp
  obtain t0 where "\<forall>t'\<ge>t0. \<forall>p < length parties. result_at S p t' =
      Some (Some (os_args (fst (parties ! p)) ! 2, honest_key_file C P thr n R (num p)))"
    using keygen_system_ends [OF assms(1-7)] by blast
  then have "result_at S p (max t t0) =
      Some (Some (os_args (fst (parties ! p)) ! 2, honest_key_file C P thr n R (num p)))"
    using p by simp
  moreover have "result_at S p (max t t0) = Some x" by (rule result_stays [OF len ended]) simp
  ultimately show ?thesis by simp
qed

text \<open>C1: \<open>n\<close> programs \<open>generate_key\<close> are started with the same configuration at a freshly started server,
  and make their requests in any order, as long as each of them gets its turn again and again, and
  the DHT delivers its values in any order. If their sign-ups have given them the different numbers
  \<open>1 \<dots> n\<close> and one identifier, then all of them end, without a panic: each writes to the path of its
  command line the key file of the party that its sign-up made it; the file holds its own keys, all
  public commitments and Paillier keys in the order of the numbers, the sum of the shares that were
  dealt to it, and the group key of the joint secret, the sum of the random draws of all
  programs.\<close>

theorem keygen_processes:
  assumes "keygen_laws C P G J n thr" "new_server (L, K, s) conf fresh n uk us"
    and "keygen_parties C G parse_conf n thr parties"
    and "S = keygen_system C P G J parse_conf A conf fresh parties sched (started (L, K, s) uk us)"
    and "fair_turns S" "signed_up S A n num uuid" "\<forall>p < length parties. R (num p) = snd (parties ! p)"
  shows "(\<exists>t. \<forall>t'\<ge>t. \<forall>p < length parties. result_at S p t' =
      Some (Some (os_args (fst (parties ! p)) ! 2, honest_key_file C P thr n R (num p)))) \<and>
    (\<forall>i. kf_y_sum (honest_key_file C P thr n R i) =
       smul C (generator C) (\<Sum>(sys, rnd)\<leftarrow>parties. kr_u rnd))"
proof -
  have "kf_y_sum (honest_key_file C P thr n R i) =
      smul C (generator C) (\<Sum>(sys, rnd)\<leftarrow>parties. kr_u rnd)" for i
    using keygen_secret [OF assms(4,3,6,7)] by (simp add: honest_key_file_def Let_def)
  then show ?thesis using keygen_system_ends [OF assms] by blast
qed

end
