(* ===== verification/Sign_Processes.thy ===== *)
theory Sign_Processes
  imports Keygen_Processes Sign_Run_Correct
begin

text \<open>
  \<open>t + 1\<close> programs \<open>sign\<close> at one server, from their start to their signature files, and the whole
  life of a key: \<open>n\<close> programs \<open>generate_key\<close> at a freshly started server, and then \<open>t + 1\<close>
  programs \<open>sign\<close> with the key files that they wrote.
\<close>

section \<open>The program as a process\<close>

text \<open>What \<open>sign\<close> needs of its surroundings: the key file \<open>kf\<close>, the message, the configuration.\<close>

definition sign_os_ok ::
  "(string \<Rightarrow> string option) \<Rightarrow> (string \<Rightarrow> ('fe, 'ge, 'ek, 'dk, 'vss) key_file option) \<Rightarrow>
   (string \<Rightarrow> params option) \<Rightarrow> u32 \<Rightarrow> string \<Rightarrow> ('fe, 'ge, 'ek, 'dk, 'vss) key_file \<Rightarrow> os \<Rightarrow> bool" where
  "sign_os_ok hex parse_keys parse_conf thr message kf sys \<longleftrightarrow>
     length (os_args sys) = 4 \<and> os_writable sys ''signature'' \<and>
     message_bytes hex (os_args sys ! 3) = message \<and>
     (case os_files sys (os_args sys ! 2) of None \<Rightarrow> False | Some data \<Rightarrow> parse_keys data = Some kf) \<and>
     (case config_file sys of None \<Rightarrow> False
      | Some data \<Rightarrow>
          (case parse_conf data of None \<Rightarrow> False
           | Some params \<Rightarrow> parse_u32 (pa_threshold params) = Some thr))"

lemma sign_joins:
  assumes "sign_os_ok hex parse_keys parse_conf thr message kf sys"
  shows "joins (sign_main C P G J (client_net A) hex parse_keys parse_conf element hex16 sys rnd)
    (''signupsign'', Body_Key sign_key) (get_signup (Rep_lawful_codec A)) party
    (sign_session C P G J (client_net A) thr (ps_number party) (ps_uuid party) rnd kf message)
    (\<lambda>sig. Some (''signature'', signature_tuple G element hex16 sig))"
proof -
  have main: "sign_main C P G J (client_net A) hex parse_keys parse_conf element hex16 sys rnd =
      bind_prog (act_prog (sign_signup (client_net A))) (\<lambda>r.
        case r of Inl _ \<Rightarrow> try_prog None
        | Inr party_i_signup \<Rightarrow>
            bind_prog (sign_session C P G J (client_net A) thr (ps_number party_i_signup)
              (ps_uuid party_i_signup) rnd kf message)
              (\<lambda>sig. try_prog (Some (''signature'', signature_tuple G element hex16 sig))))"
    using assms
    by (auto simp: sign_os_ok_def sign_main_def arg_panic_def write_file_def fun_eq_iff Let_def
        ret_def try_prog_def bind_prog_def split: option.splits sum.splits)
  have dec: "dec_signup (client_net A) = get_signup (Rep_lawful_codec A)" by (simp add: client_net_def)
  show ?thesis
    by (rule joinsI)
      (simp_all add: main bind_prog_def act_prog_def sign_signup_def tape_signup tape_signup_waits dec)
qed

section \<open>All processes\<close>

definition sign_system ::
  "('fe::field, 'ge::ab_group_add, 'dlp, 'egp, 'vss) curv \<Rightarrow> ('ek, 'dk, 'ckp) paillier \<Rightarrow> gcm_lib \<Rightarrow>
   ('fe, 'ge, 'dlp, 'egp) sign_json \<Rightarrow> (string \<Rightarrow> string option) \<Rightarrow>
   (string \<Rightarrow> ('fe, 'ge, 'ek, 'dk, 'vss) key_file option) \<Rightarrow> (string \<Rightarrow> params option) \<Rightarrow>
   ('fe \<Rightarrow> string) \<Rightarrow> (int \<Rightarrow> string) \<Rightarrow> lawful_codec \<Rightarrow> string option \<Rightarrow> (nat \<Rightarrow> string) \<Rightarrow>
   (os \<times> 'fe sign_rnd) list \<Rightarrow> (nat \<Rightarrow> nat) \<Rightarrow> ('d, 'h) api_world \<Rightarrow>
   (('d, 'h) api_world, string \<times> string \<times> string \<times> string \<times> string) system" where
  "sign_system C P G J hex parse_keys parse_conf element hex16 A conf fresh signers sched w =
     \<lparr>sy_progs = map (\<lambda>(sys, rnd). sign_main C P G J (client_net A) hex parse_keys parse_conf element
        hex16 sys rnd) signers,
      sy_sched = sched, sy_net = (\<lambda>t. http_net A conf (fresh t)), sy_start = w\<rparr>"

lemma sign_system_simps [simp]:
  "length (sy_progs (sign_system C P G J hex pk pc el h16 A conf fresh signers sched w)) = length signers"
  "p < length signers \<Longrightarrow> sy_progs (sign_system C P G J hex pk pc el h16 A conf fresh signers sched w) ! p =
     sign_main C P G J (client_net A) hex pk pc el h16 (fst (signers ! p)) (snd (signers ! p))"
  "sy_sched (sign_system C P G J hex pk pc el h16 A conf fresh signers sched w) = sched"
  "sy_net (sign_system C P G J hex pk pc el h16 A conf fresh signers sched w) = (\<lambda>t. http_net A conf (fresh t))"
  "sy_start (sign_system C P G J hex pk pc el h16 A conf fresh signers sched w) = w"
  by (simp_all add: sign_system_def split: prod.split)

lemma sign_system_session:
  fixes C :: "('fe::field, 'ge::ab_group_add, 'dlp, 'egp, 'vss) curv"
    and signers :: "(os \<times> 'fe sign_rnd) list" and X :: "'fe signing"
  assumes S_def: "S = sign_system C P G J hex parse_keys parse_conf element hex16 A conf fresh signers sched w"
    and laws: "curve_laws C" "proof_laws C" "vss_laws C (unat (sg_thr X)) (unat (sg_parties X))"
      "paillier_laws P" "sign_json_laws J"
    and X: "signers_ok X" "no_wrap C P X" "good_draws X"
    and r: "x_scalar C (sg_R C P X) = Some r" "fe_from C (message_bn G message) + r * sg_x X \<noteq> 0"
      "sg_message X = message_bn G message"
    and joining: "joining S A conf fresh ''signupsign'' sign_key sign_limit (sg_count X) num uuid"
    and oss: "\<forall>p < length signers.
      sign_os_ok hex parse_keys parse_conf (sg_thr X) message (sg_file C P X (num p)) (fst (signers ! p))"
    and draws: "\<forall>p < length signers. sg_draws X (num p) = snd (signers ! p)"
  shows "joined.session_system ''signupsign'' sign_key sign_limit conf fresh A S (sg_count X) uuid
    (sign_script C P J X r) num (joined_at S)
    (\<lambda>p net. sign_session C P G J net (sg_thr X) (num p) uuid (sg_draws X (num p))
       (sg_file C P X (num p)) message)
    (\<lambda>_. sg_signature C P X r)
    (\<lambda>_ sig. Some (''signature'', signature_tuple G element hex16 sig))"
proof -
  let ?s = "sign_script C P J X r" and ?n = "sg_count X"
  let ?ses = "\<lambda>p. sign_session C P G J (client_net A) (sg_thr X) (num p) uuid
    (sg_draws X (num p)) (sg_file C P X (num p)) message"
  have script: "script_ok ?s" by (rule sign_script_ok [OF laws(5)])
  note fair = joiningD(1) [OF joining] and n = joiningD(2,3) [OF joining]
  have len [simp]: "length (sy_progs S) = length signers" by (simp add: S_def)
  have me: "num p \<in> set (u32_range ?n)" if "p < length signers" for p
    using joiningD(4) [OF joining] that by auto
  have joins: "joins (sy_progs S ! p) (''signupsign'', Body_Key sign_key) (get_signup (Rep_lawful_codec A))
      \<lparr>ps_number = num p, ps_uuid = uuid\<rparr> (?ses p)
      (\<lambda>sig. Some (''signature'', signature_tuple G element hex16 sig))" if "p < length (sy_progs S)" for p
  proof -
    have p: "p < length signers" using that by simp
    from sign_joins [OF oss [rule_format, OF p], of C P G J A element hex16 _
        "\<lparr>ps_number = num p, ps_uuid = uuid\<rparr>"]
    show ?thesis using p draws by (simp add: S_def)
  qed
  have part: "joined.plays_part ''signupsign'' sign_key sign_limit conf fresh A S ?n uuid ?s p
      (num p)
      (\<lambda>net. sign_session C P G J net (sg_thr X) (num p) uuid
        (sg_draws X (num p)) (sg_file C P X (num p)) message)
      (sg_signature C P X r)" if "p < length (sy_progs S)" for p
  proof (rule joined.plays_partI)
    have p: "p < length signers" using that by simp
    show "num p \<in> set (u32_range ?n)" by (rule me [OF p])
    show "distinct (map fst ?s)" using script by (simp add: script_ok_def)
    fix e T
    assume "session_board.plays (\<lambda>k x. (k, x) \<in> set (written ?n uuid ?s (num p) (length ?s)))
        (joined.expects ?n uuid ?s (num p) e) ?n uuid ?s (num p)"
    note plays = this
    show "runs (joined.waits ?n uuid ?s (num p) e)
       (session_board.after (joined.viewed ''signupsign'' sign_key sign_limit conf fresh ?n uuid ?s (num p) (sy_sched S) p e)
         ?n uuid ?s (num p) 0)
       (sign_session C P G J (view_net (\<lambda>t. http_net A conf (fresh t)) (sy_sched S) p e T) (sg_thr X)
         (num p) uuid (sg_draws X (num p)) (sg_file C P X (num p)) message)
       (sg_signature C P X r)
       (session_board.after (joined.viewed ''signupsign'' sign_key sign_limit conf fresh ?n uuid ?s (num p) (sy_sched S) p e)
         ?n uuid ?s (num p) (length ?s))"
      unfolding sign_script_nth(1)
      by (rule session_board.runs_sign_session [OF joined.view_session_board laws X me [OF p] r plays])
  qed
  have "follows (view_net (\<lambda>t. http_net A conf (fresh t)) (sy_sched S) p e T) (?ses p)
      (sign_session C P G J (view_net (\<lambda>t. http_net A conf (fresh t)) (sy_sched S) p e T) (sg_thr X)
        (num p) uuid (sg_draws X (num p)) (sg_file C P X (num p)) message)"
    for p e T
    using follows_sign_session [of "view_net (\<lambda>t. http_net A conf (fresh t)) (sy_sched S) p e T"]
    by (simp only: tape_net_client)
  from joined_session [OF joining script joins this part] show ?thesis .
qed

lemma sign_joining:
  assumes S_def: "S = sign_system C P G J hex parse_keys parse_conf element hex16 A conf fresh signers sched
      (L, K, s)"
    and server: "api_ok (L, K, s)" "sign_limit K conf = Some l" "\<forall>t. utf8_valid (fresh t)"
      "counter_ok L K s sign_key" "\<forall>k. is_message k \<longrightarrow> key_third k = uuid \<longrightarrow> api_values (L, K, s) k = {}"
    and n: "length signers = unat n" "n < - 1"
    and oss: "\<forall>p < length signers. sign_os_ok hex parse_keys parse_conf thr message (kf p) (fst (signers ! p))"
    and fair: "fair_turns S" and signed_up: "signed_up S A n num uuid"
  shows "joining S A conf fresh ''signupsign'' sign_key sign_limit n num uuid"
proof (rule joiningI [OF fair signed_up])
  fix p assume "p < length (sy_progs S)"
  then have p: "p < length signers" by (simp add: S_def)
  from sign_joins [OF oss [rule_format, OF p], of C P G J A element hex16 "snd (signers ! p)" undefined] p
  show "next_request (sy_progs S ! p) [] = Some (''signupsign'', Body_Key sign_key)"
    by (simp add: S_def joins_def)
next
  show "\<forall>k. is_message k \<longrightarrow> key_third k = uuid \<longrightarrow> api_values (L, K, s) k = {}" by (rule server(5))
qed (use n server(1-4) in \<open>simp_all add: S_def signup_route_def\<close>)

lemma sign_system_ends:
  fixes C :: "('fe::field, 'ge::ab_group_add, 'dlp, 'egp, 'vss) curv"
    and signers :: "(os \<times> 'fe sign_rnd) list" and X :: "'fe signing"
  assumes laws: "curve_laws C" "proof_laws C" "vss_laws C (unat (sg_thr X)) (unat (sg_parties X))"
      "paillier_laws P" "sign_json_laws J"
    and X: "signers_ok X" "no_wrap C P X" "good_draws X"
    and r: "x_scalar C (sg_R C P X) = Some r" "fe_from C (message_bn G message) + r * sg_x X \<noteq> 0"
      "sg_message X = message_bn G message"
    and server: "api_ok (L, K, s)" "sign_limit K conf = Some (sg_count X)" "\<forall>t. utf8_valid (fresh t)"
      "counter_ok L K s sign_key" "\<forall>k. is_message k \<longrightarrow> key_third k = uuid \<longrightarrow> api_values (L, K, s) k = {}"
    and S_def: "S = sign_system C P G J hex parse_keys parse_conf element hex16 A conf fresh signers sched
      (L, K, s)"
    and n: "length signers = unat (sg_count X)"
    and fair: "fair_turns S" and signed_up: "signed_up S A (sg_count X) num uuid"
    and oss: "\<forall>p < length signers.
      sign_os_ok hex parse_keys parse_conf (sg_thr X) message (sg_file C P X (num p)) (fst (signers ! p))"
    and draws: "\<forall>p < length signers. sg_draws X (num p) = snd (signers ! p)"
  shows "(\<exists>t. \<forall>t'\<ge>t. \<forall>p < length signers. result_at S p t' =
      Some (Some (''signature'', signature_tuple G element hex16 (sg_signature C P X r)))) \<and>
    verify C (sg_signature C P X r) (sg_y C X) (message_bn G message) = Some (Inr ())"
proof
  have "sg_count X < - 1" using signers_okD(1) [OF X(1)] by simp
  note joining = sign_joining [OF S_def server n this oss fair signed_up]
  have len: "length (sy_progs S) = length signers" using S_def by simp
  from joined.system_ends [OF sign_system_session [OF S_def laws X r joining oss draws], unfolded len]
  show "\<exists>t. \<forall>t'\<ge>t. \<forall>p < length signers. result_at S p t' =
      Some (Some (''signature'', signature_tuple G element hex16 (sg_signature C P X r)))" .
  have "verify C (sg_signature C P X r) (sg_y C X) (sg_message X) = Some (Inr ())"
    using r(2,3) by (intro sg_check(2) [OF laws(1,2) X(1,3) laws(3) r(1)]) simp
  then show "verify C (sg_signature C P X r) (sg_y C X) (message_bn G message) = Some (Inr ())"
    using r(3) by simp
qed

text \<open>C2: \<open>t + 1\<close> programs \<open>sign\<close> are started with the same configuration and message, each with the
  key file of another party of an honest key generation, at a server whose sign counter can be read,
  and make their requests in any order, as long as each of them gets its turn again and again, and
  the DHT delivers its values in any order. If their sign-ups have given them the different numbers
  \<open>1 \<dots> t + 1\<close> and one identifier that was not used before, then all of them end, without a panic,
  and write one and the same signature, which is a valid ECDSA signature of the message under the
  group key. (No exchange may wrap around its Paillier modulus, and the joint draws must not be zero;
  the nonce point has an abscissa \<open>r\<close>, and \<open>m + r * x\<close> is not zero.)\<close>

theorem sign_processes:
  fixes C :: "('fe::field, 'ge::ab_group_add, 'dlp, 'egp, 'vss) curv" and X :: "'fe signing"
  assumes "curve_laws C" "proof_laws C" "vss_laws C (unat (sg_thr X)) (unat (sg_parties X))"
      "paillier_laws P" "sign_json_laws J"
    and "signers_ok X" "no_wrap C P X" "good_draws X"
    and "x_scalar C (sg_R C P X) = Some r" "fe_from C (message_bn G message) + r * sg_x X \<noteq> 0"
      "sg_message X = message_bn G message"
    and "api_ok (L, K, s)" "sign_limit K conf = Some (sg_count X)" "\<forall>t. utf8_valid (fresh t)"
      "counter_ok L K s sign_key" "\<forall>k. is_message k \<longrightarrow> key_third k = uuid \<longrightarrow> api_values (L, K, s) k = {}"
    and "S = sign_system C P G J hex parse_keys parse_conf element hex16 A conf fresh signers sched (L, K, s)"
    and "length signers = unat (sg_count X)" "fair_turns S" "signed_up S A (sg_count X) num uuid"
    and "\<forall>p < length signers.
      sign_os_ok hex parse_keys parse_conf (sg_thr X) message (sg_file C P X (num p)) (fst (signers ! p))"
    and "\<forall>p < length signers. sg_draws X (num p) = snd (signers ! p)"
  shows "(\<exists>t. \<forall>t'\<ge>t. \<forall>p < length signers. result_at S p t' =
      Some (Some (''signature'', signature_tuple G element hex16 (sg_signature C P X r)))) \<and>
    verify C (sg_signature C P X r) (sg_y C X) (message_bn G message) = Some (Inr ())"
  by (rule sign_system_ends [OF assms])

section \<open>The life of a key\<close>

text \<open>The server after the key generation, at any time.\<close>

lemma keygen_world:
  assumes laws: "keygen_laws C P G J n thr" and server: "new_server (L, K, s) conf fresh n uk us"
    and parties: "keygen_parties C G parse_conf n thr parties"
    and S_def: "S = keygen_system C P G J parse_conf A conf fresh parties sched (started (L, K, s) uk us)"
    and fair: "fair_turns S" and signed_up: "signed_up S A n num uuid"
    and draws: "\<forall>p < length parties. R (num p) = snd (parties ! p)"
  obtains s' where "world_at S t = (L, K, s')" "api_ok (L, K, s')" "counter_ok L K s' sign_key"
    "\<forall>k. is_message k \<longrightarrow> key_third k \<noteq> uuid \<longrightarrow> api_values (L, K, s') k = {}"
    "counter_entries L K s' sign_key = {\<lparr>ps_number = 0, ps_uuid = us\<rparr>}"
proof -
  note joining = keygen_joining [OF server parties S_def fair signed_up]
  note session = keygen_runs [OF laws server parties S_def fair signed_up draws]
  obtain s1 where s1: "started (L, K, s) uk us = (L, K, s1)" "counter_ok L K s1 sign_key"
    "\<forall>k. is_message k \<longrightarrow> api_values (L, K, s1) k = {}"
    "counter_entries L K s1 sign_key = {\<lparr>ps_number = 0, ps_uuid = us\<rparr>}"
    by (rule startedE [OF server])
  then have "sy_start S = (L, K, s1)" by (simp add: S_def)
  moreover have "script_ok (keygen_script C P G J thr n R)"
    using laws by (intro keygen_script_ok) (simp add: keygen_laws_def)
  ultimately obtain s' where s': "world_at S t = (L, K, s')" "api_ok (L, K, s')"
    "board_kept keygen_key uuid (L, K, s1) (L, K, s')"
    using joined_world [OF session joining, of L K s1 t] by blast
  have keys: "\<not> is_message sign_key" "\<not> is_message keygen_key" "sign_key \<noteq> keygen_key"
    by (simp_all add: is_message_def sign_key_def keygen_key_def)
  then have "api_values (L, K, s') sign_key = api_values (L, K, s1) sign_key"
    using s'(3) unfolding board_kept_def by blast
  then have "counter_ok L K s' sign_key" "counter_entries L K s' sign_key = {\<lparr>ps_number = 0, ps_uuid = us\<rparr>}"
    using s1(2,4) unfolding counter_ok_values counter_entries_values by (simp_all del: api_values_eq)
  moreover have "\<forall>k. is_message k \<longrightarrow> key_third k \<noteq> uuid \<longrightarrow> api_values (L, K, s') k = {}"
    using s'(3) s1(3) keys(2) unfolding board_kept_def by metis
  ultimately show thesis using s' that by blast
qed

text \<open>C3: The whole life of a key: \<open>n\<close> programs \<open>generate_key\<close> run at a freshly started server, in any
  fair order; when all of them have ended, \<open>t + 1\<close> programs \<open>sign\<close> are started at the same
  server, each with a key file that one of them wrote, and run in any fair order. If the sign-ups
  have made each group a session, with two different identifiers, then all of them end and write one
  and the same signature, which is valid for the message under the public key of the sum of the
  random draws of the programs \<open>generate_key\<close>, in whatever order the DHT delivers its values. (The
  conditions on the draws are those of \<open>keygen_processes\<close> and \<open>sign_processes\<close>.)\<close>

theorem key_life:
  fixes C :: "('fe::field, 'ge::ab_group_add, 'dlp, 'egp, 'vss) curv" and X :: "'fe signing"
  assumes laws: "keygen_laws C P G J n thr" "sign_json_laws J'"
    and server: "new_server (L, K, s) conf fresh n uk us" "sign_limit K conf = Some (thr + 1)"
      "\<forall>t. utf8_valid (fresh' t)"
    and parties: "keygen_parties C G parse_conf n thr parties"
    and S_def: "S = keygen_system C P G J parse_conf A conf fresh parties sched (started (L, K, s) uk us)"
    and fair: "fair_turns S" and signed_up: "signed_up S A n num uuid"
    and draws: "\<forall>p < length parties. R (num p) = snd (parties ! p)"
    and ended: "\<forall>p < length parties. result_at S p t \<noteq> None"
    and S'_def: "S' = sign_system C P G J' hex parse_keys parse_conf element hex16 A conf fresh' signers sched'
      (world_at S t)"
    and n': "length signers = unat (thr + 1)" and fair': "fair_turns S'"
    and signed_up': "signed_up S' A (thr + 1) num' uuid'" "uuid' \<noteq> uuid"
    and files: "\<forall>p < length signers. origin p < length parties \<and>
      (\<exists>path kf. result_at S (origin p) t = Some (Some (path, kf)) \<and>
        sign_os_ok hex parse_keys parse_conf thr message kf (fst (signers ! p)))"
    and X: "sg_parties X = n" "sg_thr X = thr" "sg_keygen X = R" "sg_message X = message_bn G message"
      "\<forall>p < length signers. sg_party X (num' p) = num (origin p)"
      "\<forall>p < length signers. sg_draws X (num' p) = snd (signers ! p)"
    and good: "signers_ok X" "no_wrap C P X" "good_draws X"
    and r: "x_scalar C (sg_R C P X) = Some r" "fe_from C (message_bn G message) + r * sg_x X \<noteq> 0"
  shows "(\<exists>t. \<forall>t'\<ge>t. \<forall>p < length signers. result_at S' p t' =
      Some (Some (''signature'', signature_tuple G element hex16 (sg_signature C P X r)))) \<and>
    verify C (sg_signature C P X r) (smul C (generator C) (\<Sum>(sys, rnd)\<leftarrow>parties. kr_u rnd))
      (message_bn G message) = Some (Inr ())"
proof -
  have cl: "curve_laws C" "proof_laws C" "vss_laws C (unat thr) (unat n)" "paillier_laws P"
    using laws(1) by (simp_all add: keygen_laws_def)
  obtain s' where s': "world_at S t = (L, K, s')" "api_ok (L, K, s')" "counter_ok L K s' sign_key"
    "\<forall>k. is_message k \<longrightarrow> key_third k \<noteq> uuid \<longrightarrow> api_values (L, K, s') k = {}"
    by (rule keygen_world [OF laws(1) server(1) parties S_def fair signed_up draws])
  have clear: "\<forall>k. is_message k \<longrightarrow> key_third k = uuid' \<longrightarrow> api_values (L, K, s') k = {}"
    using s'(4) signed_up'(2) by blast
  have count: "sg_count X = thr + 1" by (simp add: sg_count_def X(2))
  have "kf = sg_file C P X (num' p)"
    if p: "p < length signers" and kf: "result_at S (origin p) t = Some (Some (path, kf))" for p path kf
  proof -
    have q: "origin p < length parties" using files p by blast
    from keygen_ended [OF laws(1) server(1) parties S_def fair signed_up draws q kf] have
      "kf = honest_key_file C P thr n R (num (origin p))" by simp
    then show ?thesis using X(1,2,3,5) p by (simp add: sg_file_def)
  qed
  then have oss': "\<forall>p < length signers.
      sign_os_ok hex parse_keys parse_conf (sg_thr X) message (sg_file C P X (num' p)) (fst (signers ! p))"
    using files unfolding X(2) by blast
  have "sg_y C X = smul C (generator C) (\<Sum>(sys, rnd)\<leftarrow>parties. kr_u rnd)"
    using keygen_secret [OF S_def parties signed_up draws] by (simp add: sg_y_def sg_x_def X(1,3))
  with sign_system_ends [OF cl(1,2) _ cl(4) laws(2) good r X(4) s'(2) _ server(3)
      s'(3) clear S'_def [unfolded s'(1)] _ fair' _ oss' X(6)]
  show ?thesis using cl(3) server(2) n' signed_up'(1) by (simp add: X(1,2) count)
qed

end
