(* ===== verification/Sample_Processes.thy ===== *)
theory Sample_Processes
  imports Sample_Signing Sign_Processes
begin

text \<open>
  The theorems about concurrent processes at a concrete system: two programs \<open>generate_key\<close> and then
  two programs \<open>sign\<close>, which take turns at the server over the sample DHT.
\<close>

section \<open>Taking turns\<close>

lemma in_turn_first:
  assumes "sy_sched S = (\<lambda>t. t mod length (sy_progs S))" "p < length (sy_progs S)"
  shows "first_turn S p = p"
  unfolding first_turn_def turn_def assms(1)
proof (rule Least_equality)
  fix t assume "0 \<le> t \<and> t mod length (sy_progs S) = p"
  then show "p \<le> t" by (metis mod_less_eq_dividend)
qed (use assms(2) in simp)

lemma in_turn_fair:
  assumes "sy_sched S = (\<lambda>t. t mod length (sy_progs S))"
  shows "fair_turns S"
  unfolding fair_turns_def
proof (intro allI impI)
  fix p t assume p: "p < length (sy_progs S)"
  let ?n = "length (sy_progs S)"
  have "t \<le> ?n * t + p" using p by (cases ?n) auto
  moreover have "(?n * t + p) mod ?n = p" using p by simp
  ultimately show "\<exists>t'\<ge>t. sy_sched S t' = p" using assms by metis
qed

text \<open>The log delivers the newest entry of a counter, so two processes that take turns sign up with the
  numbers 1 and 2.\<close>

lemma log_signup:
  assumes "signup_route path key lim" "codec_laws J" "unlocked s" "lim J conf = Some l"
    and "counter_value log_dht J s key = Some prev" "utf8_valid (ps_uuid prev)" "utf8_valid u"
  obtains tx s' where "post (http_net A conf u) path (Body_Key key) (log_dht, J, s) = (Get_Ok (Some tx), (log_dht, J, s'))"
    "get_signup (Rep_lawful_codec A) tx = Some (Inr (next_signup l u prev))" "unlocked s'"
    "counter_value log_dht J s' key = Some (next_signup l u prev)"
proof -
  obtain t tx where t: "post (http_net A conf u) path (Body_Key key) (log_dht, J, s) =
      (Get_Ok (Some tx), (log_dht, J, s\<lparr>dht := put_signed log_dht (dht s) (key_hash log_dht J s key) t True\<rparr>))"
    "get_signup (Rep_lawful_codec A) tx = Some (Inr (next_signup l u prev))"
    "utf8_valid t" "parse_signup J t = Some (next_signup l u prev)"
    by (rule route_post [OF assms])
  show thesis by (rule that [OF t(1,2)]) (use t(3,4) assms(3) in \<open>simp_all add: counter_value_def log_stored_put\<close>)
qed

lemma in_turn_signed_up:
  fixes S :: "((log, string) api_world, 'a) system"
  assumes turns: "sy_sched S = (\<lambda>t. t mod length (sy_progs S))" and two: "length (sy_progs S) = 2"
    and net: "sy_net S = (\<lambda>t. http_net A conf (fresh t))" "\<forall>t. utf8_valid (fresh t)"
    and start: "sy_start S = (log_dht, J, s)" "codec_laws J" "unlocked s"
      "counter_value log_dht J s key = Some \<lparr>ps_number = 0, ps_uuid = uuid\<rparr>" "utf8_valid uuid"
    and route: "signup_route path key lim" "lim J conf = Some 2"
    and first: "\<forall>p < 2. next_request (sy_progs S ! p) [] = Some (path, Body_Key key)"
  shows "signed_up S A 2 (\<lambda>p. of_nat (Suc p)) uuid"
proof -
  note fair = in_turn_fair [OF turns]
  have at: "first_turn S p = p" "request_at S p = Some (path, Body_Key key)" if "p < 2" for p
    using that first first_turn(1,3) [OF fair, of p] in_turn_first [OF turns, of p] two
    by (simp_all add: request_at_def)
  have "sy_sched S 0 = 0" "sy_sched S 1 = 1" using turns two by simp_all
  note suc = answers_at_Suc [of 0 S 0] answers_at_Suc [of 1 S 1]
  obtain tx1 s1 where 1: "post (http_net A conf (fresh 0)) path (Body_Key key) (log_dht, J, s) =
      (Get_Ok (Some tx1), (log_dht, J, s1))"
    "get_signup (Rep_lawful_codec A) tx1 = Some (Inr \<lparr>ps_number = 1, ps_uuid = uuid\<rparr>)" "unlocked s1"
    "counter_value log_dht J s1 key = Some \<lparr>ps_number = 1, ps_uuid = uuid\<rparr>"
    by (rule log_signup [OF route(1) start(2,3) route(2) start(4) _ net(2) [rule_format, of 0], of A])
      (simp_all add: start(5) next_signup_def)
  obtain tx2 s2 where 2: "post (http_net A conf (fresh 1)) path (Body_Key key) (log_dht, J, s1) =
      (Get_Ok (Some tx2), (log_dht, J, s2))"
    "get_signup (Rep_lawful_codec A) tx2 = Some (Inr \<lparr>ps_number = 2, ps_uuid = uuid\<rparr>)"
    by (rule log_signup [OF route(1) start(2) 1(3) route(2) 1(4) _ net(2) [rule_format, of 1], of A])
      (simp_all add: start(5) next_signup_def)
  have "world_at S 1 = (log_dht, J, s1)"
    using at(2) [of 0] 1(1) by (simp add: world_at_Suc serve_def net(1) start(1))
  then have "answers_at S 1 (Suc 1) = [Get_Ok (Some tx2)]"
    using suc(2) at [of 1] first_turn(3) [OF fair, of 1] two 2(1) \<open>sy_sched S 1 = 1\<close> by (simp add: net(1))
  moreover have "answers_at S 0 (Suc 0) = [Get_Ok (Some tx1)]"
    using suc(1) at [of 0] two 1(1) \<open>sy_sched S 0 = 0\<close> by (simp add: net(1) start(1))
  moreover have "(\<lambda>p. of_nat (Suc p)) ` {..<2} = set (u32_range 2)"
    by (auto simp: range2 lessThan_Suc numeral_2_eq_2)
  ultimately show ?thesis
    using at(1) two 1(2) 2(2) by (auto simp: signed_up_def less_2_cases_iff)
qed

section \<open>Two programs generate a key\<close>

definition os7 :: "string list \<Rightarrow> os" where
  "os7 args = \<lparr>os_args = args,
     os_files = (\<lambda>path. if path = ''config/server.conf'' then Some ''2:1''
       else if path = ''k1'' then Some ''1'' else if path = ''k2'' then Some ''2'' else None),
     os_writable = (\<lambda>_. True)\<rparr>"

definition parties7 :: "(os \<times> gf7 keygen_rnd) list" where
  "parties7 = [(os7 [''generate_key'', ''http://localhost'', ''k1''], rnd7 1),
     (os7 [''generate_key'', ''http://localhost'', ''k2''], rnd7 2)]"

definition in_turn2 :: "nat \<Rightarrow> nat" where
  "in_turn2 t = t mod 2"

definition server7 :: "(log, string) api_world" where
  "server7 = (log_dht, esc_codecs, fresh_state)"

definition keygen7 :: "((log, string) api_world, string \<times> (gf7, gf7, int, int, gf7 list) key_file) system" where
  "keygen7 = keygen_system C7 P7 gcm7 json7 parse_colon_params plain_codec (Some ''2:1'') (\<lambda>_. ''u'')
     parties7 in_turn2 (started server7 ''k'' ''s'')"

lemma keygen7_laws: "keygen_laws C7 P7 gcm7 json7 2 1"
  using params7(1) curve_laws_C7 proof_laws_C7 paillier_laws_P7 gcm7_laws(1) json7_laws
  by (simp add: keygen_laws_def)

lemma server7_new: "new_server server7 (Some ''2:1'') (\<lambda>_. ''u'') 2 ''k'' ''s''"
  using fresh_ok sample_limits by (simp add: new_server_def server7_def in_range_def)

lemma parse_u32_1: "parse_u32 ''1'' = Some 1" and parse_u32_2: "parse_u32 ''2'' = Some 2"
  by (simp_all add: parse_u32_def parse_unsigned_def digit_val_def)

lemma parties7_ok: "keygen_parties C7 gcm7 parse_colon_params 2 1 parties7"
proof -
  have "keygen_os_ok parse_colon_params 2 1 (os7 [prog, url, path])" for prog url path
    by (simp add: keygen_os_ok_def os7_def config_file_def parse_colon_params_def split_colon_def
        parse_u32_2 parse_u32_1)
  moreover have "pair_ok C7 gcm7 (smul C7 (generator C7) (kr_u (rnd7 i))) (smul C7 (generator C7) (kr_u (rnd7 j)))"
    for i j using pair7 [of i j] by (simp add: honest_point_def)
  ultimately show ?thesis using params7(2)
    by (simp add: keygen_parties_def parties7_def nth_Cons split: nat.split)
qed

text \<open>The numbers of the processes.\<close>

definition num7 :: "nat \<Rightarrow> u32" where
  "num7 p = of_nat (Suc p)"

lemma num7: "p < 2 \<Longrightarrow> num7 p = (if p = 0 then 1 else 2)" "num7 0 = 1" "num7 1 = 2" "num7 (Suc 0) = 2"
  by (auto simp: num7_def less_2_cases_iff)

lemma started_counters:
  obtains s where "started server7 ''k'' ''s'' = (log_dht, esc_codecs, s)" "api_ok (log_dht, esc_codecs, s)"
    "counter_value log_dht esc_codecs s keygen_key = Some \<lparr>ps_number = 0, ps_uuid = ''k''\<rparr>"
    "counter_ok log_dht esc_codecs s sign_key"
    "counter_value log_dht esc_codecs s sign_key = Some \<lparr>ps_number = 0, ps_uuid = ''s''\<rparr>"
    "\<forall>k. is_message k \<longrightarrow> api_values (log_dht, esc_codecs, s) k = {}"
proof -
  obtain s where s: "started server7 ''k'' ''s'' = (log_dht, esc_codecs, s)" "api_ok (log_dht, esc_codecs, s)"
    "counter_ok log_dht esc_codecs s keygen_key" "counter_ok log_dht esc_codecs s sign_key"
    "\<forall>k. is_message k \<longrightarrow> api_values (log_dht, esc_codecs, s) k = {}"
    "counter_entries log_dht esc_codecs s keygen_key = {\<lparr>ps_number = 0, ps_uuid = ''k''\<rparr>}"
    "counter_entries log_dht esc_codecs s sign_key = {\<lparr>ps_number = 0, ps_uuid = ''s''\<rparr>}"
    unfolding server7_def by (rule startedE [OF server7_new [unfolded server7_def]])
  obtain p where p: "counter_value log_dht esc_codecs s keygen_key = Some p" "p \<in> counter_entries log_dht esc_codecs s keygen_key"
    by (rule counter_okE [OF s(3)])
  obtain q where q: "counter_value log_dht esc_codecs s sign_key = Some q" "q \<in> counter_entries log_dht esc_codecs s sign_key"
    by (rule counter_okE [OF s(4)])
  show thesis using p q by (intro that [OF s(1,2) _ s(4) _ s(5)]) (simp_all only: s(6,7) singleton_iff)
qed

lemma keygen7_numbers:
  "fair_turns keygen7" "signed_up keygen7 plain_codec 2 num7 ''k''"
  "\<forall>p < length parties7. rnd7 (num7 p) = snd (parties7 ! p)"
proof -
  have turns: "sy_sched keygen7 = (\<lambda>t. t mod length (sy_progs keygen7))"
    by (simp add: keygen7_def parties7_def in_turn2_def fun_eq_iff numeral_2_eq_2)
  show "fair_turns keygen7" by (rule in_turn_fair [OF turns])
  obtain s where s: "started server7 ''k'' ''s'' = (log_dht, esc_codecs, s)" "api_ok (log_dht, esc_codecs, s)"
    "counter_value log_dht esc_codecs s keygen_key = Some \<lparr>ps_number = 0, ps_uuid = ''k''\<rparr>"
    by (rule started_counters)
  have "next_request (sy_progs keygen7 ! p) [] = Some (''signupkeygen'', Body_Key keygen_key)" if "p < 2" for p
  proof -
    have p: "p < length parties7" using that by (simp add: parties7_def)
    then have "(fst (parties7 ! p), snd (parties7 ! p)) \<in> set parties7" by simp
    then have "keygen_os_ok parse_colon_params 2 1 (fst (parties7 ! p))"
      using parties7_ok unfolding keygen_parties_def by blast
    from keygen_joins [OF this, of C7 P7 gcm7 json7 plain_codec "snd (parties7 ! p)" undefined] p
    show ?thesis by (simp add: keygen7_def joins_def)
  qed
  then show "signed_up keygen7 plain_codec 2 num7 ''k''"
    unfolding num7_def [abs_def]
    using s sample_limits(1) turns
    by (intro in_turn_signed_up [where path = "''signupkeygen''" and key = keygen_key and lim = keygen_limit
          and conf = "Some ''2:1''" and fresh = "\<lambda>_. ''u''" and J = esc_codecs and s = s])
      (simp_all add: keygen7_def parties7_def api_ok_def in_range_def signup_route_def)
  show "\<forall>p < length parties7. rnd7 (num7 p) = snd (parties7 ! p)"
    by (auto simp: parties7_def less_Suc_eq numeral_2_eq_2 num7)
qed

theorem keygen_processes_witness:
  "(\<exists>t. \<forall>t'\<ge>t. result_at keygen7 0 t' = Some (Some (''k1'', honest_key_file C7 P7 1 2 rnd7 1)) \<and>
     result_at keygen7 1 t' = Some (Some (''k2'', honest_key_file C7 P7 1 2 rnd7 2))) \<and>
   kf_y_sum (honest_key_file C7 P7 1 2 rnd7 1) = (\<Sum>(sys, rnd)\<leftarrow>parties7. kr_u rnd)"
proof -
  note run = keygen_processes [OF keygen7_laws server7_new [unfolded server7_def] parties7_ok
      keygen7_def [unfolded server7_def] keygen7_numbers]
  have "length parties7 = 2" "os_args (fst (parties7 ! 0)) ! 2 = ''k1''" "os_args (fst (parties7 ! 1)) ! 2 = ''k2''"
    by (simp_all add: parties7_def os7_def)
  then show ?thesis using run by (auto simp: less_2_cases_iff C7_def num7)
qed

section \<open>Two programs sign with their files\<close>

definition files7 :: "string \<Rightarrow> (gf7, gf7, int, int, gf7 list) key_file option" where
  "files7 data = (if data = ''1'' then Some (honest_key_file C7 P7 1 2 rnd7 1)
     else if data = ''2'' then Some (honest_key_file C7 P7 1 2 rnd7 2) else None)"

definition signers7p :: "(os \<times> gf7 sign_rnd) list" where
  "signers7p = [(os7 [''sign'', ''http://localhost'', ''k2'', ''111''], draws7 1),
     (os7 [''sign'', ''http://localhost'', ''k1'', ''111''], draws7 2)]"

definition sign7 ::
  "(log, string) api_world \<Rightarrow> ((log, string) api_world, string \<times> string \<times> string \<times> string \<times> string) system" where
  "sign7 w = sign_system C7 P7 gcm7 sign_json7 (\<lambda>_. None) files7 parse_colon_params (\<lambda>x. int_text (gf_to x))
     int_text plain_codec (Some ''2:1'') (\<lambda>_. ''v'') signers7p in_turn2 w"

abbreviation signature7 :: "gf7 signature" where
  "signature7 \<equiv> sg_signature C7 P7 signing7 Z1"

lemma signers7_length: "length signers7p = unat (2 :: u32)" "length signers7p = 2"
  by (simp_all add: signers7p_def)

lemma signers7_os:
  assumes "p < 2"
  shows "sign_os_ok (\<lambda>_. None) files7 parse_colon_params 1 ''111''
    (honest_key_file C7 P7 1 2 rnd7 (2 - of_nat p)) (fst (signers7p ! p))"
  using assms
  by (auto simp: less_2_cases_iff sign_os_ok_def os7_def config_file_def parse_colon_params_def
      split_colon_def parse_u32_2 parse_u32_1 signers7p_def files7_def message_bytes_def)

lemma files7_party: "p < 2 \<Longrightarrow> sg_file C7 P7 signing7 (num7 p) = honest_key_file C7 P7 1 2 rnd7 (2 - of_nat p)"
  by (auto simp: less_2_cases_iff sg_file_def num7)

lemma signers7_files:
  "\<forall>p < length signers7p. sign_os_ok (\<lambda>_. None) files7 parse_colon_params (sg_thr signing7) ''111''
    (sg_file C7 P7 signing7 (num7 p)) (fst (signers7p ! p))"
  using files7_party signers7_os by (simp add: signers7p_def)

lemma sign7_numbers:
  assumes "api_ok (log_dht, esc_codecs, s)"
    and "counter_value log_dht esc_codecs s sign_key = Some \<lparr>ps_number = 0, ps_uuid = ''s''\<rparr>"
  defines "S \<equiv> sign7 (log_dht, esc_codecs, s)"
  shows "fair_turns S" "signed_up S plain_codec 2 num7 ''s''"
    "\<forall>p < length signers7p. sg_draws signing7 (num7 p) = snd (signers7p ! p)"
proof -
  have turns: "sy_sched S = (\<lambda>t. t mod length (sy_progs S))"
    by (simp add: S_def sign7_def signers7p_def in_turn2_def fun_eq_iff numeral_2_eq_2)
  show "fair_turns S" by (rule in_turn_fair [OF turns])
  have "next_request (sy_progs S ! p) [] = Some (''signupsign'', Body_Key sign_key)" if "p < 2" for p
  proof -
    have p: "p < length signers7p" using that by (simp add: signers7p_def)
    from sign_joins [OF signers7_files [rule_format, OF p], of C7 P7 gcm7 sign_json7 plain_codec
        "\<lambda>x. int_text (gf_to x)" int_text "snd (signers7p ! p)" undefined] p
    show ?thesis by (simp add: S_def sign7_def joins_def)
  qed
  then show "signed_up S plain_codec 2 num7 ''s''"
    unfolding num7_def [abs_def]
    using assms(1,2) sample_limits(3) turns
    by (intro in_turn_signed_up [where path = "''signupsign''" and key = sign_key and lim = sign_limit
          and conf = "Some ''2:1''" and fresh = "\<lambda>_. ''v''" and J = esc_codecs and s = s])
      (simp_all add: S_def sign7_def signers7p_def api_ok_def in_range_def signup_route_def)
  show "\<forall>p < length signers7p. sg_draws signing7 (num7 p) = snd (signers7p ! p)"
    by (auto simp: signers7p_def less_Suc_eq numeral_2_eq_2 draws7_def num7)
qed

theorem sign_processes_witness:
  "(\<exists>t. \<forall>t'\<ge>t. \<forall>p < length signers7p. result_at (sign7 (started server7 ''k'' ''s'')) p t' =
     Some (Some (''signature'', signature_tuple gcm7 (\<lambda>x. int_text (gf_to x)) int_text signature7))) \<and>
   verify C7 signature7 (sg_y C7 signing7) 3 = Some (Inr ())"
proof -
  obtain s where s: "started server7 ''k'' ''s'' = (log_dht, esc_codecs, s)" "api_ok (log_dht, esc_codecs, s)"
    "counter_ok log_dht esc_codecs s sign_key"
    "counter_value log_dht esc_codecs s sign_key = Some \<lparr>ps_number = 0, ps_uuid = ''s''\<rparr>"
    "\<forall>k. is_message k \<longrightarrow> api_values (log_dht, esc_codecs, s) k = {}"
    by (rule started_counters)
  note signers = sign7_numbers [OF s(2,4)]
  have vss: "vss_laws C7 (unat (sg_thr signing7)) (unat (sg_parties signing7))"
    using vss_laws_C7 [of 2] by simp
  have clear: "\<forall>k. is_message k \<longrightarrow> key_third k = ''s'' \<longrightarrow> api_values (log_dht, esc_codecs, s) k = {}"
    using s(5) by blast
  have count: "signed_up (sign7 (log_dht, esc_codecs, s)) plain_codec (sg_count signing7) num7 ''s''"
    using signers(2) by simp
  from sign_processes [OF curve_laws_C7 proof_laws_C7 vss paillier_laws_P7 sign_json7_laws signers7
      no_wrap7 good_draws7 nonce7 _ _ s(2) _ _ s(3) clear sign7_def _ signers(1) count signers7_files signers(3)]
  show ?thesis using s(1) sample_limits(3) signers7_length
    by (simp add: message7 signed7 [simplified] in_range_def)
qed

theorem key_life_witness:
  "\<exists>t. (\<exists>t0. \<forall>t'\<ge>t0. \<forall>p < length signers7p. result_at (sign7 (world_at keygen7 t)) p t' =
     Some (Some (''signature'', signature_tuple gcm7 (\<lambda>x. int_text (gf_to x)) int_text signature7))) \<and>
   verify C7 signature7 (smul C7 (generator C7) (\<Sum>(sys, rnd)\<leftarrow>parties7. kr_u rnd)) 3 = Some (Inr ())"
proof -
  note keygen = keygen7_laws server7_new [unfolded server7_def] parties7_ok
    keygen7_def [unfolded server7_def] keygen7_numbers
  have len: "length parties7 = 2" "length signers7p = 2" by (simp_all add: parties7_def signers7p_def)
  obtain t where "\<forall>t'\<ge>t. \<forall>p < length parties7. result_at keygen7 p t' =
      Some (Some (os_args (fst (parties7 ! p)) ! 2, honest_key_file C7 P7 1 2 rnd7 (num7 p)))"
    using keygen_system_ends [OF keygen] by blast
  then have ended: "result_at keygen7 p t =
      Some (Some (os_args (fst (parties7 ! p)) ! 2, honest_key_file C7 P7 1 2 rnd7 (num7 p)))"
    if "p < 2" for p using that len by simp
  obtain s where s: "world_at keygen7 t = (log_dht, esc_codecs, s)" "api_ok (log_dht, esc_codecs, s)"
    "counter_ok log_dht esc_codecs s sign_key"
    "counter_entries log_dht esc_codecs s sign_key = {\<lparr>ps_number = 0, ps_uuid = ''s''\<rparr>}"
    by (rule keygen_world [OF keygen])
  obtain q where "counter_value log_dht esc_codecs s sign_key = Some q" "q \<in> counter_entries log_dht esc_codecs s sign_key"
    by (rule counter_okE [OF s(3)])
  then have "counter_value log_dht esc_codecs s sign_key = Some \<lparr>ps_number = 0, ps_uuid = ''s''\<rparr>"
    by (simp only: s(4) singleton_iff)
  note signers = sign7_numbers [OF s(2) this]
  have origin: "1 - p < (2 :: nat)" "num7 (1 - p) = (2 - of_nat p :: u32)" if "p < 2" for p
    using that by (auto simp: less_2_cases_iff num7)
  have files: "\<forall>p < length signers7p. 1 - p < length parties7 \<and>
      (\<exists>path kf. result_at keygen7 (1 - p) t = Some (Some (path, kf)) \<and>
        sign_os_ok (\<lambda>_. None) files7 parse_colon_params 1 ''111'' kf (fst (signers7p ! p)))"
    using ended origin signers7_os len by simp
  have party: "\<forall>p < length signers7p. sg_party signing7 (num7 p) = num7 (1 - p)"
    using len by (auto simp: less_2_cases_iff num7)
  have sign: "sign7 (world_at keygen7 t) = sign_system C7 P7 gcm7 sign_json7 (\<lambda>_. None) files7 parse_colon_params
      (\<lambda>x. int_text (gf_to x)) int_text plain_codec (Some ''2:1'') (\<lambda>_. ''v'') signers7p in_turn2 (world_at keygen7 t)"
    by (simp add: sign7_def)
  have turns: "fair_turns (sign7 (world_at keygen7 t))" "signed_up (sign7 (world_at keygen7 t)) plain_codec (1 + 1) num7 ''s''"
    using signers(1,2) by (simp_all add: s(1))
  from key_life [OF keygen7_laws sign_json7_laws server7_new [unfolded server7_def] _ _ parties7_ok
      keygen7_def [unfolded server7_def] keygen7_numbers _ sign _ turns _ files _ _ _ _
      party signers(3) signers7 no_wrap7 good_draws7 nonce7]
  show ?thesis using ended sample_limits(3) signers7_length len
    by (intro exI [of _ t]) (simp add: message7 signed7 [simplified] in_range_def)
qed

end
